(* ===== verification/Prelude.thy ===== *)
theory Prelude
  imports Main "HOL-Library.Word" "HOL-Library.AList" "HOL-Library.Multiset" "HOL-Library.Char_ord" "HOL-Library.List_Lexorder"
begin

text \<open>
  What every component shares: bytes and fixed-width integers, the UTF-8 view of a string,
  hexadecimal digits, big-endian integers, decimal printing, saturating arithmetic on i64, the
  early-return loop of the validators, and lemmas on separated byte strings and association
  lists. A Rust \<open>String\<close> is a \<open>string\<close> (a list of bytes seen as characters), so the order of
  strings is the byte order of UTF-8. A Rust \<open>HashMap\<close> that the code iterates or counts is an
  association list with distinct keys (\<open>AList.update\<close>, \<open>AList.delete\<close>, \<open>map_of\<close>); one that
  it only looks up is a map \<open>'k \<rightharpoonup> 'v\<close>; a \<open>BTreeMap\<close> is an association list in ascending
  order of its keys.
\<close>

unbundle bit_operations_syntax

named_theorems frame \<open>fields of the kernel state that an operation leaves alone\<close>

section \<open>Bytes, words, strings\<close>

type_synonym byte = "8 word"
type_synonym bytes = "byte list"
type_synonym u32 = "32 word"
type_synonym u64 = "64 word"

text \<open>\<open>str::as_bytes\<close>.\<close>

definition as_bytes :: "string \<Rightarrow> bytes" where
  "as_bytes s = map of_char s"

text \<open>\<open>len() as u64\<close>.\<close>

definition len64 :: "'a list \<Rightarrow> u64" where
  "len64 xs = word_of_nat (length xs)"

definition SEP :: byte where
  "SEP = 0"

text \<open>\<open>u64::to_be_bytes\<close>.\<close>

definition to_be_bytes :: "u64 \<Rightarrow> bytes" where
  "to_be_bytes w = map (\<lambda>i. ucast (drop_bit (8 * i) w)) [7, 6, 5, 4, 3, 2, 1, 0]"

definition hex_digits :: string where
  "hex_digits = ''0123456789abcdef''"

definition hex :: "bytes \<Rightarrow> string" where
  "hex bs = concat (map (\<lambda>b. [hex_digits ! unat (drop_bit 4 b), hex_digits ! unat (b AND 15)]) bs)"

text \<open>Decimal printing, as \<open>Display\<close> of an unsigned integer.\<close>

fun show_nat :: "nat \<Rightarrow> string" where
  "show_nat n = (if n < 10 then [char_of (48 + n)] else show_nat (n div 10) @ [char_of (48 + n mod 10)])"

declare show_nat.simps [simp del]

text \<open>
  \<open>Debug\<close> of a string and of a list of strings. ASCII control characters are escaped; the bytes of
  longer characters are printed as they are, which is what \<open>Debug\<close> does with a printable one.
\<close>

definition unicode_escape :: "char \<Rightarrow> string" where
  "unicode_escape c =
     (let n = of_char c :: nat
      in [CHR 0x5C, CHR ''u'', CHR 0x7B] @
         (if n < 16 then [hex_digits ! n] else [hex_digits ! (n div 16), hex_digits ! (n mod 16)]) @ [CHR 0x7D])"

definition debug_char :: "char \<Rightarrow> string" where
  "debug_char c =
     (if c = CHR 0x22 then [CHR 0x5C, CHR 0x22]
      else if c = CHR 0x5C then [CHR 0x5C, CHR 0x5C]
      else if c = CHR 0x0A then [CHR 0x5C, CHR ''n'']
      else if c = CHR 0x0D then [CHR 0x5C, CHR ''r'']
      else if c = CHR 0x09 then [CHR 0x5C, CHR ''t'']
      else if c = CHR 0x00 then [CHR 0x5C, CHR ''0'']
      else if (of_char c :: nat) < 32 \<or> c = CHR 0x7F then unicode_escape c
      else [c])"

definition debug_str :: "string \<Rightarrow> string" where
  "debug_str s = [CHR 0x22] @ concat (map debug_char s) @ [CHR 0x22]"

fun join_with :: "string \<Rightarrow> string list \<Rightarrow> string" where
  "join_with sep [] = []"
| "join_with sep [x] = x"
| "join_with sep (x # y # ys) = x @ sep @ join_with sep (y # ys)"

definition debug_strs :: "string list \<Rightarrow> string" where
  "debug_strs xs = ''['' @ join_with '', '' (map debug_str xs) @ '']''"

text \<open>Signed 64-bit arithmetic: an i64 is an \<open>int\<close> in the range of the type.\<close>

definition i64_min :: int where "i64_min = - (2 ^ 63)"
definition i64_max :: int where "i64_max = 2 ^ 63 - 1"

definition i64_saturating_add :: "int \<Rightarrow> int \<Rightarrow> int" where
  "i64_saturating_add a b = max i64_min (min i64_max (a + b))"

definition u64_as_i64 :: "u64 \<Rightarrow> int" where
  "u64_as_i64 w = sint w"

definition u64_saturating_add :: "u64 \<Rightarrow> u64 \<Rightarrow> u64" where
  "u64_saturating_add a b = (if unat a + unat b < 2 ^ 64 then a + b else -1)"

definition u64_saturating_sub :: "u64 \<Rightarrow> u64 \<Rightarrow> u64" where
  "u64_saturating_sub a b = (if a < b then 0 else a - b)"

definition u64_saturating_mul :: "u64 \<Rightarrow> u64 \<Rightarrow> u64" where
  "u64_saturating_mul a b = (if unat a * unat b < 2 ^ 64 then a * b else -1)"

section \<open>Loops with an early error return\<close>

fun try_each :: "('a \<Rightarrow> 'e + unit) \<Rightarrow> 'a list \<Rightarrow> 'e + unit" where
  "try_each f [] = Inr ()"
| "try_each f (x # xs) = (case f x of Inl e \<Rightarrow> Inl e | Inr _ \<Rightarrow> try_each f xs)"

lemma case_sum_Inr:
  "(case r of Inl e \<Rightarrow> Inl e | Inr x \<Rightarrow> f x) = Inr y \<longleftrightarrow> (\<exists>x. r = Inr x \<and> f x = Inr y)"
  by (cases r) simp_all

lemma case_option_Inr:
  "(case r of None \<Rightarrow> Inl e | Some x \<Rightarrow> f x) = Inr y \<longleftrightarrow> (\<exists>x. r = Some x \<and> f x = Inr y)"
  by (cases r) simp_all

lemma try_each_ok [simp]: "try_each f xs = Inr u \<longleftrightarrow> (\<forall>x \<in> set xs. f x = Inr ())"
  by (induction xs) (auto split: sum.splits)

text \<open>The first error of the loop is the loop's error.\<close>

lemma try_each_error:
  "try_each f xs = Inl e \<longleftrightarrow>
     (\<exists>ys x zs. xs = ys @ x # zs \<and> (\<forall>y \<in> set ys. f y = Inr ()) \<and> f x = Inl e)"
proof (induction xs)
  case Nil
  show ?case by simp
next
  case (Cons a as)
  show ?case
  proof (cases "f a")
    case (Inl d)
    show ?thesis
    proof
      assume "try_each f (a # as) = Inl e"
      with Inl show "\<exists>ys x zs. a # as = ys @ x # zs \<and> (\<forall>y \<in> set ys. f y = Inr ()) \<and> f x = Inl e"
        by (intro exI [of _ "[]"]) auto
    next
      assume "\<exists>ys x zs. a # as = ys @ x # zs \<and> (\<forall>y \<in> set ys. f y = Inr ()) \<and> f x = Inl e"
      then obtain ys x zs where ys: "a # as = ys @ x # zs" "\<forall>y \<in> set ys. f y = Inr ()" "f x = Inl e"
        by blast
      with Inl have "ys = []" by (cases ys) auto
      with ys Inl show "try_each f (a # as) = Inl e" by simp
    qed
  next
    case (Inr u)
    have "(\<exists>ys x zs. a # as = ys @ x # zs \<and> (\<forall>y \<in> set ys. f y = Inr ()) \<and> f x = Inl e)
      \<longleftrightarrow> (\<exists>ys x zs. as = ys @ x # zs \<and> (\<forall>y \<in> set ys. f y = Inr ()) \<and> f x = Inl e)"
      (is "?L \<longleftrightarrow> ?R")
    proof
      assume ?L
      then obtain ys x zs where ys: "a # as = ys @ x # zs" "\<forall>y \<in> set ys. f y = Inr ()" "f x = Inl e"
        by blast
      with Inr obtain ys' where "ys = a # ys'" by (cases ys) auto
      with ys show ?R by auto
    next
      assume ?R
      then obtain ys x zs where "as = ys @ x # zs" "\<forall>y \<in> set ys. f y = Inr ()" "f x = Inl e"
        by blast
      with Inr show ?L by (intro exI [of _ "a # ys"] exI [of _ x] exI [of _ zs]) auto
    qed
    with Inr Cons.IH show ?thesis by simp
  qed
qed

section \<open>Lemmas on bytes\<close>

lemma unat_of_char: "unat (of_char c :: byte) = of_char c"
proof -
  have "unat (word_of_nat (of_char c) :: byte) = of_char c mod 2 ^ 8"
    by (simp add: unsigned_of_nat take_bit_eq_mod)
  moreover have "(of_char c :: nat) < 256" by (rule nat_of_char_less_256)
  ultimately show ?thesis by (simp add: of_nat_of_char)
qed

lemma of_char_byte_inj: "of_char c = (of_char d :: byte) \<longleftrightarrow> c = d"
proof
  assume "of_char c = (of_char d :: byte)"
  then have "(of_char c :: nat) = of_char d" by (metis unat_of_char)
  then show "c = d" by simp
qed simp

lemma as_bytes_inj [simp]: "as_bytes s = as_bytes t \<longleftrightarrow> s = t"
  unfolding as_bytes_def by (rule inj_map_eq_map) (auto simp: inj_on_def of_char_byte_inj)

lemma as_bytes_Nil [simp]: "as_bytes [] = []" "as_bytes s = [] \<longleftrightarrow> s = []"
  by (simp_all add: as_bytes_def)

lemma as_bytes_append [simp]: "as_bytes (s @ t) = as_bytes s @ as_bytes t"
  by (simp add: as_bytes_def)

lemma length_as_bytes [simp]: "length (as_bytes s) = length s"
  by (simp add: as_bytes_def)

lemma length_to_be_bytes [simp]: "length (to_be_bytes w) = 8"
  by (simp add: to_be_bytes_def)

lemma to_be_bytes_inj [simp]: "to_be_bytes v = to_be_bytes w \<longleftrightarrow> v = w"
proof
  assume eq: "to_be_bytes v = to_be_bytes w"
  have byte: "(ucast (drop_bit (8 * i) v) :: byte) = ucast (drop_bit (8 * i) w)" if "i < 8" for i
  proof -
    have "i \<in> {7, 6, 5, 4, 3, 2, 1, 0}" using that by auto
    with eq show ?thesis by (auto simp: to_be_bytes_def)
  qed
  show "v = w"
  proof (rule bit_word_eqI)
    fix n
    assume "n < LENGTH(64)"
    then have n: "n div 8 < 8" and split: "n = 8 * (n div 8) + n mod 8" by simp_all
    from byte [OF n] have "bit (ucast (drop_bit (8 * (n div 8)) v) :: byte) (n mod 8)
        \<longleftrightarrow> bit (ucast (drop_bit (8 * (n div 8)) w) :: byte) (n mod 8)" by simp
    then show "bit v n \<longleftrightarrow> bit w n"
      by (simp add: bit_simps)
  qed
qed simp

lemma length_hex [simp]: "length (hex bs) = 2 * length bs"
  by (induction bs) (simp_all add: hex_def)

lemma hex_Nil [simp]: "hex [] = []"
  by (simp add: hex_def)

lemma hex_Cons: "hex (b # bs) =
    hex_digits ! unat (drop_bit 4 b) # hex_digits ! unat (b AND 15) # hex bs"
  by (simp add: hex_def)

lemma nibbles_bound: "unat (drop_bit 4 (b :: byte)) < 16" "unat ((b :: byte) AND 15) < 16"
proof -
  have "unat b < 2 ^ 8" using unsigned_less [of b] by simp
  then show "unat (drop_bit 4 b) < 16"
    by (simp add: drop_bit_eq_div unat_div)
  have "(b AND 15) = take_bit 4 b" by (simp add: take_bit_eq_mask mask_eq_exp_minus_1)
  then show "unat (b AND 15) < 16" by (simp add: take_bit_eq_mod unat_mod)
qed

lemma nibbles_inj:
  assumes "drop_bit 4 (a :: byte) = drop_bit 4 b" and "a AND 15 = b AND 15"
  shows "a = b"
proof -
  have "push_bit 4 (drop_bit 4 a) + take_bit 4 a = a" for a :: byte
    by (rule bits_ident)
  moreover have "take_bit 4 a = a AND 15" for a :: byte
    by (simp add: take_bit_eq_mask mask_eq_exp_minus_1)
  ultimately show ?thesis using assms by metis
qed

lemma hex_digits_inj:
  assumes "m < 16" "n < 16" "hex_digits ! m = hex_digits ! n"
  shows "m = n"
proof -
  have "distinct hex_digits" "length hex_digits = 16" by (simp_all add: hex_digits_def)
  with assms show ?thesis by (simp add: nth_eq_iff_index_eq)
qed

lemma nibble_digits_inj:
  assumes "hex_digits ! unat (drop_bit 4 a) = hex_digits ! unat (drop_bit 4 b)"
    and "hex_digits ! unat (a AND 15) = hex_digits ! unat (b AND 15)"
  shows "a = (b :: byte)"
proof (rule nibbles_inj)
  show "drop_bit 4 a = drop_bit 4 b"
    by (rule iffD2 [OF word_unat_eq_iff], rule hex_digits_inj [OF nibbles_bound(1) nibbles_bound(1) assms(1)])
  show "a AND 15 = b AND 15"
    by (rule iffD2 [OF word_unat_eq_iff], rule hex_digits_inj [OF nibbles_bound(2) nibbles_bound(2) assms(2)])
qed

lemma hex_inj [simp]: "hex as = hex bs \<longleftrightarrow> as = bs"
proof
  show "hex as = hex bs \<Longrightarrow> as = bs"
  proof (induction as arbitrary: bs)
    case Nil
    then show ?case by (cases bs) (simp_all add: hex_Cons)
  next
    case (Cons a as)
    then obtain b bs' where bs: "bs = b # bs'" by (cases bs) (simp_all add: hex_Cons)
    from Cons.prems have "hex_digits ! unat (drop_bit 4 a) = hex_digits ! unat (drop_bit 4 b)"
      and "hex_digits ! unat (a AND 15) = hex_digits ! unat (b AND 15)" and tl: "hex as = hex bs'"
      unfolding bs hex_Cons list.inject by blast+
    then have "a = b" by (intro nibble_digits_inj)
    with bs Cons.IH [OF tl] show ?case by simp
  qed
qed simp

lemma set_hex: "set (hex bs) \<subseteq> set hex_digits"
proof (induction bs)
  case (Cons b bs)
  have "length hex_digits = 16" by (simp add: hex_digits_def)
  with nibbles_bound have "hex_digits ! unat (drop_bit 4 b) \<in> set hex_digits"
    "hex_digits ! unat (b AND 15) \<in> set hex_digits"
    by (metis nth_mem)+
  with Cons show ?case by (simp add: hex_Cons)
qed simp

section \<open>Counters\<close>

lemma word_less_succ: "(w :: u64) \<noteq> - 1 \<Longrightarrow> w < w + 1"
  by (metis inc_less_eq_triv_imp linorder_less_linear word_le_less_eq)

lemma unat_succ: "(w :: u64) \<noteq> - 1 \<Longrightarrow> unat (w + 1) = unat w + 1"
  by (metis unat_plus_simple unsigned_1 word_le_less_eq word_less_succ)

section \<open>Fields separated by a zero byte\<close>

definition nul_free :: "bytes \<Rightarrow> bool" where
  "nul_free bs \<longleftrightarrow> SEP \<notin> set bs"

lemma nul_free_simps [simp]:
  "nul_free []" "nul_free (b # bs) \<longleftrightarrow> b \<noteq> SEP \<and> nul_free bs"
  "nul_free (as @ bs) \<longleftrightarrow> nul_free as \<and> nul_free bs"
  by (auto simp: nul_free_def)

lemma split_at_sep:
  assumes "nul_free xs" "nul_free ys"
  shows "xs @ SEP # us = ys @ SEP # vs \<longleftrightarrow> xs = ys \<and> us = vs"
  using assms
proof (induction xs arbitrary: ys)
  case Nil
  then show ?case by (cases ys) auto
next
  case (Cons x xs)
  then show ?case by (cases ys) auto
qed

lemma split_at_last_sep:
  assumes "nul_free us" "nul_free vs"
  shows "xs @ SEP # us = ys @ SEP # vs \<longleftrightarrow> xs = ys \<and> us = vs"
proof -
  have "nul_free (rev us)" "nul_free (rev vs)" using assms by (simp_all add: nul_free_def)
  then have "rev us @ SEP # rev xs = rev vs @ SEP # rev ys \<longleftrightarrow> us = vs \<and> xs = ys"
    by (simp add: split_at_sep)
  then show ?thesis by (metis append.assoc append_Cons append_Nil rev.simps(2) rev_append rev_rev_ident)
qed

lemma of_char_zero: "(of_char c :: byte) = 0 \<longleftrightarrow> c = CHR 0x00"
  using of_char_byte_inj [of c "CHR 0x00"] by simp

lemma nul_free_as_bytes: "nul_free (as_bytes s) \<longleftrightarrow> CHR 0x00 \<notin> set s"
  by (induction s) (auto simp: as_bytes_def SEP_def of_char_zero)

lemma nul_free_hex [simp]: "nul_free (as_bytes (hex bs))"
proof -
  have "CHR 0x00 \<notin> set hex_digits" by (simp add: hex_digits_def)
  with set_hex [of bs] show ?thesis by (auto simp: nul_free_as_bytes)
qed

section \<open>Maps with an order\<close>

text \<open>\<open>BTreeMap::insert\<close> on an association list in ascending order of its keys.\<close>

fun bt_insert :: "'k::linorder \<Rightarrow> 'v \<Rightarrow> ('k \<times> 'v) list \<Rightarrow> ('k \<times> 'v) list" where
  "bt_insert k v [] = [(k, v)]"
| "bt_insert k v ((k', v') # m) =
     (if k < k' then (k, v) # (k', v') # m
      else if k = k' then (k, v) # m
      else (k', v') # bt_insert k v m)"

definition bt_wf :: "('k::linorder \<times> 'v) list \<Rightarrow> bool" where
  "bt_wf m \<longleftrightarrow> sorted_wrt (<) (map fst m)"

lemma set_bt_insert_keys: "set (map fst (bt_insert k v m)) = insert k (set (map fst m))"
  by (induction k v m rule: bt_insert.induct) auto

lemma bt_wf_Nil [simp]: "bt_wf []"
  by (simp add: bt_wf_def)

lemma bt_wf_Cons: "bt_wf ((k, v) # m) \<longleftrightarrow> (\<forall>k' \<in> set (map fst m). k < k') \<and> bt_wf m"
  by (simp add: bt_wf_def)

lemma bt_wf_insert [simp]: "bt_wf m \<Longrightarrow> bt_wf (bt_insert k v m)"
proof (induction k v m rule: bt_insert.induct)
  case (2 k v k' v' m)
  consider "k < k'" | "k = k'" | "k' < k" by (rule linorder_cases)
  then show ?case
  proof cases
    case 1
    with 2 show ?thesis by (auto simp: bt_wf_Cons)
  next
    case 2
    with "2.prems" show ?thesis by (auto simp: bt_wf_Cons)
  next
    case 3
    then have "\<not> k < k'" "k \<noteq> k'" by auto
    with 3 2 show ?thesis by (auto simp: bt_wf_Cons set_bt_insert_keys simp del: set_map)
  qed
qed (simp add: bt_wf_def)

lemma bt_wf_distinct: "bt_wf m \<Longrightarrow> distinct (map fst m)"
  unfolding bt_wf_def by (simp add: strict_sorted_iff)

lemma bt_wf_sorted: "bt_wf m \<Longrightarrow> sorted (map fst m)"
  unfolding bt_wf_def by (simp add: strict_sorted_iff)

lemma map_of_bt_insert [simp]: "map_of (bt_insert k v m) = (map_of m)(k \<mapsto> v)"
proof (induction k v m rule: bt_insert.induct)
  case (2 k v k' v' m)
  then show ?case by (auto simp: fun_eq_iff)
qed simp

text \<open>A sorted association list is determined by the map it stands for.\<close>

lemma bt_wf_map_of_inject:
  assumes "bt_wf m" "bt_wf n" "map_of m = map_of n"
  shows "m = n"
proof -
  from assms(3) have "set (map fst m) = set (map fst n)"
    by (metis dom_map_of_conv_image_fst list.set_map)
  moreover have "sorted (map fst m)" "distinct (map fst m)" "sorted (map fst n)" "distinct (map fst n)"
    using assms by (simp_all add: bt_wf_sorted bt_wf_distinct)
  ultimately have keys: "map fst m = map fst n" by (simp add: sorted_distinct_set_unique)
  show ?thesis
  proof (rule nth_equalityI)
    show len: "length m = length n" using keys by (metis length_map)
    fix i assume i: "i < length m"
    then have fst: "fst (m ! i) = fst (n ! i)" using keys len by (metis nth_map)
    have "map_of m (fst (m ! i)) = Some (snd (m ! i))" "map_of n (fst (n ! i)) = Some (snd (n ! i))"
      using assms(1,2) i len by (auto intro!: map_of_is_SomeI bt_wf_distinct)
    with fst assms(3) show "m ! i = n ! i" by (simp add: prod_eq_iff)
  qed
qed

end
