(* ===== verification/Proto.thy ===== *)
theory Proto
  imports Prelude
begin

text \<open>
  The messages and enumerations of \<open>substrate.proto\<close>, as records and datatypes with the
  message's fields in order. A field of an enumeration type that a caller fills is an i32 on the
  wire, as in the generated Rust types: an \<open>int\<close>, read back with the \<open>_try_from\<close> function of
  its enumeration. The state of a run is written by the kernel only, from the constants of
  \<open>RunState\<close>, and is the enumeration itself.

  The record \<open>ext\<close> collects the code the repository calls and does not hold: SHA-256 (crate
  \<open>sha2\<close>), the canonical protobuf encoding of each message (\<open>encode_to_vec\<close> of the crate
  \<open>prost\<close>, on generated types) and the order in which a \<open>HashMap\<close> is iterated. Every
  definition that uses one of them takes the record as its first argument.
\<close>

section \<open>Enumerations\<close>

datatype lifecycle =
  LifecycleUnspecified | Registered | Loaded | Active | Deactivated

fun lifecycle_i32 :: "lifecycle \<Rightarrow> int" where
  "lifecycle_i32 LifecycleUnspecified = 0"
| "lifecycle_i32 Registered = 1"
| "lifecycle_i32 Loaded = 2"
| "lifecycle_i32 Active = 3"
| "lifecycle_i32 Deactivated = 4"

definition lifecycle_try_from :: "int \<Rightarrow> lifecycle option" where
  "lifecycle_try_from i =
     (if i = 0 then Some LifecycleUnspecified else if i = 1 then Some Registered
      else if i = 2 then Some Loaded else if i = 3 then Some Active
      else if i = 4 then Some Deactivated else None)"

datatype firing = FiringUnspecified | Once | Always | OncePerKey

fun firing_i32 :: "firing \<Rightarrow> int" where
  "firing_i32 FiringUnspecified = 0"
| "firing_i32 Once = 1"
| "firing_i32 Always = 2"
| "firing_i32 OncePerKey = 3"

definition firing_try_from :: "int \<Rightarrow> firing option" where
  "firing_try_from i =
     (if i = 0 then Some FiringUnspecified else if i = 1 then Some Once
      else if i = 2 then Some Always else if i = 3 then Some OncePerKey else None)"

text \<open>The generated accessor of an enumeration field: an unknown value reads as the default.\<close>

definition firing_get :: "int \<Rightarrow> firing" where
  "firing_get i = (case firing_try_from i of None \<Rightarrow> FiringUnspecified | Some f \<Rightarrow> f)"

datatype blob_ingest_mode = IngestUnspecified | CopyVerify

fun blob_ingest_mode_i32 :: "blob_ingest_mode \<Rightarrow> int" where
  "blob_ingest_mode_i32 IngestUnspecified = 0"
| "blob_ingest_mode_i32 CopyVerify = 1"

definition blob_ingest_mode_try_from :: "int \<Rightarrow> blob_ingest_mode option" where
  "blob_ingest_mode_try_from i =
     (if i = 0 then Some IngestUnspecified else if i = 1 then Some CopyVerify else None)"

datatype store_durability = DurabilityUnspecified | Ephemeral | Durable

fun store_durability_i32 :: "store_durability \<Rightarrow> int" where
  "store_durability_i32 DurabilityUnspecified = 0"
| "store_durability_i32 Ephemeral = 1"
| "store_durability_i32 Durable = 2"

definition store_durability_try_from :: "int \<Rightarrow> store_durability option" where
  "store_durability_try_from i =
     (if i = 0 then Some DurabilityUnspecified else if i = 1 then Some Ephemeral
      else if i = 2 then Some Durable else None)"

datatype closure = ClosureUnspecified | FirstTerminal | Open

fun closure_i32 :: "closure \<Rightarrow> int" where
  "closure_i32 ClosureUnspecified = 0"
| "closure_i32 FirstTerminal = 1"
| "closure_i32 Open = 2"

definition closure_try_from :: "int \<Rightarrow> closure option" where
  "closure_try_from i =
     (if i = 0 then Some ClosureUnspecified else if i = 1 then Some FirstTerminal
      else if i = 2 then Some Open else None)"

definition closure_get :: "int \<Rightarrow> closure" where
  "closure_get i = (case closure_try_from i of None \<Rightarrow> ClosureUnspecified | Some c \<Rightarrow> c)"

datatype run_state = RunUnspecified | Running | Completed | Stalled | Failed | Cancelled

datatype error_code =
  ErrorUnspecified | CodeNotFound | CodeInvalid | CodeConflict | CodeFailedPrecondition
| CodeResourceExhausted | CodeBlobIntegrity

section \<open>Modules, artifacts, contracts, events, ledger\<close>

record port =
  port_name :: string
  port_multiple :: bool
  port_optional :: bool
  port_key :: bool
  port_traits :: "string list"

record capability =
  cap_name :: string
  cap_inputs :: "port list"
  cap_outputs :: "port list"
  cap_firing :: int

record module_manifest =
  mm_name :: string
  mm_version :: string
  mm_provides :: "capability list"
  mm_requires :: "string list"

record blob_ref =
  bref_digest :: string
  bref_byte_count :: u64
  bref_namespace :: string

record object_ref =
  oref_digest :: string
  oref_byte_count :: u64
  oref_namespace :: string

record trait_val =
  tr_body :: bytes
  tr_object :: "object_ref option"

record artifact =
  art_id :: string
  art_meta :: "(string \<times> string) list"
  art_produced_by :: string
  art_traits :: "(string \<times> trait_val) list"
  art_entity_id :: string
  art_supersedes :: string

record artifact_ref =
  aref_id :: string

record artifact_store_policy =
  asp_max_inline_bytes :: u64
  asp_max_blob_bytes :: u64
  asp_ingest_mode :: int
  asp_durability :: int

record put_blob_request =
  pbr_namespace :: string
  pbr_data :: bytes

record get_blob_request =
  gbr_digest :: string
  gbr_namespace :: string

record blob_data =
  bd_digest :: string
  bd_byte_count :: u64
  bd_namespace :: string
  bd_data :: bytes

record has_blob_request =
  hbr_digest :: string
  hbr_namespace :: string

record has_blob_response =
  hbp_exists :: bool
  hbp_byte_count :: u64

record contract =
  ct_ref :: string
  ct_schema :: string
  ct_media_type :: string
  ct_version :: string
  ct_digest :: string
  ct_compatible_with :: "string list"

record event =
  ev_id :: string
  ev_topic :: string
  ev_type :: string
  ev_source :: string
  ev_seq :: u64
  ev_run_id :: string
  ev_artifacts :: "artifact_ref list"

record ledger_entry =
  le_seq :: u64
  le_kind :: string
  le_subject :: string
  le_detail :: bytes
  le_prev_hash :: string
  le_hash :: string

section \<open>Assemblies, runs, work\<close>

record named_artifact =
  na_name :: string
  na_artifact :: "artifact_ref option"

record assembly_node =
  an_id :: string
  an_module :: string
  an_module_version :: string
  an_capability :: string

record binding =
  bd_to_node :: string
  bd_to_port :: string
  bd_from_node :: string
  bd_from_port :: string
  bd_input :: string

record node_output =
  no_node :: string
  no_port :: string

record limits =
  lim_max_steps :: u64
  lim_max_in_flight :: u64
  lim_default_lease_ms :: u64
  lim_max_attempts :: u32

record execution_policy =
  ep_default :: int
  ep_by_node :: "(string \<times> int) list"
  ep_closure :: int

record assembly =
  as_id :: string
  as_nodes :: "assembly_node list"
  as_bindings :: "binding list"
  as_terminal :: "node_output option"

record run_request =
  rr_id :: string
  rr_assembly :: "assembly option"
  rr_inputs :: "named_artifact list"
  rr_limits :: "limits option"
  rr_include_nodes :: "string list"
  rr_policy :: "execution_policy option"

record run =
  run_id :: string
  run_assembly :: "assembly option"
  run_inputs :: "named_artifact list"
  run_state :: run_state
  run_answer :: "artifact_ref option"
  run_steps :: u64
  run_max_steps :: u64
  run_reason :: string
  run_policy :: "execution_policy option"

record inject_input_request =
  iir_run_id :: string
  iir_input :: "named_artifact option"

record claim_request =
  cr_run_id :: string
  cr_module :: string
  cr_node_ids :: "string list"
  cr_max_items :: u32
  cr_modules :: "string list"

record work_item =
  wi_id :: string
  wi_run_id :: string
  wi_node_id :: string
  wi_module :: string
  wi_module_version :: string
  wi_capability :: string
  wi_inputs :: "named_artifact list"
  wi_unit_key :: string
  wi_attempt :: u32
  wi_lease_until_unix_ms :: int

record heartbeat_request =
  hr_run_id :: string
  hr_work_ids :: "string list"
  hr_extend_lease_ms :: u64

record heartbeat_response =
  hp_renewed_work_ids :: "string list"
  hp_lost_work_ids :: "string list"

record fail_work_request =
  fwr_run_id :: string
  fwr_work_id :: string
  fwr_reason :: string
  fwr_terminal :: bool

record work_failure =
  wf_run_id :: string
  wf_work_id :: string
  wf_unit_key :: string
  wf_reason :: string
  wf_terminal :: bool
  wf_attempt :: u32

record derivation =
  dv_id :: string
  dv_run_id :: string
  dv_work_id :: string
  dv_node_id :: string
  dv_module :: string
  dv_module_version :: string
  dv_capability :: string
  dv_inputs :: "named_artifact list"
  dv_outputs :: "named_artifact list"

record request_context =
  cx_caller :: string
  cx_request_key :: string
  cx_deadline_unix_ms :: int
  cx_correlation_id :: string

record error_message =
  em_code :: error_code
  em_message :: string
  em_retryable :: bool
  em_conflict_subject :: string
  em_failed_precondition :: string

record transition_request =
  tq_module :: string
  tq_to :: int

record append_request =
  aq_kind :: string
  aq_subject :: string
  aq_detail :: bytes

record subscription =
  sb_module :: string
  sb_topics :: "string list"

record registry_snapshot =
  sn_modules :: "module_manifest list"
  sn_capabilities :: "capability list"
  sn_contracts :: "contract list"
  sn_store_policy :: "artifact_store_policy option"

text \<open>\<open>RequestContext::default()\<close>.\<close>

definition default_context :: request_context where
  "default_context = \<lparr>cx_caller = [], cx_request_key = [], cx_deadline_unix_ms = 0, cx_correlation_id = []\<rparr>"

section \<open>Code outside the repository\<close>

record ext =
  sha256 :: "bytes \<Rightarrow> bytes"
  enc_manifest :: "module_manifest \<Rightarrow> bytes"
  enc_artifact :: "artifact \<Rightarrow> bytes"
  enc_blob_ref :: "blob_ref \<Rightarrow> bytes"
  enc_contract :: "contract \<Rightarrow> bytes"
  enc_event :: "event \<Rightarrow> bytes"
  enc_run :: "run \<Rightarrow> bytes"
  enc_named_artifact :: "named_artifact \<Rightarrow> bytes"
  enc_work_item :: "work_item \<Rightarrow> bytes"
  enc_work_failure :: "work_failure \<Rightarrow> bytes"
  enc_derivation :: "derivation \<Rightarrow> bytes"
  hash_order :: "string list \<Rightarrow> string list"

text \<open>
  Documented behaviour of that code, named where a theorem needs it: a SHA-256 digest has 32
  bytes; iterating a \<open>HashMap\<close> visits every key once.
\<close>

definition digest_32 :: "ext \<Rightarrow> bool" where
  "digest_32 X \<longleftrightarrow> (\<forall>bs. length (sha256 X bs) = 32)"

definition order_permutes :: "ext \<Rightarrow> bool" where
  "order_permutes X \<longleftrightarrow> (\<forall>ks. mset (hash_order X ks) = mset ks)"

section \<open>Enumerations and their wire values\<close>

lemma lifecycle_try_from_i32 [simp]: "lifecycle_try_from (lifecycle_i32 l) = Some l"
  by (cases l) (simp_all add: lifecycle_try_from_def)

lemma lifecycle_try_from_Some: "lifecycle_try_from i = Some l \<Longrightarrow> i = lifecycle_i32 l"
  by (auto simp: lifecycle_try_from_def split: if_splits)

lemma lifecycle_i32_eq [simp]: "lifecycle_i32 l = lifecycle_i32 k \<longleftrightarrow> l = k"
  by (cases l; cases k) simp_all

lemma firing_try_from_i32 [simp]: "firing_try_from (firing_i32 f) = Some f"
  by (cases f) (simp_all add: firing_try_from_def)

lemma firing_get_i32 [simp]: "firing_get (firing_i32 f) = f"
  by (simp add: firing_get_def)

lemma closure_get_i32 [simp]: "closure_get (closure_i32 c) = c"
  by (cases c) (simp_all add: closure_get_def closure_try_from_def)

text \<open>Lifecycle states are ordered by their wire value, the order in which a module moves.\<close>

instantiation lifecycle :: linorder
begin

definition less_eq_lifecycle :: "lifecycle \<Rightarrow> lifecycle \<Rightarrow> bool" where
  "less_eq_lifecycle a b \<longleftrightarrow> lifecycle_i32 a \<le> lifecycle_i32 b"

definition less_lifecycle :: "lifecycle \<Rightarrow> lifecycle \<Rightarrow> bool" where
  "less_lifecycle a b \<longleftrightarrow> lifecycle_i32 a < lifecycle_i32 b"

instance
  by standard (auto simp: less_eq_lifecycle_def less_lifecycle_def)

end

end
