(* ===== verification/Errors.thy ===== *)
theory Errors
  imports Proto
begin

text \<open>
  \<open>KernelError\<close>: everything that can go wrong at the ABI seam, its text and its projection onto
  the portable \<open>Error\<close> message. A fallible operation returns \<open>kernel_error + 'a\<close>.
\<close>

datatype kernel_error =
  NotFound string
| Invalid string
| Conflict string
| RunClosed run_state
| FailedPrecondition string
| BlobIntegrity string
| ResourceExhausted string

text \<open>\<open>Debug\<close> of \<open>RunState\<close>.\<close>

fun debug_run_state :: "run_state \<Rightarrow> string" where
  "debug_run_state RunUnspecified = ''Unspecified''"
| "debug_run_state Running = ''Running''"
| "debug_run_state Completed = ''Completed''"
| "debug_run_state Stalled = ''Stalled''"
| "debug_run_state Failed = ''Failed''"
| "debug_run_state Cancelled = ''Cancelled''"

fun error_to_string :: "kernel_error \<Rightarrow> string" where
  "error_to_string (NotFound i) = ''not found: '' @ i"
| "error_to_string (Invalid reason) = ''invalid: '' @ reason"
| "error_to_string (Conflict reason) = ''conflict: '' @ reason"
| "error_to_string (RunClosed state) = ''run is closed: '' @ debug_run_state state"
| "error_to_string (FailedPrecondition reason) = ''failed precondition: '' @ reason"
| "error_to_string (BlobIntegrity reason) = ''blob integrity: '' @ reason"
| "error_to_string (ResourceExhausted reason) = ''resource exhausted: '' @ reason"

fun code :: "kernel_error \<Rightarrow> error_code" where
  "code (NotFound _) = CodeNotFound"
| "code (Invalid _) = CodeInvalid"
| "code (Conflict _) = CodeConflict"
| "code (RunClosed _) = CodeFailedPrecondition"
| "code (FailedPrecondition _) = CodeFailedPrecondition"
| "code (BlobIntegrity _) = CodeBlobIntegrity"
| "code (ResourceExhausted _) = CodeResourceExhausted"

definition retryable :: "kernel_error \<Rightarrow> bool" where
  "retryable e = False"

definition to_proto :: "kernel_error \<Rightarrow> error_message" where
  "to_proto err =
     (let e = \<lparr>em_code = code err, em_message = error_to_string err, em_retryable = retryable err,
               em_conflict_subject = [], em_failed_precondition = []\<rparr>
      in case err of
           Conflict subject \<Rightarrow> e\<lparr>em_conflict_subject := subject\<rparr>
         | RunClosed state \<Rightarrow> e\<lparr>em_failed_precondition := ''run closed: '' @ debug_run_state state\<rparr>
         | FailedPrecondition reason \<Rightarrow> e\<lparr>em_failed_precondition := reason\<rparr>
         | BlobIntegrity reason \<Rightarrow> e\<lparr>em_failed_precondition := reason\<rparr>
         | _ \<Rightarrow> e)"

lemma code_specified [simp]: "code e \<noteq> ErrorUnspecified"
  by (cases e) simp_all

lemma debug_run_state_inj [simp]: "debug_run_state a = debug_run_state b \<longleftrightarrow> a = b"
  by (cases a; cases b) simp_all

text \<open>
  The portable message keeps the whole error: two native errors with the same projection are the
  same error. So nothing a caller can branch on is lost across the ABI.
\<close>

lemma to_proto_fields:
  "em_code (to_proto e) = code e" "em_message (to_proto e) = error_to_string e"
  by (cases e; simp add: to_proto_def)+

lemma to_proto_eqD:
  assumes "to_proto d = to_proto e"
  shows "d = e"
proof -
  from assms have "code d = code e" "error_to_string d = error_to_string e"
    by (metis to_proto_fields)+
  then show ?thesis by (cases d; cases e) simp_all
qed

end
