(* ===== verification/FwBase.thy ===== *)
theory FwBase
  imports Errors
begin

text \<open>
  What every part of the framework (\<open>framework/sdk/rust/src\<close>) uses: \<open>FrameworkError\<close> of
  \<open>lib.rs\<close>, and the values it takes from code outside the repository. An \<open>f64\<close> is its IEEE-754
  bit pattern, compared as the type compares. A \<open>serde_json::Value\<close> is an opaque handle (a byte
  string), compared and built by the parameters \<open>json_eq\<close> and \<open>ports_json\<close>.
\<close>

section \<open>Errors\<close>

datatype framework_error =
  KernelErr kernel_error
| NoPlugin string
| InvalidUse string
| StepFailed string

fun framework_error_to_string :: "framework_error \<Rightarrow> string" where
  "framework_error_to_string (KernelErr e) = ''kernel: '' @ error_to_string e"
| "framework_error_to_string (NoPlugin m) = ''no plugin registered for module '' @ m"
| "framework_error_to_string (InvalidUse r) = ''invalid: '' @ r"
| "framework_error_to_string (StepFailed r) = ''step failed: '' @ r"

text \<open>\<open>?\<close> on a kernel result: \<open>From<KernelError>\<close>.\<close>

definition from_kernel :: "kernel_error + 'a \<Rightarrow> framework_error + 'a" where
  "from_kernel r = (case r of Inl e \<Rightarrow> Inl (KernelErr e) | Inr v \<Rightarrow> Inr v)"

lemma from_kernel_Inr [simp]: "from_kernel r = Inr v \<longleftrightarrow> r = Inr v"
  by (simp add: from_kernel_def split: sum.split)

lemma from_kernel_Inl [simp]: "from_kernel r = Inl e \<longleftrightarrow> (\<exists>k. r = Inl k \<and> e = KernelErr k)"
  by (auto simp: from_kernel_def split: sum.split)

lemma find_SomeD: "find P xs = Some x \<Longrightarrow> x \<in> set xs \<and> P x"
  by (auto simp: find_Some_iff)

section \<open>Values from outside the repository\<close>

type_synonym f64 = "64 word"

definition f64_one :: f64 where "f64_one = 0x3FF0000000000000"

definition f64_is_nan :: "f64 \<Rightarrow> bool" where
  "f64_is_nan x \<longleftrightarrow> 0x7FF0000000000000 < take_bit 63 x"

definition f64_eq :: "f64 \<Rightarrow> f64 \<Rightarrow> bool" where
  "f64_eq x y \<longleftrightarrow> \<not> f64_is_nan x \<and> \<not> f64_is_nan y \<and>
     (x = y \<or> take_bit 63 x = 0 \<and> take_bit 63 y = 0)"

lemma f64_eq_sym: "f64_eq x y \<longleftrightarrow> f64_eq y x"
  by (auto simp: f64_eq_def)

lemma f64_eq_trans: "f64_eq x y \<Longrightarrow> f64_eq y z \<Longrightarrow> f64_eq x z"
  by (auto simp: f64_eq_def)

type_synonym json = bytes

text \<open>A \<open>BTreeMap\<close> in key order: an association list kept sorted by \<open>bt_insert\<close>.\<close>

definition bt_of :: "('k::linorder \<times> 'v) list \<Rightarrow> ('k \<times> 'v) list" where
  "bt_of rows = fold (\<lambda>(k, v) m. bt_insert k v m) rows []"

lemma bt_of_wf [simp]: "bt_wf (bt_of rows)"
proof -
  have "bt_wf m \<Longrightarrow> bt_wf (fold (\<lambda>(k, v) m. bt_insert k v m) rows m)" for m
    by (induction rows arbitrary: m) auto
  then show ?thesis by (simp add: bt_of_def)
qed

lemma map_of_bt_of: "map_of (bt_of rows) = map_of (rev rows)"
proof -
  have "map_of (fold (\<lambda>(k, v) m. bt_insert k v m) rows m) = map_of m ++ map_of (rev rows)" for m
    by (induction rows arbitrary: m) (auto simp: map_add_def fun_eq_iff split: option.splits)
  then show ?thesis by (simp add: bt_of_def)
qed

end
