(* ===== verification/Storage.thy ===== *)
theory Storage
  imports FwBase
begin

text \<open>
  Framework-managed tables (\<open>framework/sdk/rust/src/storage.rs\<close>): storage plans, schemas, rows,
  the qualification of tables, the in-memory backend, and the contract of a backend as a locale with
  what its clients need.
\<close>

section \<open>Plans\<close>

datatype storage_mode = ModeOff | PerRun | Shared

datatype storage_retention = DropOnEnd | Keep

record storage_plan =
  sp_mode :: storage_mode
  sp_step_log :: bool
  sp_retention :: storage_retention

definition storage_off :: storage_plan where
  "storage_off = \<lparr>sp_mode = ModeOff, sp_step_log = False, sp_retention = DropOnEnd\<rparr>"

definition storage_per_run :: storage_plan where
  "storage_per_run = \<lparr>sp_mode = PerRun, sp_step_log = False, sp_retention = DropOnEnd\<rparr>"

definition storage_per_run_keep :: storage_plan where
  "storage_per_run_keep = \<lparr>sp_mode = PerRun, sp_step_log = False, sp_retention = Keep\<rparr>"

definition storage_shared :: storage_plan where
  "storage_shared = \<lparr>sp_mode = Shared, sp_step_log = False, sp_retention = Keep\<rparr>"

definition step_log_only :: storage_plan where
  "step_log_only = \<lparr>sp_mode = ModeOff, sp_step_log = True, sp_retention = Keep\<rparr>"

definition per_run_with_step_log :: storage_plan where
  "per_run_with_step_log = \<lparr>sp_mode = PerRun, sp_step_log = True, sp_retention = DropOnEnd\<rparr>"

definition with_step_log :: "storage_plan \<Rightarrow> storage_plan" where
  "with_step_log p = p\<lparr>sp_step_log := True\<rparr>"

definition with_retention :: "storage_retention \<Rightarrow> storage_plan \<Rightarrow> storage_plan" where
  "with_retention r p = p\<lparr>sp_retention := r\<rparr>"

definition storage_enabled :: "storage_plan \<Rightarrow> bool" where
  "storage_enabled p \<longleftrightarrow> sp_mode p \<noteq> ModeOff \<or> sp_step_log p"

definition module_tables :: "storage_plan \<Rightarrow> bool" where
  "module_tables p = (case sp_mode p of PerRun \<Rightarrow> True | Shared \<Rightarrow> True | ModeOff \<Rightarrow> False)"

section \<open>Schemas and values\<close>

datatype column_type = TextCol | IntegerCol | RealCol | BooleanCol | JsonCol | BytesCol

record column_def =
  cd_name :: string
  cd_ty :: column_type
  cd_nullable :: bool

definition required_col :: "string \<Rightarrow> column_type \<Rightarrow> column_def" where
  "required_col name ty = \<lparr>cd_name = name, cd_ty = ty, cd_nullable = False\<rparr>"

definition optional_col :: "string \<Rightarrow> column_type \<Rightarrow> column_def" where
  "optional_col name ty = \<lparr>cd_name = name, cd_ty = ty, cd_nullable = True\<rparr>"

datatype write_mode = AppendRows | Upsert | Replace

record table_schema =
  ts_name :: string
  ts_columns :: "column_def list"
  ts_primary_key :: "string list"
  ts_write_mode :: write_mode

definition schema_new :: "string \<Rightarrow> table_schema" where
  "schema_new name = \<lparr>ts_name = name, ts_columns = [], ts_primary_key = [], ts_write_mode = AppendRows\<rparr>"

definition schema_column :: "column_def \<Rightarrow> table_schema \<Rightarrow> table_schema" where
  "schema_column c t = t\<lparr>ts_columns := ts_columns t @ [c]\<rparr>"

definition schema_primary_key :: "string list \<Rightarrow> table_schema \<Rightarrow> table_schema" where
  "schema_primary_key keys t = t\<lparr>ts_primary_key := keys\<rparr>"

definition schema_write_mode :: "write_mode \<Rightarrow> table_schema \<Rightarrow> table_schema" where
  "schema_write_mode mode t = t\<lparr>ts_write_mode := mode\<rparr>"

datatype store_value =
  NullVal
| BooleanVal bool
| IntegerVal int
| RealVal f64
| TextVal string
| JsonVal json
| BytesVal bytes

text \<open>The derived \<open>PartialEq\<close>; JSON values compare as \<open>serde_json\<close> says.\<close>

fun store_value_eq :: "(json \<Rightarrow> json \<Rightarrow> bool) \<Rightarrow> store_value \<Rightarrow> store_value \<Rightarrow> bool" where
  "store_value_eq jeq NullVal NullVal = True"
| "store_value_eq jeq (BooleanVal a) (BooleanVal b) = (a = b)"
| "store_value_eq jeq (IntegerVal a) (IntegerVal b) = (a = b)"
| "store_value_eq jeq (RealVal a) (RealVal b) = f64_eq a b"
| "store_value_eq jeq (TextVal a) (TextVal b) = (a = b)"
| "store_value_eq jeq (JsonVal a) (JsonVal b) = jeq a b"
| "store_value_eq jeq (BytesVal a) (BytesVal b) = (a = b)"
| "store_value_eq jeq _ _ = False"

type_synonym store_row = "(string \<times> store_value) list"

record store_write =
  sw_mode :: "write_mode option"
  sw_rows :: "store_row list"

definition write_append :: "store_row list \<Rightarrow> store_write" where
  "write_append rows = \<lparr>sw_mode = Some AppendRows, sw_rows = rows\<rparr>"

definition write_upsert :: "store_row list \<Rightarrow> store_write" where
  "write_upsert rows = \<lparr>sw_mode = Some Upsert, sw_rows = rows\<rparr>"

definition write_replace :: "store_row list \<Rightarrow> store_write" where
  "write_replace rows = \<lparr>sw_mode = Some Replace, sw_rows = rows\<rparr>"

definition write_single :: "write_mode \<Rightarrow> store_row \<Rightarrow> store_write" where
  "write_single mode row = \<lparr>sw_mode = Some mode, sw_rows = [row]\<rparr>"

definition store_row :: "(string \<times> store_value) list \<Rightarrow> store_row" where
  "store_row pairs = bt_of pairs"

section \<open>Qualified tables\<close>

record qualified_table =
  qt_physical_name :: string
  qt_module :: string
  qt_logical_name :: string
  qt_schema :: table_schema
  qt_mode :: storage_mode

definition STEP_LOG_TABLE :: string where
  "STEP_LOG_TABLE = ''_srcport_step_log''"

definition identity_columns :: "column_def list" where
  "identity_columns =
     [required_col ''_run_id'' TextCol, required_col ''_work_id'' TextCol,
      required_col ''_node_id'' TextCol, required_col ''_module'' TextCol]"

text \<open>The loop of \<open>with_identity_columns\<close>: columns whose name is new.\<close>

fun add_columns :: "column_def list \<Rightarrow> column_def list \<Rightarrow> column_def list" where
  "add_columns columns [] = columns"
| "add_columns columns (c # cs) =
     add_columns (if list_ex (\<lambda>x. cd_name x = cd_name c) columns then columns else columns @ [c]) cs"

definition with_identity_columns :: "table_schema \<Rightarrow> table_schema" where
  "with_identity_columns schema =
     \<lparr>ts_name = ts_name schema, ts_columns = add_columns identity_columns (ts_columns schema),
      ts_primary_key = ts_primary_key schema, ts_write_mode = ts_write_mode schema\<rparr>"

definition qualify_table :: "storage_mode \<Rightarrow> string \<Rightarrow> string \<Rightarrow> table_schema \<Rightarrow> qualified_table" where
  "qualify_table mode rid module schema =
     \<lparr>qt_physical_name =
        (case mode of ModeOff \<Rightarrow> ts_name schema
         | PerRun \<Rightarrow> rid @ ''__'' @ module @ ''__'' @ ts_name schema
         | Shared \<Rightarrow> module @ ''__'' @ ts_name schema),
      qt_module = module, qt_logical_name = ts_name schema,
      qt_schema = with_identity_columns schema, qt_mode = mode\<rparr>"

definition step_log_schema :: table_schema where
  "step_log_schema =
     \<lparr>ts_name = STEP_LOG_TABLE,
      ts_columns = [required_col ''run_id'' TextCol, required_col ''work_id'' TextCol,
        required_col ''node_id'' TextCol, required_col ''module'' TextCol,
        required_col ''capability'' TextCol, required_col ''ok'' BooleanCol,
        optional_col ''error'' TextCol, optional_col ''output_ports'' JsonCol],
      ts_primary_key = [], ts_write_mode = AppendRows\<rparr>"

definition step_log_qualified :: "storage_mode \<Rightarrow> string \<Rightarrow> qualified_table" where
  "step_log_qualified mode rid =
     \<lparr>qt_physical_name =
        (case mode of PerRun \<Rightarrow> rid @ ''__'' @ STEP_LOG_TABLE | _ \<Rightarrow> STEP_LOG_TABLE),
      qt_module = [], qt_logical_name = STEP_LOG_TABLE, qt_schema = step_log_schema,
      qt_mode = (if mode = ModeOff then Shared else mode)\<rparr>"

text \<open>\<open>row.entry(key).or_insert(value)\<close>.\<close>

definition or_insert :: "string \<Rightarrow> store_value \<Rightarrow> store_row \<Rightarrow> store_row" where
  "or_insert k v row = (case map_of row k of None \<Rightarrow> bt_insert k v row | Some _ \<Rightarrow> row)"

definition inject_identity :: "string \<Rightarrow> string \<Rightarrow> string \<Rightarrow> string \<Rightarrow> store_row \<Rightarrow> store_row" where
  "inject_identity rid work_id node_id module row =
     or_insert ''_module'' (TextVal module)
       (or_insert ''_node_id'' (TextVal node_id)
         (or_insert ''_work_id'' (TextVal work_id)
           (or_insert ''_run_id'' (TextVal rid) row)))"

section \<open>The in-memory backend\<close>

record mem_table =
  mt_schema :: table_schema
  mt_mode :: storage_mode
  mt_rows :: "store_row list"

type_synonym memory_storage = "string \<rightharpoonup> mem_table"

definition ensure_table :: "memory_storage \<Rightarrow> qualified_table \<Rightarrow> framework_error + memory_storage" where
  "ensure_table m q =
     (case m (qt_physical_name q) of
        Some existing \<Rightarrow>
          if ts_columns (mt_schema existing) \<noteq> ts_columns (qt_schema q)
          then Inl (InvalidUse (''storage schema mismatch for table '' @ qt_physical_name q))
          else Inr m
      | None \<Rightarrow> Inr (m(qt_physical_name q \<mapsto>
          \<lparr>mt_schema = qt_schema q, mt_mode = qt_mode q, mt_rows = []\<rparr>)))"

definition same_key :: "(json \<Rightarrow> json \<Rightarrow> bool) \<Rightarrow> string list \<Rightarrow> store_row \<Rightarrow> store_row \<Rightarrow> bool" where
  "same_key jeq pk a b = list_all (\<lambda>k.
     case (map_of a k, map_of b k) of
       (None, None) \<Rightarrow> True | (Some x, Some y) \<Rightarrow> store_value_eq jeq x y | _ \<Rightarrow> False) pk"

text \<open>The first row with the key of the new row is replaced, else the new row is added.\<close>

fun upsert_row :: "(json \<Rightarrow> json \<Rightarrow> bool) \<Rightarrow> string list \<Rightarrow> store_row \<Rightarrow> store_row list \<Rightarrow> store_row list" where
  "upsert_row jeq pk row [] = [row]"
| "upsert_row jeq pk row (e # es) =
     (if same_key jeq pk e row then row # es else e # upsert_row jeq pk row es)"

definition owned_by :: "string \<Rightarrow> store_row \<Rightarrow> bool" where
  "owned_by rid r =
     (case (case map_of r ''_run_id'' of None \<Rightarrow> map_of r ''run_id'' | Some v \<Rightarrow> Some v) of
        Some (TextVal i) \<Rightarrow> i = rid
      | _ \<Rightarrow> False)"

definition write_rows ::
  "(json \<Rightarrow> json \<Rightarrow> bool) \<Rightarrow> memory_storage \<Rightarrow> string \<Rightarrow> write_mode \<Rightarrow> store_row list \<Rightarrow> string list \<Rightarrow>
   string \<Rightarrow> framework_error + memory_storage" where
  "write_rows jeq m table mode rows pk rid =
     (case m table of
        None \<Rightarrow> Inl (InvalidUse (''storage table not ensured: '' @ table))
      | Some t \<Rightarrow>
          (case mode of
             AppendRows \<Rightarrow> Inr (m(table \<mapsto> t\<lparr>mt_rows := mt_rows t @ rows\<rparr>))
           | Replace \<Rightarrow>
               let kept = (case mt_mode t of
                     Shared \<Rightarrow> filter (\<lambda>r. \<not> owned_by rid r) (mt_rows t)
                   | _ \<Rightarrow> [])
               in Inr (m(table \<mapsto> t\<lparr>mt_rows := kept @ rows\<rparr>))
           | Upsert \<Rightarrow>
               if pk = []
               then Inl (InvalidUse (''upsert on '' @ table @ '' requires primary_key on TableSchema''))
               else Inr (m(table \<mapsto> t\<lparr>mt_rows := fold (upsert_row jeq pk) rows (mt_rows t)\<rparr>))))"

definition drop_table :: "memory_storage \<Rightarrow> string \<Rightarrow> memory_storage" where
  "drop_table m table = m(table := None)"

definition table_exists :: "memory_storage \<Rightarrow> string \<Rightarrow> bool" where
  "table_exists m table \<longleftrightarrow> m table \<noteq> None"

definition table_rows :: "memory_storage \<Rightarrow> string \<Rightarrow> store_row list option" where
  "table_rows m table = map_option mt_rows (m table)"

text \<open>The loop of \<open>Host::ensure_run_storage\<close>: the physical names ensured, or the first error.\<close>

fun ensure_all :: "('b \<Rightarrow> qualified_table \<Rightarrow> 'e + 'b) \<Rightarrow> 'b \<Rightarrow> qualified_table list \<Rightarrow> ('e + string list) \<times> 'b" where
  "ensure_all ens b [] = (Inr [], b)"
| "ensure_all ens b (q # qs) =
     (case ens b q of
        Inl e \<Rightarrow> (Inl e, b)
      | Inr b1 \<Rightarrow>
          (case ensure_all ens b1 qs of
             (Inl e, b2) \<Rightarrow> (Inl e, b2)
           | (Inr names, b2) \<Rightarrow> (Inr (qt_physical_name q # names), b2)))"

section \<open>The contract of a backend\<close>

text \<open>
  What the host relies on: ensuring creates an empty table or keeps the one there, a write touches
  its own table only, which must exist, appending adds the rows at the end, dropping removes the one
  table.
\<close>

locale storage_backend =
  fixes ens :: "'b \<Rightarrow> qualified_table \<Rightarrow> 'e + 'b"
    and wr :: "'b \<Rightarrow> string \<Rightarrow> write_mode \<Rightarrow> store_row list \<Rightarrow> string list \<Rightarrow> string \<Rightarrow> 'e + 'b"
    and drp :: "'b \<Rightarrow> string \<Rightarrow> 'b"
    and rws :: "'b \<Rightarrow> string \<Rightarrow> store_row list option"
  assumes ensure_rows: "ens b q = Inr b' \<Longrightarrow>
      rws b' t = (if t = qt_physical_name q \<and> rws b t = None then Some [] else rws b t)"
    and write_exists: "wr b t mode rs pk rid = Inr b' \<Longrightarrow> rws b t \<noteq> None \<and> rws b' t \<noteq> None"
    and write_other: "wr b t mode rs pk rid = Inr b' \<Longrightarrow> u \<noteq> t \<Longrightarrow> rws b' u = rws b u"
    and append_rows: "rws b t = Some old \<Longrightarrow> \<exists>b'. wr b t AppendRows rs pk rid = Inr b' \<and> rws b' t = Some (old @ rs)"
    and drop_rows: "rws (drp b t) u = (if u = t then None else rws b u)"
begin

lemma ensure_all_rows:
  assumes "ensure_all ens b qs = (res, b')"
  shows "(\<forall>t rs. rws b t = Some rs \<longrightarrow> rws b' t = Some rs) \<and>
    (\<forall>t. t \<notin> qt_physical_name ` set qs \<longrightarrow> rws b' t = rws b t) \<and>
    (\<forall>names. res = Inr names \<longrightarrow> names = map qt_physical_name qs \<and> (\<forall>q \<in> set qs. rws b' (qt_physical_name q) \<noteq> None))"
  using assms
proof (induction qs arbitrary: b b' res)
  case (Cons q qs)
  show ?case
  proof (cases "ens b q")
    case (Inr b1)
    obtain res1 b2 where r: "ensure_all ens b1 qs = (res1, b2)" by (cases "ensure_all ens b1 qs")
    with Cons.prems Inr have b': "b' = b2" and
      res: "res = (case res1 of Inl e \<Rightarrow> Inl e | Inr names \<Rightarrow> Inr (qt_physical_name q # names))"
      by (auto split: sum.splits)
    note e = ensure_rows [OF Inr]
    have old: "rws b1 t = Some rs" if "rws b t = Some rs" for t rs using e [of t] that by simp
    have other: "rws b1 t = rws b t" if "t \<noteq> qt_physical_name q" for t using e [of t] that by simp
    have this: "rws b1 (qt_physical_name q) \<noteq> None" using e [of "qt_physical_name q"] by auto
    from Cons.IH [OF r] b' res old other this show ?thesis by (auto split: sum.splits)
  qed (use Cons.prems in auto)
qed auto

lemma drop_all_rows: "rws (fold (\<lambda>t b. drp b t) ts b) u = (if u \<in> set ts then None else rws b u)"
  by (induction ts arbitrary: b) (auto simp: drop_rows)

lemma ensure_drop_restores:
  assumes "ensure_all ens b qs = (Inr names, b')" "\<forall>q \<in> set qs. rws b (qt_physical_name q) = None"
  shows "rws (fold (\<lambda>t b. drp b t) names b') t = rws b t"
  using ensure_all_rows [OF assms(1)] assms(2) by (auto simp: drop_all_rows image_iff)

end

interpretation mem: storage_backend ensure_table "write_rows jeq" drop_table table_rows for jeq
  by unfold_locales
    (auto simp: ensure_table_def write_rows_def drop_table_def table_rows_def Let_def
      split: option.splits if_splits write_mode.splits)

text \<open>Ensuring and writing remove no table.\<close>

definition tables_kept :: "memory_storage \<Rightarrow> memory_storage \<Rightarrow> bool" where
  "tables_kept b b' \<longleftrightarrow> (\<forall>t. b t \<noteq> None \<longrightarrow> b' t \<noteq> None)"

lemma tables_kept_refl [simp]: "tables_kept b b"
  by (simp add: tables_kept_def)

lemma tables_kept_trans: "tables_kept a b \<Longrightarrow> tables_kept b c \<Longrightarrow> tables_kept a c"
  by (simp add: tables_kept_def)

lemma ensure_table_kept: "ensure_table b q = Inr b' \<Longrightarrow> tables_kept b b'"
  by (auto simp: ensure_table_def tables_kept_def split: option.splits if_splits)

lemma write_rows_kept: "write_rows jeq b t mode rs pk rid = Inr b' \<Longrightarrow> tables_kept b b'"
  by (auto simp: write_rows_def tables_kept_def Let_def split: option.splits if_splits write_mode.splits)

section \<open>Writing rows\<close>

text \<open>The equality of JSON values is symmetric and transitive, as \<open>PartialEq\<close> documents.\<close>

definition partial_equivalence :: "(json \<Rightarrow> json \<Rightarrow> bool) \<Rightarrow> bool" where
  "partial_equivalence jeq \<longleftrightarrow> (\<forall>x y. jeq x y \<longrightarrow> jeq y x) \<and> (\<forall>x y z. jeq x y \<longrightarrow> jeq y z \<longrightarrow> jeq x z)"

lemma store_value_eq_sym:
  assumes "partial_equivalence jeq" "store_value_eq jeq v w"
  shows "store_value_eq jeq w v"
proof -
  have j: "jeq x y \<Longrightarrow> jeq y x" for x y using assms(1) unfolding partial_equivalence_def by blast
  from assms(2) show ?thesis
  proof (cases v)
    case (RealVal x)
    with assms(2) obtain y where "w = RealVal y" by (cases w) auto
    with RealVal assms(2) show ?thesis using f64_eq_sym [of x y] by simp
  next
    case (JsonVal x)
    with assms(2) obtain y where "w = JsonVal y" by (cases w) auto
    with JsonVal assms(2) show ?thesis by (auto intro: j)
  qed (cases w; simp)+
qed

lemma store_value_eq_trans:
  assumes "partial_equivalence jeq" "store_value_eq jeq v w" "store_value_eq jeq w u"
  shows "store_value_eq jeq v u"
proof -
  have j: "jeq x y \<Longrightarrow> jeq y z \<Longrightarrow> jeq x z" for x y z
    using assms(1) unfolding partial_equivalence_def by blast
  from assms(2,3) show ?thesis
  proof (cases w)
    case (RealVal y)
    with assms(2,3) obtain x z where "v = RealVal x" "u = RealVal z" by (cases v; cases u) auto
    with RealVal assms(2,3) show ?thesis by (auto intro: f64_eq_trans)
  next
    case (JsonVal y)
    with assms(2,3) obtain x z where "v = JsonVal x" "u = JsonVal z" by (cases v; cases u) auto
    with JsonVal assms(2,3) show ?thesis by (auto intro: j)
  qed (cases v; cases u; simp)+
qed

definition same_cell :: "(json \<Rightarrow> json \<Rightarrow> bool) \<Rightarrow> store_value option \<Rightarrow> store_value option \<Rightarrow> bool" where
  "same_cell jeq x y =
     (case (x, y) of (None, None) \<Rightarrow> True | (Some x, Some y) \<Rightarrow> store_value_eq jeq x y | _ \<Rightarrow> False)"

lemma same_key_cells: "same_key jeq pk a b \<longleftrightarrow> (\<forall>k \<in> set pk. same_cell jeq (map_of a k) (map_of b k))"
  by (simp add: same_key_def same_cell_def list_all_iff)

lemma same_cell_sym: "partial_equivalence jeq \<Longrightarrow> same_cell jeq x y \<Longrightarrow> same_cell jeq y x"
  by (cases x; cases y) (auto simp: same_cell_def intro: store_value_eq_sym)

lemma same_key_sym: "partial_equivalence jeq \<Longrightarrow> same_key jeq pk a b \<Longrightarrow> same_key jeq pk b a"
  unfolding same_key_cells by (blast intro: same_cell_sym)

lemma same_cell_trans:
  "partial_equivalence jeq \<Longrightarrow> same_cell jeq x y \<Longrightarrow> same_cell jeq y z \<Longrightarrow> same_cell jeq x z"
  by (cases x; cases y; cases z) (auto simp: same_cell_def intro: store_value_eq_trans)

lemma same_key_trans:
  "partial_equivalence jeq \<Longrightarrow> same_key jeq pk a b \<Longrightarrow> same_key jeq pk b c \<Longrightarrow> same_key jeq pk a c"
  unfolding same_key_cells by (blast intro: same_cell_trans)

lemma find_upsert_row:
  assumes "partial_equivalence jeq"
  shows "find (\<lambda>e. same_key jeq pk e q) (upsert_row jeq pk row es) =
    (if same_key jeq pk row q then Some row else find (\<lambda>e. same_key jeq pk e q) es)"
proof (induction es)
  case (Cons e es)
  have "same_key jeq pk e q \<longleftrightarrow> same_key jeq pk row q" if "same_key jeq pk e row"
    using that assms by (blast intro: same_key_sym same_key_trans)
  moreover have "same_key jeq pk e row" if "same_key jeq pk e q" "same_key jeq pk row q"
    using that assms by (blast intro: same_key_sym same_key_trans)
  ultimately show ?case using Cons by auto
qed simp

lemma find_upsert_rows:
  assumes "partial_equivalence jeq"
  shows "find (\<lambda>e. same_key jeq pk e q) (fold (upsert_row jeq pk) rows es) =
    (case find (\<lambda>e. same_key jeq pk e q) (rev rows) of Some r \<Rightarrow> Some r | None \<Rightarrow> find (\<lambda>e. same_key jeq pk e q) es)"
proof (induction rows rule: rev_induct)
  case (snoc r rows)
  then show ?case by (simp add: find_upsert_row [OF assms])
qed simp

definition unique_keys :: "(json \<Rightarrow> json \<Rightarrow> bool) \<Rightarrow> string list \<Rightarrow> store_row list \<Rightarrow> bool" where
  "unique_keys jeq pk rows = sorted_wrt (\<lambda>a b. \<not> same_key jeq pk a b) rows"

lemma upsert_row_set: "set (upsert_row jeq pk row es) \<subseteq> insert row (set es)"
  by (induction es) auto

lemma upsert_row_unique:
  assumes "partial_equivalence jeq" "unique_keys jeq pk es"
  shows "unique_keys jeq pk (upsert_row jeq pk row es)"
  using assms(2)
proof (induction es)
  case (Cons e es)
  have un: "\<forall>x \<in> set es. \<not> same_key jeq pk e x" "unique_keys jeq pk es"
    using Cons.prems by (simp_all add: unique_keys_def)
  show ?case
  proof (cases "same_key jeq pk e row")
    case True
    then have "\<forall>x \<in> set es. \<not> same_key jeq pk row x" using un(1) assms(1) by (blast intro: same_key_trans)
    with True un(2) show ?thesis by (simp add: unique_keys_def)
  next
    case False
    then have "\<forall>x \<in> set (upsert_row jeq pk row es). \<not> same_key jeq pk e x"
      using un(1) upsert_row_set [of jeq pk row es] by auto
    with False Cons.IH [OF un(2)] show ?thesis by (simp add: unique_keys_def)
  qed
qed (simp add: unique_keys_def)

lemma upsert_rows_unique:
  "partial_equivalence jeq \<Longrightarrow> unique_keys jeq pk es \<Longrightarrow> unique_keys jeq pk (fold (upsert_row jeq pk) rows es)"
  by (induction rows arbitrary: es) (auto intro: upsert_row_unique)

lemma inject_identity_lookup:
  "map_of (inject_identity rid wid nid md row) k =
     (case map_of row k of Some v \<Rightarrow> Some v | None \<Rightarrow>
        if k = ''_run_id'' then Some (TextVal rid) else if k = ''_work_id'' then Some (TextVal wid)
        else if k = ''_node_id'' then Some (TextVal nid) else if k = ''_module'' then Some (TextVal md) else None)"
proof -
  have "map_of (or_insert a v r) k = (case map_of r k of Some w \<Rightarrow> Some w | None \<Rightarrow> if k = a then Some v else None)"
    for a v r by (auto simp: or_insert_def split: option.splits)
  then show ?thesis by (simp add: inject_identity_def split: option.splits)
qed

end
