(* ===== verification/Memo.thy ===== *)
theory Memo
  imports FwBase
begin

text \<open>
  Cross-run memoisation (\<open>framework/sdk/rust/src/memo.rs\<close>): the plan, the key of a unit of work, the
  record of a production path, and the in-memory store with the contract of a memo store as a
  locale. A poisoned lock needs a panic of another thread that holds it and is not modelled.
\<close>

section \<open>Plans\<close>

datatype memo_nodes = MemoAll | MemoOnly "string list" | MemoExcept "string list"

fun allows :: "memo_nodes \<Rightarrow> string \<Rightarrow> bool" where
  "allows MemoAll node_id = True"
| "allows (MemoOnly ids) node_id = list_ex (\<lambda>i. i = node_id) ids"
| "allows (MemoExcept ids) node_id = (\<not> list_ex (\<lambda>i. i = node_id) ids)"

record memo_plan =
  mp_enabled :: bool
  mp_require_digest :: bool
  mp_nodes :: memo_nodes

definition memo_off :: memo_plan where
  "memo_off = \<lparr>mp_enabled = False, mp_require_digest = False, mp_nodes = MemoAll\<rparr>"

definition memo_on :: memo_plan where
  "memo_on = \<lparr>mp_enabled = True, mp_require_digest = True, mp_nodes = MemoAll\<rparr>"

definition memo_on_optional_digest :: memo_plan where
  "memo_on_optional_digest = \<lparr>mp_enabled = True, mp_require_digest = False, mp_nodes = MemoAll\<rparr>"

definition with_memo_nodes :: "memo_nodes \<Rightarrow> memo_plan \<Rightarrow> memo_plan" where
  "with_memo_nodes nodes p = p\<lparr>mp_nodes := nodes\<rparr>"

definition with_require_digest :: "bool \<Rightarrow> memo_plan \<Rightarrow> memo_plan" where
  "with_require_digest require p = p\<lparr>mp_require_digest := require\<rparr>"

section \<open>Records and keys\<close>

record memo_record =
  mr_key :: string
  mr_module :: string
  mr_module_version :: string
  mr_module_digest :: string
  mr_capability :: string
  mr_node_id :: string
  mr_inputs :: "(string \<times> string) list"
  mr_outputs :: "(string \<times> string) list"
  mr_source_run_id :: string
  mr_source_work_id :: string

text \<open>The fields that are hashed, each followed by a zero byte.\<close>

definition memo_fields :: "string \<Rightarrow> string \<Rightarrow> string \<Rightarrow> string \<Rightarrow> (string \<times> string) list \<Rightarrow> string list" where
  "memo_fields module module_version module_digest cap inputs =
     [module, module_version, module_digest, cap] @ concat (map (\<lambda>(port, art_id). [port, art_id]) inputs)"

definition memo_key ::
  "ext \<Rightarrow> string \<Rightarrow> string \<Rightarrow> string \<Rightarrow> string \<Rightarrow> (string \<times> string) list \<Rightarrow> string" where
  "memo_key X module module_version module_digest cap inputs =
     ''sha256:'' @ hex (sha256 X (concat (map (\<lambda>v. as_bytes v @ [SEP])
        (memo_fields module module_version module_digest cap inputs))))"

text \<open>The loop of \<open>input_fingerprint_map\<close> and of \<open>build_record\<close>: port to artifact id.\<close>

definition port_ids :: "named_artifact list \<Rightarrow> (string \<times> string) list" where
  "port_ids nas = fold (\<lambda>na m.
     case na_artifact na of
       Some r \<Rightarrow> if na_name na \<noteq> [] \<and> aref_id r \<noteq> [] then bt_insert (na_name na) (aref_id r) m else m
     | None \<Rightarrow> m) nas []"

definition input_fingerprint_map :: "work_item \<Rightarrow> (string \<times> string) list" where
  "input_fingerprint_map work = port_ids (wi_inputs work)"

definition record_to_named_outputs :: "memo_record \<Rightarrow> named_artifact list" where
  "record_to_named_outputs r =
     map (\<lambda>(port, i). \<lparr>na_name = port, na_artifact = Some \<lparr>aref_id = i\<rparr>\<rparr>) (mr_outputs r)"

definition build_record :: "string \<Rightarrow> work_item \<Rightarrow> string \<Rightarrow> named_artifact list \<Rightarrow> string \<Rightarrow> memo_record" where
  "build_record key work module_digest outputs rid =
     \<lparr>mr_key = key, mr_module = wi_module work, mr_module_version = wi_module_version work,
      mr_module_digest = module_digest, mr_capability = wi_capability work, mr_node_id = wi_node_id work,
      mr_inputs = input_fingerprint_map work, mr_outputs = port_ids outputs,
      mr_source_run_id = rid, mr_source_work_id = wi_id work\<rparr>"

section \<open>The store\<close>

type_synonym memory_memo = "(string \<times> memo_record) list"

definition memo_get :: "memory_memo \<Rightarrow> string \<Rightarrow> memo_record option" where
  "memo_get m key = map_of m key"

definition memo_put :: "memory_memo \<Rightarrow> memo_record \<Rightarrow> memory_memo" where
  "memo_put m r = AList.update (mr_key r) r m"

definition memo_len :: "memory_memo \<Rightarrow> nat" where
  "memo_len m = length m"

definition memo_clear :: "memory_memo \<Rightarrow> memory_memo" where
  "memo_clear m = []"

locale memo_store =
  fixes get :: "'m \<Rightarrow> string \<Rightarrow> memo_record option"
    and put :: "'m \<Rightarrow> memo_record \<Rightarrow> 'm"
    and wipe :: "'m \<Rightarrow> 'm"
    and size_of :: "'m \<Rightarrow> nat"
    and ok :: "'m \<Rightarrow> bool"
  assumes get_put: "get (put m r) k = (if k = mr_key r then Some r else get m k)"
    and get_wipe: "get (wipe m) k = None"
    and ok_put: "ok m \<Longrightarrow> ok (put m r)"
    and ok_wipe: "ok (wipe m)"
    and size_put: "ok m \<Longrightarrow> size_of (put m r) = size_of m + (if get m (mr_key r) = None then 1 else 0)"
    and size_wipe: "size_of (wipe m) = 0"
begin

text \<open>Each key holds the last record put under it.\<close>

lemma get_puts:
  "get (fold (\<lambda>r m. put m r) rs m) k =
     (case find (\<lambda>r. mr_key r = k) (rev rs) of Some r \<Rightarrow> Some r | None \<Rightarrow> get m k)"
  by (induction rs rule: rev_induct) (auto simp: get_put)

lemma get_keyed:
  assumes "\<forall>k r. get m k = Some r \<longrightarrow> mr_key r = k"
  shows "get (fold (\<lambda>r m. put m r) rs m) k = Some r \<Longrightarrow> mr_key r = k"
  using assms by (induction rs rule: rev_induct) (auto simp: get_put split: if_splits)

end

interpretation mm: memo_store memo_get memo_put memo_clear memo_len "\<lambda>m. distinct (map fst m)"
proof unfold_locales
  fix m :: memory_memo and r :: memo_record assume d: "distinct (map fst m)"
  have "length (AList.update k v m) = length m + (if map_of m k = None then 1 else 0)" for k and v :: memo_record
    by (induction m) auto
  then show "memo_len (memo_put m r) = memo_len m + (if memo_get m (mr_key r) = None then 1 else 0)"
    by (simp add: memo_len_def memo_put_def memo_get_def)
qed (auto simp: memo_get_def memo_put_def memo_clear_def memo_len_def update_conv' distinct_update)

section \<open>Keys identify the unit of work\<close>

lemma fields_inj:
  assumes "list_all (\<lambda>v. nul_free (as_bytes v)) vs" "list_all (\<lambda>v. nul_free (as_bytes v)) ws"
    and "concat (map (\<lambda>v. as_bytes v @ [SEP]) vs) = concat (map (\<lambda>v. as_bytes v @ [SEP]) ws)"
  shows "vs = ws"
  using assms
proof (induction vs arbitrary: ws)
  case Nil
  then show ?case by (cases ws) auto
next
  case (Cons v vs)
  then obtain w us where ws: "ws = w # us" by (cases ws) auto
  from Cons.prems ws have
    "as_bytes v @ SEP # concat (map (\<lambda>v. as_bytes v @ [SEP]) vs) =
     as_bytes w @ SEP # concat (map (\<lambda>v. as_bytes v @ [SEP]) us)" by simp
  with Cons.prems ws have "v = w"
    "concat (map (\<lambda>v. as_bytes v @ [SEP]) vs) = concat (map (\<lambda>v. as_bytes v @ [SEP]) us)"
    by (simp_all add: split_at_sep)
  with Cons.IH [of us] Cons.prems ws show ?case by simp
qed

lemma pairs_inj: "concat (map (\<lambda>(p, i). [p, i]) xs) = concat (map (\<lambda>(p, i). [p, i]) ys) \<Longrightarrow> xs = ys"
proof (induction xs arbitrary: ys)
  case Nil
  then show ?case by (cases ys) auto
next
  case (Cons x xs)
  then show ?case by (cases ys) (auto split: prod.splits)
qed

definition memo_clean :: "string \<Rightarrow> string \<Rightarrow> string \<Rightarrow> string \<Rightarrow> (string \<times> string) list \<Rightarrow> bool" where
  "memo_clean module version digest cap inputs =
     list_all (\<lambda>v. nul_free (as_bytes v)) (memo_fields module version digest cap inputs)"

definition memo_preimage :: "string \<Rightarrow> string \<Rightarrow> string \<Rightarrow> string \<Rightarrow> (string \<times> string) list \<Rightarrow> bytes" where
  "memo_preimage module version digest cap inputs =
     concat (map (\<lambda>v. as_bytes v @ [SEP]) (memo_fields module version digest cap inputs))"

lemma memo_preimage_inj:
  assumes "memo_clean m v d c ins" "memo_clean m' v' d' c' ins'"
    and "memo_preimage m v d c ins = memo_preimage m' v' d' c' ins'"
  shows "m = m' \<and> v = v' \<and> d = d' \<and> c = c' \<and> ins = ins'"
proof -
  have "memo_fields m v d c ins = memo_fields m' v' d' c' ins'"
    using assms unfolding memo_clean_def memo_preimage_def by (rule fields_inj)
  then show ?thesis by (auto simp: memo_fields_def dest: pairs_inj)
qed

lemma memo_key_eq:
  "memo_key X m v d c ins = memo_key X m' v' d' c' ins' \<longleftrightarrow>
     sha256 X (memo_preimage m v d c ins) = sha256 X (memo_preimage m' v' d' c' ins')"
  by (simp add: memo_key_def memo_preimage_def)

section \<open>Ports\<close>

lemma port_ids_wf [simp]: "bt_wf (port_ids nas)"
proof -
  have "bt_wf m \<Longrightarrow> bt_wf (fold (\<lambda>na m. case na_artifact na of
       Some r \<Rightarrow> if na_name na \<noteq> [] \<and> aref_id r \<noteq> [] then bt_insert (na_name na) (aref_id r) m else m
     | None \<Rightarrow> m) nas m)" for m
    by (induction nas arbitrary: m) (auto split: option.splits)
  then show ?thesis by (simp add: port_ids_def)
qed

text \<open>A named artifact with a name and an id.\<close>

definition proper :: "named_artifact \<Rightarrow> bool" where
  "proper na = (na_name na \<noteq> [] \<and> (case na_artifact na of None \<Rightarrow> False | Some r \<Rightarrow> aref_id r \<noteq> []))"

lemma port_ids_lookup:
  "map_of (port_ids nas) p =
     map_option (\<lambda>na. aref_id (the (na_artifact na))) (find (\<lambda>na. proper na \<and> na_name na = p) (rev nas))"
proof (induction nas rule: rev_induct)
  case (snoc na nas)
  then show ?case by (auto simp: port_ids_def proper_def split: option.split)
qed (simp add: port_ids_def)

lemma find_rev_distinct:
  assumes "distinct (map f xs)"
  shows "find (\<lambda>x. P x \<and> f x = k) (rev xs) = find (\<lambda>x. P x \<and> f x = k) xs" (is "find ?Q _ = _")
proof (cases "find ?Q xs")
  case None
  then have "find ?Q (rev xs) = None" unfolding find_None_iff by simp
  with None show ?thesis by simp
next
  case (Some x)
  then have x: "x \<in> set xs" "P x" "f x = k" by (auto dest: find_SomeD)
  then obtain y where y: "find ?Q (rev xs) = Some y" by (cases "find ?Q (rev xs)") (auto simp: find_None_iff)
  then have "y \<in> set xs" "f y = k" by (auto dest: find_SomeD)
  with x assms have "x = y" by (auto simp: distinct_map inj_on_def)
  with Some y show ?thesis by simp
qed

lemma proper_form:
  assumes "proper na"
  shows "na = \<lparr>na_name = na_name na, na_artifact = Some \<lparr>aref_id = aref_id (the (na_artifact na))\<rparr>\<rparr>"
  using assms by (cases na) (auto simp: proper_def split: option.splits)

lemma port_ids_Some:
  assumes "list_all proper outs" "distinct (map na_name outs)"
  shows "map_of (port_ids outs) p = Some i \<longleftrightarrow> \<lparr>na_name = p, na_artifact = Some \<lparr>aref_id = i\<rparr>\<rparr> \<in> set outs"
proof -
  let ?na = "\<lparr>na_name = p, na_artifact = Some \<lparr>aref_id = i\<rparr>\<rparr> :: named_artifact"
  have look: "map_of (port_ids outs) p =
      map_option (\<lambda>na. aref_id (the (na_artifact na))) (find (\<lambda>na. proper na \<and> na_name na = p) outs)"
    by (simp add: port_ids_lookup find_rev_distinct [OF assms(2)])
  show ?thesis
  proof
    assume "map_of (port_ids outs) p = Some i"
    then obtain na where na: "find (\<lambda>na. proper na \<and> na_name na = p) outs = Some na"
      "aref_id (the (na_artifact na)) = i" by (auto simp: look)
    then have "na \<in> set outs" "proper na" "na_name na = p" by (auto dest: find_SomeD)
    with proper_form na(2) show "?na \<in> set outs" by metis
  next
    assume a: "?na \<in> set outs"
    with assms(1) have pr: "proper ?na" by (auto simp: list_all_iff)
    have "find (\<lambda>na. proper na \<and> na_name na = p) outs \<noteq> None" using a pr by (auto simp: find_None_iff)
    then obtain na where na: "find (\<lambda>na. proper na \<and> na_name na = p) outs = Some na" by blast
    then have "na \<in> set outs" "na_name na = p" by (auto dest: find_SomeD)
    with a assms(2) have "na = ?na" by (auto simp: distinct_map inj_on_def)
    with na show "map_of (port_ids outs) p = Some i" by (simp add: look)
  qed
qed

text \<open>
  What a memo hit commits: with proper outputs on distinct ports, exactly the outputs recorded.
\<close>

lemma named_outputs_build:
  assumes "list_all proper outs" "distinct (map na_name outs)"
  shows "set (record_to_named_outputs (build_record key w d outs rid)) = set outs"
proof -
  have mem: "(p, i) \<in> set (port_ids outs) \<longleftrightarrow> \<lparr>na_name = p, na_artifact = Some \<lparr>aref_id = i\<rparr>\<rparr> \<in> set outs" for p i
    by (simp add: port_ids_Some [OF assms, symmetric] bt_wf_distinct)
  have "na \<in> (\<lambda>(p, i). \<lparr>na_name = p, na_artifact = Some \<lparr>aref_id = i\<rparr>\<rparr>) ` set (port_ids outs)" if "na \<in> set outs" for na
  proof -
    from assms(1) that have "proper na" by (auto simp: list_all_iff)
    note f = proper_form [OF this]
    have "(na_name na, aref_id (the (na_artifact na))) \<in> set (port_ids outs)" using that f by (simp add: mem)
    with f show ?thesis by (auto intro: rev_image_eqI)
  qed
  then show ?thesis by (auto simp: record_to_named_outputs_def build_record_def mem)
qed

end
