(* ===== verification/Addressing.thy ===== *)
theory Addressing
  imports Errors
begin

text \<open>
  Content addressing (first part of \<open>kernel/sdk/rust/src/lib.rs\<close>): the store policy, blob and
  artifact addresses, trait bags and their projections, contract digests.
\<close>

section \<open>Store policy\<close>

definition MAX_INLINE_ARTIFACT_BYTES :: nat where
  "MAX_INLINE_ARTIFACT_BYTES = 2 ^ 20"

fun debug_ingest_mode :: "blob_ingest_mode \<Rightarrow> string" where
  "debug_ingest_mode IngestUnspecified = ''Unspecified''"
| "debug_ingest_mode CopyVerify = ''CopyVerify''"

definition normalize_store_policy :: "artifact_store_policy \<Rightarrow> kernel_error + artifact_store_policy" where
  "normalize_store_policy policy =
     (let policy = (if asp_max_inline_bytes policy = 0
                    then policy\<lparr>asp_max_inline_bytes := word_of_nat MAX_INLINE_ARTIFACT_BYTES\<rparr> else policy);
          mode = (case blob_ingest_mode_try_from (asp_ingest_mode policy) of
                    None \<Rightarrow> IngestUnspecified | Some m \<Rightarrow> m)
      in if mode = IngestUnspecified \<or> mode = CopyVerify
         then let policy = policy\<lparr>asp_ingest_mode := blob_ingest_mode_i32 CopyVerify\<rparr>
              in Inr (case (case store_durability_try_from (asp_durability policy) of
                              None \<Rightarrow> DurabilityUnspecified | Some d \<Rightarrow> d) of
                        DurabilityUnspecified \<Rightarrow> policy\<lparr>asp_durability := store_durability_i32 Ephemeral\<rparr>
                      | Ephemeral \<Rightarrow> policy
                      | Durable \<Rightarrow> policy)
         else Inl (Invalid (''unsupported BlobIngestMode: '' @ debug_ingest_mode mode @
                            '' (only COPY_VERIFY in v2)'')))"

text \<open>\<open>ArtifactStorePolicy::default()\<close>.\<close>

definition zero_store_policy :: artifact_store_policy where
  "zero_store_policy =
     \<lparr>asp_max_inline_bytes = 0, asp_max_blob_bytes = 0, asp_ingest_mode = 0, asp_durability = 0\<rparr>"

definition default_store_policy :: "kernel_error + artifact_store_policy" where
  "default_store_policy = normalize_store_policy zero_store_policy"

definition SUBSCRIBER_BUFFER :: nat where
  "SUBSCRIBER_BUFFER = 1024"

section \<open>Blob and trait identity\<close>

definition blob_id :: "ext \<Rightarrow> bytes \<Rightarrow> string" where
  "blob_id X data = ''sha256:'' @ hex (sha256 X data)"

definition object_ref_bytes :: "object_ref \<Rightarrow> bytes" where
  "object_ref_bytes obj =
     as_bytes (oref_digest obj) @ [SEP] @ to_be_bytes (oref_byte_count obj) @ [SEP] @
     as_bytes (oref_namespace obj)"

definition trait_content :: "trait_val \<Rightarrow> bytes" where
  "trait_content tr =
     (case tr_object tr of
        Some obj \<Rightarrow> if oref_digest obj \<noteq> [] then object_ref_bytes obj else tr_body tr
      | None \<Rightarrow> tr_body tr)"

definition trait_has_external :: "trait_val \<Rightarrow> bool" where
  "trait_has_external tr = (case tr_object tr of Some obj \<Rightarrow> oref_digest obj \<noteq> [] | None \<Rightarrow> False)"

section \<open>Artifact identity\<close>

definition artifact_canonical_bytes :: "artifact \<Rightarrow> bytes" where
  "artifact_canonical_bytes a =
     concat (map (\<lambda>k. case map_of (art_traits a) k of
                        Some f \<Rightarrow> as_bytes k @ [SEP] @ trait_content f @ [SEP]
                      | None \<Rightarrow> [])
                 (sort (map fst (art_traits a))))"

definition artifact_id_of :: "ext \<Rightarrow> artifact \<Rightarrow> string" where
  "artifact_id_of X a = ''sha256:'' @ hex (sha256 X (artifact_canonical_bytes a))"

text \<open>\<open>Artifact::default()\<close> with the given traits.\<close>

definition artifact_of_traits :: "(string \<times> trait_val) list \<Rightarrow> artifact" where
  "artifact_of_traits ts =
     \<lparr>art_id = [], art_meta = [], art_produced_by = [], art_traits = ts, art_entity_id = [], art_supersedes = []\<rparr>"

definition artifact_with_trait :: "string \<Rightarrow> bytes \<Rightarrow> artifact" where
  "artifact_with_trait c body =
     artifact_of_traits (bt_insert c \<lparr>tr_body = body, tr_object = None\<rparr> [])"

definition artifact_id_single :: "ext \<Rightarrow> string \<Rightarrow> bytes \<Rightarrow> string" where
  "artifact_id_single X c content = artifact_id_of X (artifact_with_trait c content)"

definition artifact_with_external_trait :: "string \<Rightarrow> object_ref \<Rightarrow> artifact" where
  "artifact_with_external_trait c obj =
     artifact_of_traits (bt_insert c \<lparr>tr_body = [], tr_object = Some obj\<rparr> [])"

definition artifact_with_traits :: "(string \<times> bytes) list \<Rightarrow> artifact" where
  "artifact_with_traits pairs =
     artifact_of_traits
       (fold (\<lambda>(c, body) traits. bt_insert c \<lparr>tr_body = body, tr_object = None\<rparr> traits) pairs [])"

section \<open>Trait bags\<close>

definition has_traits :: "artifact \<Rightarrow> string list \<Rightarrow> bool" where
  "has_traits a required = (\<forall>r \<in> set required. map_of (art_traits a) r \<noteq> None)"

definition trait_set_covers :: "string list \<Rightarrow> string list \<Rightarrow> bool" where
  "trait_set_covers have need = list_all (\<lambda>n. list_ex (\<lambda>h. h = n) have) need"

definition get_trait :: "artifact \<Rightarrow> string \<Rightarrow> trait_val option" where
  "get_trait a c = map_of (art_traits a) c"

fun collect_traits ::
  "artifact \<Rightarrow> string list \<Rightarrow> (string \<times> trait_val) list \<Rightarrow> kernel_error + (string \<times> trait_val) list" where
  "collect_traits a [] traits = Inr traits"
| "collect_traits a (c # cs) traits =
     (case map_of (art_traits a) c of
        None \<Rightarrow> Inl (Invalid (''artifact missing trait '' @ c))
      | Some f \<Rightarrow> collect_traits a cs (bt_insert c f traits))"

definition project_traits :: "artifact \<Rightarrow> string list \<Rightarrow> kernel_error + artifact" where
  "project_traits a contracts =
     (case collect_traits a contracts [] of
        Inl e \<Rightarrow> Inl e
      | Inr traits \<Rightarrow>
          Inr \<lparr>art_id = [], art_meta = art_meta a, art_produced_by = art_produced_by a,
               art_traits = traits, art_entity_id = art_entity_id a, art_supersedes = art_supersedes a\<rparr>)"

definition project_trait :: "artifact \<Rightarrow> string \<Rightarrow> kernel_error + artifact" where
  "project_trait a c = project_traits a [c]"

definition merge_traits :: "artifact \<Rightarrow> artifact \<Rightarrow> artifact" where
  "merge_traits base add =
     \<lparr>art_id = [],
      art_meta = art_meta add,
      art_produced_by = art_produced_by add,
      art_traits = fold (\<lambda>(k, v) traits. bt_insert k v traits) (art_traits add) (art_traits base),
      art_entity_id = (if art_entity_id add \<noteq> [] then art_entity_id add else art_entity_id base),
      art_supersedes = (if art_id base \<noteq> [] then art_id base else art_supersedes add)\<rparr>"

definition has_external_object :: "artifact \<Rightarrow> bool" where
  "has_external_object a = list_ex trait_has_external (map snd (art_traits a))"

section \<open>Contract identity\<close>

definition contract_preimage :: "string \<Rightarrow> string \<Rightarrow> string \<Rightarrow> string list \<Rightarrow> bytes" where
  "contract_preimage media_type schema version compatible_with =
     as_bytes media_type @ [SEP] @ as_bytes schema @ [SEP] @ as_bytes version @ [SEP] @
     concat (map (\<lambda>c. as_bytes c @ [SEP]) compatible_with)"

definition contract_digest :: "ext \<Rightarrow> string \<Rightarrow> string \<Rightarrow> string \<Rightarrow> string list \<Rightarrow> string" where
  "contract_digest X media_type schema version compatible_with =
     ''sha256:'' @ hex (sha256 X (contract_preimage media_type schema version compatible_with))"

definition contract_digest_of :: "ext \<Rightarrow> contract \<Rightarrow> string" where
  "contract_digest_of X c =
     contract_digest X (ct_media_type c) (ct_schema c) (ct_version c) (sort (ct_compatible_with c))"

definition is_contract_placeholder :: "contract \<Rightarrow> bool" where
  "is_contract_placeholder c \<longleftrightarrow>
     ct_media_type c = [] \<and> ct_schema c = [] \<and> ct_version c = [] \<and> ct_compatible_with c = []"

definition is_sha256_digest :: "string \<Rightarrow> bool" where
  "is_sha256_digest d =
     (let prefix = ''sha256:'' in
      if length d \<noteq> length prefix + 64 \<or> take (length prefix) d \<noteq> prefix then False
      else list_all (\<lambda>c. (48 \<le> c \<and> c \<le> 57) \<or> (97 \<le> c \<and> c \<le> 102))
             (as_bytes (drop (length prefix) d)))"

section \<open>Addresses are collisions or equalities\<close>

text \<open>
  SHA-256 is not injective, so no equality of addresses alone gives equal contents: what is
  proved is that equal addresses give equal preimages or exhibit a collision.
\<close>

definition sha_collision :: "ext \<Rightarrow> bytes \<Rightarrow> bytes \<Rightarrow> bool" where
  "sha_collision X as bs \<longleftrightarrow> as \<noteq> bs \<and> sha256 X as = sha256 X bs"

lemma blob_id_eq: "blob_id X as = blob_id X bs \<longleftrightarrow> as = bs \<or> sha_collision X as bs"
  by (auto simp: blob_id_def sha_collision_def)

lemma artifact_id_of_eq:
  "artifact_id_of X a = artifact_id_of X b \<longleftrightarrow>
     artifact_canonical_bytes a = artifact_canonical_bytes b \<or>
     sha_collision X (artifact_canonical_bytes a) (artifact_canonical_bytes b)"
  by (auto simp: artifact_id_of_def sha_collision_def)

lemma nul_free_sha256_prefix [simp]: "nul_free (as_bytes (''sha256:'' @ hex bs))"
proof -
  have "nul_free (as_bytes ''sha256:'')" by (subst nul_free_as_bytes) simp
  then show ?thesis by (simp only: as_bytes_append nul_free_simps nul_free_hex)
qed

lemma blob_id_nonempty [simp]: "blob_id X data \<noteq> []"
  by (simp add: blob_id_def)

lemma trait_has_external_eq:
  "trait_has_external f \<longleftrightarrow> (\<exists>obj. tr_object f = Some obj \<and> oref_digest obj \<noteq> [])"
  by (auto simp: trait_has_external_def split: option.splits)

section \<open>The canonical encoding of a trait bag\<close>

definition encode_row :: "string \<times> trait_val \<Rightarrow> bytes" where
  "encode_row row = as_bytes (fst row) @ SEP # trait_content (snd row) @ [SEP]"

lemma canonical_bytes_sorted:
  assumes "bt_wf (art_traits a)"
  shows "artifact_canonical_bytes a = concat (map encode_row (art_traits a))"
proof -
  from assms have "sort (map fst (art_traits a)) = map fst (art_traits a)"
    by (simp add: bt_wf_sorted sorted_sort_id)
  moreover have "map_of (art_traits a) (fst row) = Some (snd row)" if "row \<in> set (art_traits a)" for row
    using assms that by (simp add: bt_wf_distinct)
  ultimately show ?thesis
    by (auto simp: artifact_canonical_bytes_def encode_row_def comp_def intro!: arg_cong [of _ _ concat])
qed

text \<open>The encoding sees the bag as a map: neither the order of its rows nor any other field counts.\<close>

lemma canonical_bytes_cong:
  assumes "distinct (map fst (art_traits a))" "distinct (map fst (art_traits b))"
    and "map_of (art_traits a) = map_of (art_traits b)"
  shows "artifact_canonical_bytes a = artifact_canonical_bytes b"
proof -
  have "set (map fst (art_traits a)) = set (map fst (art_traits b))"
    using assms(3) by (metis dom_map_of_conv_image_fst list.set_map)
  then have "sort (map fst (art_traits a)) = sort (map fst (art_traits b))"
    using assms(1,2) by (intro sorted_distinct_set_unique) simp_all
  with assms(3) show ?thesis by (simp add: artifact_canonical_bytes_def)
qed

text \<open>
  A bag is clean when its keys are non-empty and hold no zero byte, its inline bodies hold none
  either, and its external references have a digest without zero bytes, a namespace without zero
  bytes and a size below \<open>2 ^ 56\<close> (so that the first byte of the encoded size is zero).
\<close>

definition clean_trait :: "trait_val \<Rightarrow> bool" where
  "clean_trait f =
     (case tr_object f of
        Some obj \<Rightarrow>
          if oref_digest obj \<noteq> []
          then nul_free (as_bytes (oref_digest obj)) \<and> nul_free (as_bytes (oref_namespace obj)) \<and>
               unat (oref_byte_count obj) < 2 ^ 56
          else nul_free (tr_body f)
      | None \<Rightarrow> nul_free (tr_body f))"

definition clean_row :: "string \<times> trait_val \<Rightarrow> bool" where
  "clean_row row \<longleftrightarrow> fst row \<noteq> [] \<and> nul_free (as_bytes (fst row)) \<and> clean_trait (snd row)"

definition clean_bag :: "artifact \<Rightarrow> bool" where
  "clean_bag a \<longleftrightarrow> bt_wf (art_traits a) \<and> list_all clean_row (art_traits a)"

text \<open>What a trait stands for: inline bytes, or an external reference.\<close>

definition trait_value :: "trait_val \<Rightarrow> bytes + object_ref" where
  "trait_value f =
     (case tr_object f of
        Some obj \<Rightarrow> if oref_digest obj \<noteq> [] then Inr obj else Inl (tr_body f)
      | None \<Rightarrow> Inl (tr_body f))"

definition value_content :: "bytes + object_ref \<Rightarrow> bytes" where
  "value_content v = (case v of Inl body \<Rightarrow> body | Inr obj \<Rightarrow> object_ref_bytes obj)"

lemma trait_content_value: "trait_content f = value_content (trait_value f)"
  by (auto simp: trait_content_def trait_value_def value_content_def split: option.splits)

lemma to_be_bytes_head:
  assumes "unat w < 2 ^ 56"
  shows "to_be_bytes w = SEP # tl (to_be_bytes w)"
proof -
  have "unat (drop_bit 56 w) = 0" using assms by (simp add: drop_bit_eq_div unat_div)
  then have "drop_bit 56 w = 0" by (simp add: unat_eq_0)
  then show ?thesis by (simp add: to_be_bytes_def SEP_def)
qed

definition clean_value :: "bytes + object_ref \<Rightarrow> bool" where
  "clean_value v =
     (case v of
        Inl body \<Rightarrow> nul_free body
      | Inr obj \<Rightarrow> nul_free (as_bytes (oref_digest obj)) \<and> nul_free (as_bytes (oref_namespace obj)) \<and>
                   unat (oref_byte_count obj) < 2 ^ 56)"

lemma clean_trait_value: "clean_trait f \<longleftrightarrow> clean_value (trait_value f)"
  by (auto simp: clean_trait_def clean_value_def trait_value_def split: option.splits)

definition row_start :: "bytes \<Rightarrow> bool" where
  "row_start bs \<longleftrightarrow> bs = [] \<or> hd bs \<noteq> SEP"

lemma body_not_object:
  assumes "clean_value (Inl body)" "clean_value (Inr obj)" "row_start rest"
  shows "body @ SEP # rest \<noteq> object_ref_bytes obj @ SEP # rest'"
proof
  assume "body @ SEP # rest = object_ref_bytes obj @ SEP # rest'"
  then have "body @ SEP # rest = as_bytes (oref_digest obj) @ SEP #
      (to_be_bytes (oref_byte_count obj) @ SEP # as_bytes (oref_namespace obj) @ SEP # rest')"
    by (simp add: object_ref_bytes_def)
  with assms(1,2) have "rest = to_be_bytes (oref_byte_count obj) @
      SEP # as_bytes (oref_namespace obj) @ SEP # rest'"
    by (simp add: clean_value_def split_at_sep)
  moreover have "to_be_bytes (oref_byte_count obj) = SEP # tl (to_be_bytes (oref_byte_count obj))"
    using assms(2) by (intro to_be_bytes_head) (simp add: clean_value_def)
  ultimately have "rest \<noteq> []" "hd rest = SEP" by (metis append_Cons list.distinct(1), metis append_Cons list.sel(1))
  with assms(3) show False by (simp add: row_start_def)
qed

lemma object_ref_bytes_split:
  assumes "clean_value (Inr obj)" "clean_value (Inr obj')"
  shows "object_ref_bytes obj @ SEP # rest = object_ref_bytes obj' @ SEP # rest'
    \<longleftrightarrow> obj = obj' \<and> rest = rest'"
proof
  assume "object_ref_bytes obj @ SEP # rest = object_ref_bytes obj' @ SEP # rest'"
  then have "as_bytes (oref_digest obj) @ SEP #
      (to_be_bytes (oref_byte_count obj) @ SEP # as_bytes (oref_namespace obj) @ SEP # rest) =
    as_bytes (oref_digest obj') @ SEP #
      (to_be_bytes (oref_byte_count obj') @ SEP # as_bytes (oref_namespace obj') @ SEP # rest')"
    by (simp add: object_ref_bytes_def)
  with assms have dig: "oref_digest obj = oref_digest obj'" and
    tail: "to_be_bytes (oref_byte_count obj) @ SEP # as_bytes (oref_namespace obj) @ SEP # rest =
      to_be_bytes (oref_byte_count obj') @ SEP # as_bytes (oref_namespace obj') @ SEP # rest'"
    by (simp_all add: clean_value_def split_at_sep)
  from tail have count: "oref_byte_count obj = oref_byte_count obj'"
    and "as_bytes (oref_namespace obj) @ SEP # rest = as_bytes (oref_namespace obj') @ SEP # rest'"
    by simp_all
  with assms have "oref_namespace obj = oref_namespace obj'" "rest = rest'"
    by (simp_all add: clean_value_def split_at_sep)
  with dig count show "obj = obj' \<and> rest = rest'" by simp
qed simp

lemma content_split:
  assumes "clean_value v" "clean_value v'" "row_start rest" "row_start rest'"
  shows "value_content v @ SEP # rest = value_content v' @ SEP # rest' \<longleftrightarrow> v = v' \<and> rest = rest'"
proof (cases v; cases v')
  fix body body' assume "v = Inl body" "v' = Inl body'"
  with assms show ?thesis by (simp add: value_content_def clean_value_def split_at_sep)
next
  fix body obj assume v: "v = Inl body" "v' = Inr obj"
  with assms body_not_object [of body obj rest rest'] show ?thesis by (simp add: value_content_def)
next
  fix obj body assume v: "v = Inr obj" "v' = Inl body"
  with assms body_not_object [of body obj rest' rest] show ?thesis
    by (auto simp: value_content_def dest: sym)
next
  fix obj obj' assume "v = Inr obj" "v' = Inr obj'"
  with assms show ?thesis by (simp add: value_content_def object_ref_bytes_split)
qed

lemma encode_row_not_Nil [simp]: "encode_row row \<noteq> []"
  by (simp add: encode_row_def)

lemma encode_row_append:
  "encode_row row @ bs = as_bytes (fst row) @ SEP # (value_content (trait_value (snd row)) @ SEP # bs)"
  by (simp add: encode_row_def trait_content_value)

lemma row_start_encode: "list_all clean_row rs \<Longrightarrow> row_start (concat (map encode_row rs))"
proof (cases rs)
  case (Cons row rs')
  assume "list_all clean_row rs"
  with Cons have "as_bytes (fst row) \<noteq> []" "nul_free (as_bytes (fst row))" by (simp_all add: clean_row_def)
  with Cons show ?thesis by (cases "as_bytes (fst row)") (simp_all add: row_start_def encode_row_def)
qed (simp add: row_start_def)

lemma encode_rows_inj:
  assumes "list_all clean_row rs" "list_all clean_row rs'"
    and "concat (map encode_row rs) = concat (map encode_row rs')"
  shows "map (\<lambda>row. (fst row, trait_value (snd row))) rs = map (\<lambda>row. (fst row, trait_value (snd row))) rs'"
  using assms
proof (induction rs arbitrary: rs')
  case Nil
  then show ?case by (cases rs') simp_all
next
  case (Cons row rs)
  then obtain row' qs where rs': "rs' = row' # qs" by (cases rs') simp_all
  let ?r = "concat (map encode_row rs)" and ?q = "concat (map encode_row qs)"
  from Cons.prems rs' have clean: "clean_row row" "clean_row row'" "list_all clean_row rs" "list_all clean_row qs"
    by simp_all
  from Cons.prems(3) rs' have "encode_row row @ ?r = encode_row row' @ ?q" by simp
  then have
    "as_bytes (fst row) @ SEP # (value_content (trait_value (snd row)) @ SEP # ?r) =
     as_bytes (fst row') @ SEP # (value_content (trait_value (snd row')) @ SEP # ?q)"
    by (simp only: encode_row_append)
  moreover have "nul_free (as_bytes (fst row))" "nul_free (as_bytes (fst row'))"
    using clean(1,2) by (simp_all add: clean_row_def)
  ultimately have key: "fst row = fst row'"
    and "value_content (trait_value (snd row)) @ SEP # ?r = value_content (trait_value (snd row')) @ SEP # ?q"
    by (simp_all only: split_at_sep as_bytes_inj)
  moreover have "clean_value (trait_value (snd row))" "clean_value (trait_value (snd row'))"
    using clean(1,2) by (simp_all add: clean_row_def clean_trait_value)
  ultimately have "trait_value (snd row) = trait_value (snd row')" "?r = ?q"
    using clean(3,4) by (simp_all only: content_split row_start_encode)
  with key rs' Cons.IH [OF clean(3,4)] show ?case by simp
qed

lemma map_of_values: "map_of (map (\<lambda>row. (fst row, trait_value (snd row))) rs) k = map_option trait_value (map_of rs k)"
  by (induction rs) auto

lemma canonical_bytes_inj:
  assumes "clean_bag a" "clean_bag b" "artifact_canonical_bytes a = artifact_canonical_bytes b"
  shows "map_option trait_value (map_of (art_traits a) k) = map_option trait_value (map_of (art_traits b) k)"
proof -
  have "concat (map encode_row (art_traits a)) = concat (map encode_row (art_traits b))"
    using assms by (simp add: clean_bag_def canonical_bytes_sorted)
  moreover have "list_all clean_row (art_traits a)" "list_all clean_row (art_traits b)"
    using assms(1,2) by (simp_all only: clean_bag_def)
  ultimately have "map (\<lambda>row. (fst row, trait_value (snd row))) (art_traits a) =
      map (\<lambda>row. (fst row, trait_value (snd row))) (art_traits b)"
    by (intro encode_rows_inj)
  then show ?thesis by (simp only: map_of_values [symmetric])
qed

section \<open>Projection and merge\<close>

lemma has_traits_alt: "has_traits a required \<longleftrightarrow> set required \<subseteq> dom (map_of (art_traits a))"
  by (auto simp: has_traits_def)

lemma trait_set_covers_alt: "trait_set_covers have need \<longleftrightarrow> set need \<subseteq> set have"
  by (auto simp: trait_set_covers_def list_all_iff list_ex_iff)

lemma collect_traits_ok:
  assumes "collect_traits a cs traits = Inr ts" "bt_wf traits"
  shows "bt_wf ts \<and> set cs \<subseteq> dom (map_of (art_traits a)) \<and>
    map_of ts = map_of traits ++ (map_of (art_traits a) |` set cs)"
  using assms
proof (induction cs arbitrary: traits)
  case (Cons c cs)
  then obtain f where f: "map_of (art_traits a) c = Some f"
    and rest: "collect_traits a cs (bt_insert c f traits) = Inr ts" by (auto split: option.splits)
  have "(map_of traits)(c \<mapsto> f) ++ (map_of (art_traits a) |` set cs) =
      map_of traits ++ (map_of (art_traits a) |` set (c # cs))"
  proof
    fix x
    show "((map_of traits)(c \<mapsto> f) ++ (map_of (art_traits a) |` set cs)) x =
      (map_of traits ++ (map_of (art_traits a) |` set (c # cs))) x"
      using f by (cases "x \<in> set cs"; cases "x = c") (simp_all add: map_add_def split: option.splits)
  qed
  moreover have "bt_wf ts" "set cs \<subseteq> dom (map_of (art_traits a))"
    "map_of ts = (map_of traits)(c \<mapsto> f) ++ (map_of (art_traits a) |` set cs)"
    using Cons.IH [OF rest bt_wf_insert [OF Cons.prems(2)]] unfolding map_of_bt_insert by blast+
  ultimately show ?case using f by (auto simp: domI)
qed simp

lemma collect_traits_error:
  "(\<exists>e. collect_traits a cs traits = Inl e) \<longleftrightarrow> \<not> set cs \<subseteq> dom (map_of (art_traits a))"
proof (induction cs arbitrary: traits)
  case (Cons c cs)
  show ?case
  proof (cases "map_of (art_traits a) c")
    case (Some f)
    with Cons.IH [of "bt_insert c f traits"] show ?thesis by (auto simp: domIff)
  qed (auto simp: domIff)
qed simp

lemma project_traits_ok:
  assumes "project_traits a cs = Inr b"
  shows "bt_wf (art_traits b)" "has_traits a cs"
    "map_of (art_traits b) = map_of (art_traits a) |` set cs"
proof -
  from assms obtain ts where ts: "collect_traits a cs [] = Inr ts" and b: "art_traits b = ts"
    by (auto simp: project_traits_def split: sum.splits)
  from collect_traits_ok [OF ts] b show "bt_wf (art_traits b)" "has_traits a cs"
    "map_of (art_traits b) = map_of (art_traits a) |` set cs"
    by (simp_all add: has_traits_alt)
qed

lemma project_traits_defined: "has_traits a cs \<longleftrightarrow> (\<exists>b. project_traits a cs = Inr b)"
  using collect_traits_error [of a cs "[]"]
  by (auto simp: project_traits_def has_traits_alt split: sum.splits)

lemma map_of_rev_distinct:
  assumes "distinct (map fst m)"
  shows "map_of (rev m) = map_of m"
proof (rule map_of_eqI)
  have rev: "distinct (map fst (rev m))" using assms by (simp add: rev_map [symmetric])
  show "\<forall>k \<in> set (map fst (rev m)). map_of (rev m) k = map_of m k"
    using assms rev by (auto simp: map_of_is_SomeI simp del: map_of_eq_Some_iff)
qed simp

lemma map_of_fold_insert:
  "map_of (fold (\<lambda>(k, v) traits. bt_insert k v traits) adds base) = map_of base ++ map_of (rev adds)"
  by (induction adds arbitrary: base) (auto simp: map_add_def fun_eq_iff split: option.splits)

lemma bt_wf_fold_insert:
  "bt_wf base \<Longrightarrow> bt_wf (fold (\<lambda>(k, v) traits. bt_insert k v traits) adds base)"
  by (induction adds arbitrary: base) auto

lemma merge_traits_lookup:
  assumes "bt_wf (art_traits base)" "bt_wf (art_traits add)"
  shows "bt_wf (art_traits (merge_traits base add))"
    "get_trait (merge_traits base add) c =
       (case get_trait add c of Some f \<Rightarrow> Some f | None \<Rightarrow> get_trait base c)"
proof -
  show "bt_wf (art_traits (merge_traits base add))"
    using assms by (simp add: merge_traits_def bt_wf_fold_insert)
  have "map_of (rev (art_traits add)) = map_of (art_traits add)"
    using assms(2) by (intro map_of_rev_distinct bt_wf_distinct)
  then show "get_trait (merge_traits base add) c =
       (case get_trait add c of Some f \<Rightarrow> Some f | None \<Rightarrow> get_trait base c)"
    by (simp add: merge_traits_def get_trait_def map_of_fold_insert map_add_def split: option.splits)
qed

end
