(* ===== verification/Ledger.thy ===== *)
theory Ledger
  imports Addressing
begin

text \<open>
  The hash-chained ledger: the hash of an entry, the entry that \<open>append_locked\<close> commits, and
  \<open>verify_chain\<close>. The locale \<open>chained_log\<close> is the contract between a log and its checker; the
  ledger is an instance of it.
\<close>

section \<open>Logs that check entry by entry\<close>

fun check_from :: "(nat \<Rightarrow> string \<Rightarrow> 'e \<Rightarrow> bool) \<Rightarrow> ('e \<Rightarrow> string) \<Rightarrow> nat \<Rightarrow> string \<Rightarrow> 'e list \<Rightarrow> bool" where
  "check_from ok hash_of i prev [] = True"
| "check_from ok hash_of i prev (e # es) =
     (if \<not> ok i prev e then False else check_from ok hash_of (Suc i) (hash_of e) es)"

definition last_hash :: "('e \<Rightarrow> string) \<Rightarrow> 'e list \<Rightarrow> string" where
  "last_hash hash_of es = (if es = [] then [] else hash_of (last es))"

locale chained_log =
  fixes ok :: "nat \<Rightarrow> string \<Rightarrow> 'e \<Rightarrow> bool"
    and hash_of :: "'e \<Rightarrow> string"
    and mk :: "nat \<Rightarrow> string \<Rightarrow> 'p \<Rightarrow> 'e"
  assumes mk_ok: "ok i prev (mk i prev p)"
begin

lemma check_from_append:
  "check_from ok hash_of i prev (es @ fs) \<longleftrightarrow>
     check_from ok hash_of i prev es \<and>
     check_from ok hash_of (i + length es) (if es = [] then prev else hash_of (last es)) fs"
  by (induction es arbitrary: i prev) auto

lemma extend_ok:
  assumes "check_from ok hash_of 0 [] es"
  shows "check_from ok hash_of 0 [] (es @ [mk (length es) (last_hash hash_of es) p])"
  using assms by (simp add: check_from_append last_hash_def mk_ok)

lemma prefix_ok: "check_from ok hash_of 0 [] (es @ fs) \<Longrightarrow> check_from ok hash_of 0 [] es"
  by (simp add: check_from_append)

lemma check_from_nth:
  "check_from ok hash_of i prev es \<longleftrightarrow>
     (\<forall>n < length es. ok (i + n) (if n = 0 then prev else hash_of (es ! (n - 1))) (es ! n))"
proof (induction es arbitrary: i prev)
  case (Cons e es)
  have "(\<forall>n < length (e # es). ok (i + n) (if n = 0 then prev else hash_of ((e # es) ! (n - 1))) ((e # es) ! n))
    \<longleftrightarrow> ok i prev e \<and>
      (\<forall>n < length es. ok (Suc i + n) (if n = 0 then hash_of e else hash_of (es ! (n - 1))) (es ! n))"
    by (auto simp: All_less_Suc2 nth_Cons' )
  with Cons.IH show ?case by simp
qed simp

end

section \<open>The ledger\<close>

definition ledger_preimage :: "u64 \<Rightarrow> string \<Rightarrow> string \<Rightarrow> bytes \<Rightarrow> string \<Rightarrow> bytes" where
  "ledger_preimage seq kind subject detail prev_hash =
     to_be_bytes seq @ [SEP] @ as_bytes kind @ [SEP] @ as_bytes subject @ [SEP] @ detail @ [SEP] @
     as_bytes prev_hash"

definition ledger_hash :: "ext \<Rightarrow> u64 \<Rightarrow> string \<Rightarrow> string \<Rightarrow> bytes \<Rightarrow> string \<Rightarrow> string" where
  "ledger_hash X seq kind subject detail prev_hash =
     hex (sha256 X (ledger_preimage seq kind subject detail prev_hash))"

text \<open>The entry that \<open>append_locked\<close> pushes.\<close>

definition next_entry :: "ext \<Rightarrow> ledger_entry list \<Rightarrow> string \<Rightarrow> string \<Rightarrow> bytes \<Rightarrow> ledger_entry" where
  "next_entry X ledger kind subject detail =
     (let seq = len64 ledger;
          prev_hash = (if ledger = [] then [] else le_hash (last ledger));
          hash = ledger_hash X seq kind subject detail prev_hash
      in \<lparr>le_seq = seq, le_kind = kind, le_subject = subject, le_detail = detail,
          le_prev_hash = prev_hash, le_hash = hash\<rparr>)"

text \<open>The loop of \<open>verify_chain\<close>, at index \<open>i\<close> with the hash \<open>prev\<close> of the entry before.\<close>

definition entry_ok :: "ext \<Rightarrow> nat \<Rightarrow> string \<Rightarrow> ledger_entry \<Rightarrow> bool" where
  "entry_ok X i prev e \<longleftrightarrow>
     \<not> (le_seq e \<noteq> word_of_nat i \<or> le_prev_hash e \<noteq> prev) \<and>
     ledger_hash X (le_seq e) (le_kind e) (le_subject e) (le_detail e) (le_prev_hash e) = le_hash e"

definition verify_chain :: "ext \<Rightarrow> ledger_entry list \<Rightarrow> bool" where
  "verify_chain X entries = check_from (entry_ok X) le_hash 0 [] entries"

definition make_entry :: "ext \<Rightarrow> nat \<Rightarrow> string \<Rightarrow> string \<times> string \<times> bytes \<Rightarrow> ledger_entry" where
  "make_entry X i prev payload =
     (case payload of (kind, subject, detail) \<Rightarrow>
        \<lparr>le_seq = word_of_nat i, le_kind = kind, le_subject = subject, le_detail = detail,
         le_prev_hash = prev, le_hash = ledger_hash X (word_of_nat i) kind subject detail prev\<rparr>)"

interpretation lg: chained_log "entry_ok X" le_hash "make_entry X" for X
  by unfold_locales (auto simp: entry_ok_def make_entry_def split: prod.splits)

lemma next_entry_make:
  "next_entry X es kind subject detail =
     make_entry X (length es) (last_hash le_hash es) (kind, subject, detail)"
  by (simp add: next_entry_def make_entry_def last_hash_def len64_def Let_def)

lemma verify_chain_append:
  "verify_chain X es \<Longrightarrow> verify_chain X (es @ [next_entry X es kind subject detail])"
  unfolding verify_chain_def next_entry_make by (rule lg.extend_ok)

lemma verify_chain_Nil [simp]: "verify_chain X []"
  by (simp add: verify_chain_def)

lemma verify_chain_prefix: "verify_chain X (es @ fs) \<Longrightarrow> verify_chain X es"
  unfolding verify_chain_def by (rule lg.prefix_ok)

lemma verify_chain_snoc:
  "verify_chain X (es @ [e]) \<longleftrightarrow> verify_chain X es \<and> entry_ok X (length es) (last_hash le_hash es) e"
  by (simp add: verify_chain_def lg.check_from_append last_hash_def)

section \<open>Tampering\<close>

definition entry_preimage :: "ledger_entry \<Rightarrow> bytes" where
  "entry_preimage e =
     ledger_preimage (le_seq e) (le_kind e) (le_subject e) (le_detail e) (le_prev_hash e)"

lemma entry_ok_hash: "entry_ok X i prev e \<Longrightarrow> le_hash e = hex (sha256 X (entry_preimage e))"
  by (auto simp: entry_ok_def ledger_hash_def entry_preimage_def)

definition clean_entry :: "ledger_entry \<Rightarrow> bool" where
  "clean_entry e \<longleftrightarrow> nul_free (as_bytes (le_kind e)) \<and> nul_free (as_bytes (le_subject e))"

text \<open>The hash fields of a chain that verifies hold hexadecimal digits only.\<close>

lemma last_hash_nul_free:
  "verify_chain X es \<Longrightarrow> nul_free (as_bytes (last_hash le_hash es))"
  by (cases es rule: rev_exhaust)
    (auto simp: last_hash_def verify_chain_snoc dest!: entry_ok_hash)

lemma preimage_seq_prev:
  assumes "ledger_preimage seq kind subject detail prev = ledger_preimage seq' kind' subject' detail' prev'"
    and "nul_free (as_bytes prev)" "nul_free (as_bytes prev')"
  shows "seq = seq' \<and> prev = prev'"
proof -
  let ?m = "SEP # as_bytes kind @ [SEP] @ as_bytes subject @ [SEP] @ detail"
  let ?m' = "SEP # as_bytes kind' @ [SEP] @ as_bytes subject' @ [SEP] @ detail'"
  from assms(1) have eq: "(to_be_bytes seq @ ?m) @ SEP # as_bytes prev = (to_be_bytes seq' @ ?m') @ SEP # as_bytes prev'"
    by (simp add: ledger_preimage_def)
  with assms(2,3) have "to_be_bytes seq @ ?m = to_be_bytes seq' @ ?m'" "prev = prev'"
    by (simp_all only: split_at_last_sep as_bytes_inj)
  then show ?thesis by simp
qed

lemma clean_preimage_inj:
  assumes "entry_preimage e = entry_preimage f" "clean_entry e" "clean_entry f"
    and "nul_free (as_bytes (le_prev_hash e))" "nul_free (as_bytes (le_prev_hash f))"
  shows "le_seq e = le_seq f \<and> le_kind e = le_kind f \<and> le_subject e = le_subject f \<and>
    le_detail e = le_detail f \<and> le_prev_hash e = le_prev_hash f"
proof -
  from assms(1,4,5) have sp: "le_seq e = le_seq f" "le_prev_hash e = le_prev_hash f"
    unfolding entry_preimage_def by (blast dest: preimage_seq_prev)+
  with assms(1) have
    "as_bytes (le_kind e) @ SEP # (as_bytes (le_subject e) @ SEP # le_detail e) =
     as_bytes (le_kind f) @ SEP # (as_bytes (le_subject f) @ SEP # le_detail f)"
    by (simp add: entry_preimage_def ledger_preimage_def)
  with assms(2,3) sp show ?thesis by (simp add: clean_entry_def split_at_sep)
qed

text \<open>
  Two chains that verify and end in the same hash are equal, or two of their entries hash to the
  same digest from different preimages.
\<close>

lemma chains_equal_or_collide:
  assumes "verify_chain X es" "verify_chain X fs"
    and "list_all clean_entry es" "list_all clean_entry fs"
    and "length es < 2 ^ 64" "length fs < 2 ^ 64"
    and "es \<noteq> []" "fs \<noteq> []" "le_hash (last es) = le_hash (last fs)"
  shows "es = fs \<or> (\<exists>e \<in> set es. \<exists>f \<in> set fs. sha_collision X (entry_preimage e) (entry_preimage f))"
  using assms
proof (induction es arbitrary: fs rule: rev_induct)
  case (snoc e es)
  from snoc.prems(8) obtain f gs where fs: "fs = gs @ [f]" by (cases fs rule: rev_exhaust) auto
  from snoc.prems fs have ok: "entry_ok X (length es) (last_hash le_hash es) e"
      "entry_ok X (length gs) (last_hash le_hash gs) f" "verify_chain X es" "verify_chain X gs"
    by (simp_all add: verify_chain_snoc)
  then have prev: "le_prev_hash e = last_hash le_hash es" "le_prev_hash f = last_hash le_hash gs"
    and seq: "le_seq e = word_of_nat (length es)" "le_seq f = word_of_nat (length gs)"
    by (simp_all add: entry_ok_def)
  from prev ok have nf: "nul_free (as_bytes (le_prev_hash e))" "nul_free (as_bytes (le_prev_hash f))"
    by (simp_all add: last_hash_nul_free)
  from snoc.prems(9) fs have hash: "le_hash e = le_hash f" by simp
  show ?case
  proof (cases "entry_preimage e = entry_preimage f")
    case False
    moreover have "sha256 X (entry_preimage e) = sha256 X (entry_preimage f)"
      using hash ok by (simp add: entry_ok_hash)
    ultimately show ?thesis using fs by (auto simp: sha_collision_def)
  next
    case True
    with snoc.prems fs nf have same: "le_seq e = le_seq f" "le_kind e = le_kind f"
        "le_subject e = le_subject f" "le_detail e = le_detail f" "le_prev_hash e = le_prev_hash f"
      using clean_preimage_inj [of e f] by simp_all
    with hash have ef: "e = f" by simp
    from same(1) seq have "(word_of_nat (length es) :: u64) = word_of_nat (length gs)" by simp
    then have len: "length es = length gs"
      using snoc.prems(5,6) fs by (simp add: word_of_nat_eq_iff take_bit_nat_eq_self)
    show ?thesis
    proof (cases "es = []")
      case True
      with len ef fs show ?thesis by simp
    next
      case False
      with len have "gs \<noteq> []" by auto
      with False same(5) prev have "le_hash (last es) = le_hash (last gs)" by (simp add: last_hash_def)
      with snoc.IH [of gs] snoc.prems fs ok False \<open>gs \<noteq> []\<close> ef show ?thesis by auto
    qed
  qed
qed simp

text \<open>
  The separators do not delimit a kind or a subject that holds a zero byte: moving the boundary
  between the two gives another entry with the same preimage, and the chain still verifies.
\<close>

definition shift_boundary :: "string \<Rightarrow> string \<Rightarrow> ledger_entry \<Rightarrow> ledger_entry" where
  "shift_boundary k1 k2 e = e\<lparr>le_kind := k1, le_subject := k2 @ [CHR 0x00] @ le_subject e\<rparr>"

lemma shift_boundary_preimage:
  assumes "le_kind e = k1 @ [CHR 0x00] @ k2"
  shows "entry_preimage (shift_boundary k1 k2 e) = entry_preimage e"
  using assms by (simp add: entry_preimage_def ledger_preimage_def shift_boundary_def as_bytes_def SEP_def)

lemma shift_boundary_ok:
  assumes "le_kind e = k1 @ [CHR 0x00] @ k2"
  shows "entry_ok X i prev (shift_boundary k1 k2 e) \<longleftrightarrow> entry_ok X i prev e"
  using shift_boundary_preimage [OF assms]
  by (simp add: entry_ok_def ledger_hash_def entry_preimage_def) (simp add: shift_boundary_def)

lemma verify_chain_update:
  assumes "i < length es" "le_hash e = le_hash (es ! i)"
    and "\<And>prev. entry_ok X i prev (es ! i) \<Longrightarrow> entry_ok X i prev e"
    and "verify_chain X es"
  shows "verify_chain X (es[i := e])"
  using assms unfolding verify_chain_def lg.check_from_nth by (auto simp: nth_list_update)

end
