(* ===== verification/State.thy ===== *)
theory State
  imports Ledger
begin

text \<open>
  Everything the kernel owns behind its lock (\<open>State\<close> of \<open>kernel/sdk/rust/src/lib.rs\<close>), and
  what every operation uses: \<open>append_locked\<close>, the deadline check and the idempotency cache. An
  operation takes the state and returns its result with the new state. The lock makes each
  operation one atomic step. The channel of a subscription (\<open>std::sync::mpsc::sync_channel\<close>) is
  an entry of \<open>ks_channels\<close>, shared by the sender in \<open>ks_subs\<close> and the caller's receiver.
\<close>

section \<open>State\<close>

record channel =
  ch_queue :: "event list"
  ch_receiver :: bool

record sub =
  su_topics :: "string list"
  su_tx :: nat

record module_slot =
  ms_manifest :: module_manifest
  ms_lifecycle :: lifecycle

record claimed_slot =
  cs_work :: work_item
  cs_unit_key :: string
  cs_lease_until_ms :: int
  cs_attempt :: u32

record run_slot =
  rs_run :: run
  rs_claimed :: "(string \<times> claimed_slot) list"
  rs_latest :: "string \<rightharpoonup> derivation"
  rs_done_units :: "string set"
  rs_claim_attempts :: "string \<rightharpoonup> u32"
  rs_input_epochs :: "string \<rightharpoonup> u64"
  rs_node_commits :: "string \<rightharpoonup> u64"
  rs_max_in_flight :: u64
  rs_default_lease_ms :: u64
  rs_max_attempts :: u32

record blob_slot =
  bs_data :: bytes
  bs_ref :: blob_ref

datatype idempotent_result = IdemArtifactRef artifact_ref | IdemRun run

record kstate =
  ks_modules :: "module_slot list"
  ks_capabilities :: "capability list"
  ks_contracts :: "(string \<times> contract) list"
  ks_artifacts :: "string \<rightharpoonup> artifact"
  ks_blobs :: "string \<times> string \<rightharpoonup> blob_slot"
  ks_subs :: "sub list"
  ks_ledger :: "ledger_entry list"
  ks_runs :: "string \<rightharpoonup> run_slot"
  ks_derivations :: "derivation list"
  ks_event_seq :: u64
  ks_idempotency :: "string \<rightharpoonup> idempotent_result"
  ks_channels :: "channel list"

text \<open>\<open>State::default()\<close>.\<close>

definition init_state :: kstate where
  "init_state =
     \<lparr>ks_modules = [], ks_capabilities = [], ks_contracts = [], ks_artifacts = Map.empty,
      ks_blobs = Map.empty, ks_subs = [], ks_ledger = [], ks_runs = Map.empty,
      ks_derivations = [], ks_event_seq = 0, ks_idempotency = Map.empty, ks_channels = []\<rparr>"

type_synonym 'a outcome = "(kernel_error + 'a) \<times> kstate"

section \<open>Ledger, deadline, idempotency\<close>

definition append_locked :: "ext \<Rightarrow> kstate \<Rightarrow> string \<Rightarrow> string \<Rightarrow> bytes \<Rightarrow> ledger_entry \<times> kstate" where
  "append_locked X s kind subject detail =
     (let entry = next_entry X (ks_ledger s) kind subject detail
      in (entry, s\<lparr>ks_ledger := ks_ledger s @ [entry]\<rparr>))"

abbreviation log_entry :: "ext \<Rightarrow> kstate \<Rightarrow> string \<Rightarrow> string \<Rightarrow> bytes \<Rightarrow> kstate" where
  "log_entry X s kind subject detail \<equiv> snd (append_locked X s kind subject detail)"

definition check_deadline :: "int \<Rightarrow> request_context \<Rightarrow> kernel_error + unit" where
  "check_deadline now ctx =
     (if cx_deadline_unix_ms ctx \<le> 0 then Inr ()
      else if cx_deadline_unix_ms ctx < now then Inl (FailedPrecondition ''deadline exceeded'')
      else Inr ())"

definition idempotency_key :: "string \<Rightarrow> request_context \<Rightarrow> string option" where
  "idempotency_key opn ctx =
     (if cx_request_key ctx = [] then None
      else Some (opn @ [CHR 0x00] @ cx_caller ctx @ [CHR 0x00] @ cx_request_key ctx))"

definition idempotent_get :: "kstate \<Rightarrow> string \<Rightarrow> request_context \<Rightarrow> idempotent_result option" where
  "idempotent_get s opn ctx =
     (case idempotency_key opn ctx of None \<Rightarrow> None | Some key \<Rightarrow> ks_idempotency s key)"

definition idempotent_put :: "kstate \<Rightarrow> string \<Rightarrow> request_context \<Rightarrow> idempotent_result \<Rightarrow> kstate" where
  "idempotent_put s opn ctx val =
     (case idempotency_key opn ctx of
        None \<Rightarrow> s
      | Some key \<Rightarrow>
          (case ks_idempotency s key of
             None \<Rightarrow> s\<lparr>ks_idempotency := (ks_idempotency s)(key \<mapsto> val)\<rparr>
           | Some _ \<Rightarrow> s))"

section \<open>Frames\<close>

lemma append_locked_frame [frame]:
  "ks_modules (log_entry X s k sj d) = ks_modules s"
  "ks_capabilities (log_entry X s k sj d) = ks_capabilities s"
  "ks_contracts (log_entry X s k sj d) = ks_contracts s"
  "ks_artifacts (log_entry X s k sj d) = ks_artifacts s"
  "ks_blobs (log_entry X s k sj d) = ks_blobs s"
  "ks_subs (log_entry X s k sj d) = ks_subs s"
  "ks_runs (log_entry X s k sj d) = ks_runs s"
  "ks_derivations (log_entry X s k sj d) = ks_derivations s"
  "ks_event_seq (log_entry X s k sj d) = ks_event_seq s"
  "ks_idempotency (log_entry X s k sj d) = ks_idempotency s"
  "ks_channels (log_entry X s k sj d) = ks_channels s"
  by (simp_all add: append_locked_def Let_def)

lemma log_entry_ledger:
  "ks_ledger (log_entry X s k sj d) = ks_ledger s @ [next_entry X (ks_ledger s) k sj d]"
  by (simp add: append_locked_def Let_def)

lemma idempotent_put_frame [frame]:
  "ks_modules (idempotent_put s opn ctx v) = ks_modules s"
  "ks_capabilities (idempotent_put s opn ctx v) = ks_capabilities s"
  "ks_contracts (idempotent_put s opn ctx v) = ks_contracts s"
  "ks_artifacts (idempotent_put s opn ctx v) = ks_artifacts s"
  "ks_blobs (idempotent_put s opn ctx v) = ks_blobs s"
  "ks_subs (idempotent_put s opn ctx v) = ks_subs s"
  "ks_ledger (idempotent_put s opn ctx v) = ks_ledger s"
  "ks_runs (idempotent_put s opn ctx v) = ks_runs s"
  "ks_derivations (idempotent_put s opn ctx v) = ks_derivations s"
  "ks_event_seq (idempotent_put s opn ctx v) = ks_event_seq s"
  "ks_channels (idempotent_put s opn ctx v) = ks_channels s"
  by (simp_all add: idempotent_put_def split: option.splits)

text \<open>
  What every operation does to the ledger: it appends entries made by \<open>next_entry\<close>. The ledger
  keeps what it held and goes on verifying.
\<close>

inductive ledger_grows :: "ext \<Rightarrow> ledger_entry list \<Rightarrow> ledger_entry list \<Rightarrow> bool" for X where
  same [simp, intro]: "ledger_grows X es es"
| more: "ledger_grows X es fs \<Longrightarrow> ledger_grows X es (fs @ [next_entry X fs kind subject detail])"

lemma ledger_grows_trans: "ledger_grows X fs gs \<Longrightarrow> ledger_grows X es fs \<Longrightarrow> ledger_grows X es gs"
  by (induction rule: ledger_grows.induct) (auto intro: ledger_grows.intros)

lemma ledger_grows_prefix: "ledger_grows X es fs \<Longrightarrow> \<exists>new. fs = es @ new"
  by (induction rule: ledger_grows.induct) auto

lemma ledger_grows_verify: "ledger_grows X es fs \<Longrightarrow> verify_chain X es \<Longrightarrow> verify_chain X fs"
  by (induction rule: ledger_grows.induct) (auto intro: verify_chain_append)

lemma ledger_grows_log:
  "ledger_grows X es (ks_ledger s) \<Longrightarrow> ledger_grows X es (ks_ledger (log_entry X s k sj d))"
  by (simp add: log_entry_ledger ledger_grows.more)

section \<open>Idempotency\<close>

text \<open>The cache never forgets or replaces a response.\<close>

lemma idempotent_put_keeps:
  "ks_idempotency s key = Some v \<Longrightarrow> ks_idempotency (idempotent_put s opn ctx w) key = Some v"
  by (auto simp: idempotent_put_def split: option.splits)

lemma idempotent_put_get:
  assumes "cx_request_key ctx \<noteq> []" "idempotent_get s opn ctx = None"
  shows "idempotent_get (idempotent_put s opn ctx v) opn ctx = Some v"
  using assms by (simp add: idempotent_get_def idempotent_put_def idempotency_key_def)

lemma split_at_nul:
  assumes "CHR 0x00 \<notin> set xs" "CHR 0x00 \<notin> set ys"
  shows "xs @ CHR 0x00 # us = ys @ CHR 0x00 # vs \<longleftrightarrow> xs = ys \<and> us = vs"
  using assms
proof (induction xs arbitrary: ys)
  case Nil
  then show ?case by (cases ys) auto
next
  case (Cons x xs)
  then show ?case by (cases ys) auto
qed

lemma idempotency_key_inj:
  assumes "idempotency_key o1 c1 = Some key" "idempotency_key o2 c2 = Some key"
    and "CHR 0x00 \<notin> set o1" "CHR 0x00 \<notin> set o2"
    and "CHR 0x00 \<notin> set (cx_caller c1)" "CHR 0x00 \<notin> set (cx_caller c2)"
  shows "o1 = o2 \<and> cx_caller c1 = cx_caller c2 \<and> cx_request_key c1 = cx_request_key c2"
  using assms by (auto simp: idempotency_key_def split_at_nul split: if_splits)

end
