(* ===== verification/Registry.thy ===== *)
theory Registry
  imports State
begin

text \<open>
  Modules, contracts and discovery: \<open>register\<close>, \<open>transition\<close>, \<open>put_contract\<close>, \<open>snapshot\<close>.
\<close>

section \<open>Modules\<close>

definition ensure_contract_placeholder :: "ext \<Rightarrow> string \<Rightarrow> kstate \<Rightarrow> kstate" where
  "ensure_contract_placeholder X r s =
     (if r = [] then s
      else case map_of (ks_contracts s) r of
             Some _ \<Rightarrow> s
           | None \<Rightarrow>
               s\<lparr>ks_contracts := AList.update r
                   \<lparr>ct_ref = r, ct_schema = [], ct_media_type = [], ct_version = [],
                    ct_digest = contract_digest X [] [] [] [], ct_compatible_with = []\<rparr>
                   (ks_contracts s)\<rparr>)"

text \<open>The body of the loop over \<open>manifest.provides\<close>.\<close>

definition register_capability :: "ext \<Rightarrow> capability \<Rightarrow> kstate \<Rightarrow> kstate" where
  "register_capability X cap s =
     fold (\<lambda>p s. fold (ensure_contract_placeholder X) (port_traits p) s)
       (cap_inputs cap @ cap_outputs cap)
       (s\<lparr>ks_capabilities := ks_capabilities s @ [cap]\<rparr>)"

definition register_ctx :: "ext \<Rightarrow> kstate \<Rightarrow> module_manifest \<Rightarrow> request_context \<Rightarrow> int \<times> kstate" where
  "register_ctx X s manifest ctx =
     (let s = fold (register_capability X) (mm_provides manifest) s;
          detail = enc_manifest X manifest;
          s = s\<lparr>ks_modules := ks_modules s @ [\<lparr>ms_manifest = manifest, ms_lifecycle = Registered\<rparr>]\<rparr>;
          s = log_entry X s ''module.registered'' (mm_name manifest) detail
      in (lifecycle_i32 Registered, s))"

definition register :: "ext \<Rightarrow> kstate \<Rightarrow> module_manifest \<Rightarrow> int \<times> kstate" where
  "register X s manifest = register_ctx X s manifest default_context"

fun lifecycle_verb :: "lifecycle \<Rightarrow> string" where
  "lifecycle_verb LifecycleUnspecified = ''unspecified''"
| "lifecycle_verb Registered = ''registered''"
| "lifecycle_verb Loaded = ''loaded''"
| "lifecycle_verb Active = ''activated''"
| "lifecycle_verb Deactivated = ''deactivated''"

text \<open>\<open>iter_mut().find(p)\<close> with the update of the element found.\<close>

fun update_first :: "('a \<Rightarrow> bool) \<Rightarrow> ('a \<Rightarrow> 'a) \<Rightarrow> 'a list \<Rightarrow> 'a list" where
  "update_first p f [] = []"
| "update_first p f (x # xs) = (if p x then f x # xs else x # update_first p f xs)"

definition named_module :: "string \<Rightarrow> module_slot \<Rightarrow> bool" where
  "named_module name m \<longleftrightarrow> mm_name (ms_manifest m) = name"

definition transition_req ::
  "ext \<Rightarrow> int \<Rightarrow> kstate \<Rightarrow> transition_request \<Rightarrow> request_context \<Rightarrow> int outcome" where
  "transition_req X now s req ctx =
     (case check_deadline now ctx of Inl e \<Rightarrow> (Inl e, s) | Inr _ \<Rightarrow>
      case find (named_module (tq_module req)) (ks_modules s) of
        None \<Rightarrow> (Inl (NotFound (tq_module req)), s)
      | Some slot \<Rightarrow>
          let to = (case lifecycle_try_from (tq_to req) of None \<Rightarrow> LifecycleUnspecified | Some l \<Rightarrow> l);
              s = (if lifecycle_i32 to = lifecycle_i32 (ms_lifecycle slot) + 1
                   then log_entry X
                          (s\<lparr>ks_modules := update_first (named_module (tq_module req))
                                             (\<lambda>m. m\<lparr>ms_lifecycle := to\<rparr>) (ks_modules s)\<rparr>)
                          (''module.'' @ lifecycle_verb to) (tq_module req) []
                   else s)
          in case find (named_module (tq_module req)) (ks_modules s) of
               None \<Rightarrow> (Inl (NotFound (tq_module req)), s)
             | Some m \<Rightarrow> (Inr (lifecycle_i32 (ms_lifecycle m)), s))"

definition transition :: "ext \<Rightarrow> int \<Rightarrow> kstate \<Rightarrow> string \<Rightarrow> lifecycle \<Rightarrow> lifecycle outcome" where
  "transition X now s name to =
     (case transition_req X now s \<lparr>tq_module = name, tq_to = lifecycle_i32 to\<rparr> default_context of
        (Inl e, s) \<Rightarrow> (Inl e, s)
      | (Inr ack, s) \<Rightarrow>
          (Inr (case lifecycle_try_from ack of None \<Rightarrow> LifecycleUnspecified | Some l \<Rightarrow> l), s))"

section \<open>Contracts\<close>

definition put_contract :: "ext \<Rightarrow> kstate \<Rightarrow> contract \<Rightarrow> contract outcome" where
  "put_contract X s c =
     (if ct_ref c = [] then (Inl (Invalid ''contract ref is required''), s)
      else
        let c = c\<lparr>ct_compatible_with := sort (ct_compatible_with c)\<rparr>;
            digest = contract_digest X (ct_media_type c) (ct_schema c) (ct_version c) (ct_compatible_with c)
        in if ct_digest c \<noteq> [] \<and> ct_digest c \<noteq> digest
           then (Inl (Invalid ''contract digest mismatch''), s)
           else
             let c = c\<lparr>ct_digest := digest\<rparr>;
                 stored = log_entry X (s\<lparr>ks_contracts := AList.update (ct_ref c) c (ks_contracts s)\<rparr>)
                            ''contract.registered'' (ct_ref c) (enc_contract X c)
             in case map_of (ks_contracts s) (ct_ref c) of
                  Some existing \<Rightarrow>
                    if ct_digest existing = ct_digest c then (Inr existing, s)
                    else if is_contract_placeholder existing \<and> \<not> is_contract_placeholder c
                    then (Inr c, stored)
                    else (Inl (Conflict (''contract '' @ ct_ref c @
                                 '' already registered with different content'')), s)
                | None \<Rightarrow> (Inr c, stored))"

section \<open>Discovery\<close>

definition snapshot :: "ext \<Rightarrow> artifact_store_policy \<Rightarrow> kstate \<Rightarrow> registry_snapshot" where
  "snapshot X pol s =
     \<lparr>sn_modules = map ms_manifest (ks_modules s),
      sn_capabilities = ks_capabilities s,
      sn_contracts = List.map_filter (map_of (ks_contracts s))
                       (hash_order X (map fst (ks_contracts s))),
      sn_store_policy = Some pol\<rparr>"

section \<open>Registration\<close>

lemma fold_frame:
  assumes "\<And>x s. x \<in> set xs \<Longrightarrow> f (g x s) = f s"
  shows "f (fold g xs s) = f s"
  using assms by (induction xs arbitrary: s) auto

lemma ensure_placeholder_frame [frame]:
  "ks_modules (ensure_contract_placeholder X r s) = ks_modules s"
  "ks_capabilities (ensure_contract_placeholder X r s) = ks_capabilities s"
  "ks_artifacts (ensure_contract_placeholder X r s) = ks_artifacts s"
  "ks_blobs (ensure_contract_placeholder X r s) = ks_blobs s"
  "ks_subs (ensure_contract_placeholder X r s) = ks_subs s"
  "ks_ledger (ensure_contract_placeholder X r s) = ks_ledger s"
  "ks_runs (ensure_contract_placeholder X r s) = ks_runs s"
  "ks_derivations (ensure_contract_placeholder X r s) = ks_derivations s"
  "ks_event_seq (ensure_contract_placeholder X r s) = ks_event_seq s"
  "ks_idempotency (ensure_contract_placeholder X r s) = ks_idempotency s"
  "ks_channels (ensure_contract_placeholder X r s) = ks_channels s"
  by (simp_all add: ensure_contract_placeholder_def split: option.splits)

lemma register_capability_frame [frame]:
  "ks_modules (register_capability X cap s) = ks_modules s"
  "ks_artifacts (register_capability X cap s) = ks_artifacts s"
  "ks_blobs (register_capability X cap s) = ks_blobs s"
  "ks_subs (register_capability X cap s) = ks_subs s"
  "ks_ledger (register_capability X cap s) = ks_ledger s"
  "ks_runs (register_capability X cap s) = ks_runs s"
  "ks_derivations (register_capability X cap s) = ks_derivations s"
  "ks_event_seq (register_capability X cap s) = ks_event_seq s"
  "ks_idempotency (register_capability X cap s) = ks_idempotency s"
  "ks_channels (register_capability X cap s) = ks_channels s"
  unfolding register_capability_def by (subst fold_frame; simp add: fold_frame frame)+

lemma register_capability_caps:
  "ks_capabilities (register_capability X cap s) = ks_capabilities s @ [cap]"
  unfolding register_capability_def by (subst fold_frame; simp add: fold_frame frame)

lemma register_frame [frame]:
  "ks_artifacts (snd (register_ctx X s m ctx)) = ks_artifacts s"
  "ks_blobs (snd (register_ctx X s m ctx)) = ks_blobs s"
  "ks_subs (snd (register_ctx X s m ctx)) = ks_subs s"
  "ks_runs (snd (register_ctx X s m ctx)) = ks_runs s"
  "ks_derivations (snd (register_ctx X s m ctx)) = ks_derivations s"
  "ks_event_seq (snd (register_ctx X s m ctx)) = ks_event_seq s"
  "ks_idempotency (snd (register_ctx X s m ctx)) = ks_idempotency s"
  "ks_channels (snd (register_ctx X s m ctx)) = ks_channels s"
  by (simp_all add: register_ctx_def Let_def frame fold_frame)

lemma register_modules:
  "ks_modules (snd (register_ctx X s m ctx)) =
     ks_modules s @ [\<lparr>ms_manifest = m, ms_lifecycle = Registered\<rparr>]"
  by (simp add: register_ctx_def Let_def frame fold_frame)

lemma register_capabilities:
  "ks_capabilities (snd (register_ctx X s m ctx)) = ks_capabilities s @ mm_provides m"
proof -
  have "ks_capabilities (fold (register_capability X) caps s) = ks_capabilities s @ caps" for caps
    by (induction caps arbitrary: s) (simp_all add: register_capability_caps)
  then show ?thesis by (simp add: register_ctx_def Let_def frame)
qed

lemma register_ledger:
  "ledger_grows X (ks_ledger s) (ks_ledger (snd (register_ctx X s m ctx)))"
  by (simp add: register_ctx_def Let_def ledger_grows_log frame fold_frame)

section \<open>Lifecycle\<close>

lemma find_update_first:
  assumes "find p xs = Some x" "p (f x)"
  shows "find p (update_first p f xs) = Some (f x)"
  using assms by (induction xs) (auto split: if_splits)

lemma length_update_first [simp]: "length (update_first p f xs) = length xs"
  by (induction xs) auto

lemma update_first_nth:
  assumes "i < length xs"
  shows "update_first p f xs ! i = xs ! i \<or> find p xs = Some (xs ! i) \<and> update_first p f xs ! i = f (xs ! i)"
  using assms by (induction xs arbitrary: i) (auto simp: nth_Cons' split: if_splits)

lemma transition_frame [frame]:
  "ks_capabilities (snd (transition_req X now s req ctx)) = ks_capabilities s"
  "ks_contracts (snd (transition_req X now s req ctx)) = ks_contracts s"
  "ks_artifacts (snd (transition_req X now s req ctx)) = ks_artifacts s"
  "ks_blobs (snd (transition_req X now s req ctx)) = ks_blobs s"
  "ks_subs (snd (transition_req X now s req ctx)) = ks_subs s"
  "ks_runs (snd (transition_req X now s req ctx)) = ks_runs s"
  "ks_derivations (snd (transition_req X now s req ctx)) = ks_derivations s"
  "ks_event_seq (snd (transition_req X now s req ctx)) = ks_event_seq s"
  "ks_idempotency (snd (transition_req X now s req ctx)) = ks_idempotency s"
  "ks_channels (snd (transition_req X now s req ctx)) = ks_channels s"
  by (auto simp: transition_req_def Let_def frame split: sum.splits option.splits)

lemma transition_ledger:
  "ledger_grows X (ks_ledger s) (ks_ledger (snd (transition_req X now s req ctx)))"
  by (auto simp: transition_req_def Let_def intro!: ledger_grows_log split: sum.splits option.splits)

text \<open>What a transition does to the modules: at most one of them moves, one step forward.\<close>

lemma transition_modules:
  fixes X now s req ctx
  assumes "i < length (ks_modules s)"
  defines "s' \<equiv> snd (transition_req X now s req ctx)"
  shows "length (ks_modules s') = length (ks_modules s)"
    and "ms_manifest (ks_modules s' ! i) = ms_manifest (ks_modules s ! i)"
    and "ms_lifecycle (ks_modules s' ! i) = ms_lifecycle (ks_modules s ! i) \<or>
         named_module (tq_module req) (ks_modules s ! i) \<and>
         lifecycle_i32 (ms_lifecycle (ks_modules s' ! i)) = lifecycle_i32 (ms_lifecycle (ks_modules s ! i)) + 1"
proof -
  let ?p = "named_module (tq_module req)"
  let ?to = "case lifecycle_try_from (tq_to req) of None \<Rightarrow> LifecycleUnspecified | Some l \<Rightarrow> l"
  let ?f = "\<lambda>m. m\<lparr>ms_lifecycle := ?to\<rparr>"
  have cases: "ks_modules s' = ks_modules s \<or>
      (\<exists>slot. find ?p (ks_modules s) = Some slot \<and>
        lifecycle_i32 ?to = lifecycle_i32 (ms_lifecycle slot) + 1 \<and>
        ks_modules s' = update_first ?p ?f (ks_modules s))"
    unfolding s'_def transition_req_def Let_def
    by (auto simp: frame split: sum.splits option.splits)
  then show "length (ks_modules s') = length (ks_modules s)" by auto
  show "ms_manifest (ks_modules s' ! i) = ms_manifest (ks_modules s ! i)"
    using cases update_first_nth [OF assms(1), of ?p ?f] by auto
  have "?p slot" if "find ?p (ks_modules s) = Some slot" for slot
    using that by (auto simp: find_Some_iff)
  then show "ms_lifecycle (ks_modules s' ! i) = ms_lifecycle (ks_modules s ! i) \<or>
         ?p (ks_modules s ! i) \<and>
         lifecycle_i32 (ms_lifecycle (ks_modules s' ! i)) = lifecycle_i32 (ms_lifecycle (ks_modules s ! i)) + 1"
    using cases update_first_nth [OF assms(1), of ?p ?f] by auto
qed

section \<open>Contracts\<close>

lemma put_contract_frame [frame]:
  "ks_modules (snd (put_contract X s c)) = ks_modules s"
  "ks_capabilities (snd (put_contract X s c)) = ks_capabilities s"
  "ks_artifacts (snd (put_contract X s c)) = ks_artifacts s"
  "ks_blobs (snd (put_contract X s c)) = ks_blobs s"
  "ks_subs (snd (put_contract X s c)) = ks_subs s"
  "ks_runs (snd (put_contract X s c)) = ks_runs s"
  "ks_derivations (snd (put_contract X s c)) = ks_derivations s"
  "ks_event_seq (snd (put_contract X s c)) = ks_event_seq s"
  "ks_idempotency (snd (put_contract X s c)) = ks_idempotency s"
  "ks_channels (snd (put_contract X s c)) = ks_channels s"
  by (auto simp: put_contract_def Let_def frame split: option.splits)

lemma put_contract_ledger:
  "ledger_grows X (ks_ledger s) (ks_ledger (snd (put_contract X s c)))"
  by (auto simp: put_contract_def Let_def intro!: ledger_grows_log split: option.splits)

text \<open>
  A contract may change in one way: a placeholder is filled with content. That is the order in
  which every operation moves the contract under a reference.
\<close>

definition contract_le :: "contract \<Rightarrow> contract \<Rightarrow> bool" where
  "contract_le c d \<longleftrightarrow> d = c \<or> is_contract_placeholder c \<and> \<not> is_contract_placeholder d"

definition contracts_grow :: "kstate \<Rightarrow> kstate \<Rightarrow> bool" where
  "contracts_grow s t \<longleftrightarrow>
     (\<forall>r c. map_of (ks_contracts s) r = Some c \<longrightarrow>
        (\<exists>d. map_of (ks_contracts t) r = Some d \<and> contract_le c d))"

lemma contract_le_refl [simp]: "contract_le c c"
  by (simp add: contract_le_def)

lemma contract_le_trans: "contract_le c d \<Longrightarrow> contract_le d e \<Longrightarrow> contract_le c e"
  by (auto simp: contract_le_def)

lemma contracts_grow_refl [simp]: "ks_contracts t = ks_contracts s \<Longrightarrow> contracts_grow s t"
  by (auto simp: contracts_grow_def)

lemma contracts_grow_trans: "contracts_grow s t \<Longrightarrow> contracts_grow t u \<Longrightarrow> contracts_grow s u"
  unfolding contracts_grow_def by (meson contract_le_trans)

lemma contracts_grow_fold:
  assumes "\<And>x s. x \<in> set xs \<Longrightarrow> contracts_grow s (f x s)"
  shows "contracts_grow s (fold f xs s)"
  using assms
proof (induction xs arbitrary: s)
  case (Cons x xs)
  have "contracts_grow s (f x s)" using Cons.prems by simp
  moreover have "contracts_grow (f x s) (fold f xs (f x s))" using Cons by simp
  ultimately show ?case by (simp add: contracts_grow_trans)
qed simp

lemma ensure_placeholder_grow: "contracts_grow s (ensure_contract_placeholder X r s)"
  by (auto simp: contracts_grow_def ensure_contract_placeholder_def update_conv' split: option.splits)

lemma register_contracts_grow: "contracts_grow s (snd (register_ctx X s m ctx))"
proof -
  have "contracts_grow s (register_capability X cap s)" for cap s
  proof -
    let ?s = "s\<lparr>ks_capabilities := ks_capabilities s @ [cap]\<rparr>"
    have "contracts_grow s ?s" by simp
    moreover have "contracts_grow ?s (register_capability X cap s)"
      unfolding register_capability_def by (intro contracts_grow_fold ensure_placeholder_grow)
    ultimately show ?thesis by (rule contracts_grow_trans)
  qed
  then have "contracts_grow s (fold (register_capability X) (mm_provides m) s)"
    by (rule contracts_grow_fold)
  then show ?thesis by (simp add: register_ctx_def Let_def frame contracts_grow_def)
qed

text \<open>Every stored contract sits under its own reference, sorted, with its digest.\<close>

definition contract_ok :: "ext \<Rightarrow> string \<Rightarrow> contract \<Rightarrow> bool" where
  "contract_ok X r c \<longleftrightarrow>
     r \<noteq> [] \<and> ct_ref c = r \<and> sorted (ct_compatible_with c) \<and> ct_digest c = contract_digest_of X c"

definition contracts_ok :: "ext \<Rightarrow> kstate \<Rightarrow> bool" where
  "contracts_ok X s \<longleftrightarrow>
     distinct (map fst (ks_contracts s)) \<and> (\<forall>(r, c) \<in> set (ks_contracts s). contract_ok X r c)"

lemma contracts_ok_cong: "ks_contracts t = ks_contracts s \<Longrightarrow> contracts_ok X t = contracts_ok X s"
  by (simp add: contracts_ok_def)

lemma set_update_subset: "set (AList.update k v m) \<subseteq> insert (k, v) (set m)"
  by (induction m) auto

lemma contracts_ok_update:
  assumes "contracts_ok X s" "contract_ok X r c" "ks_contracts t = AList.update r c (ks_contracts s)"
  shows "contracts_ok X t"
proof -
  have "contract_ok X r' c'" if "(r', c') \<in> set (ks_contracts t)" for r' c'
    using that assms set_update_subset [of r c "ks_contracts s"] unfolding contracts_ok_def by auto
  with assms show ?thesis by (auto simp: contracts_ok_def distinct_update)
qed

lemma placeholder_ok:
  "r \<noteq> [] \<Longrightarrow> contract_ok X r
     \<lparr>ct_ref = r, ct_schema = [], ct_media_type = [], ct_version = [],
      ct_digest = contract_digest X [] [] [] [], ct_compatible_with = []\<rparr>"
  by (simp add: contract_ok_def contract_digest_of_def)

lemma ensure_placeholder_ok:
  assumes "contracts_ok X s"
  shows "contracts_ok X (ensure_contract_placeholder X r s)"
proof (cases "r = [] \<or> map_of (ks_contracts s) r \<noteq> None")
  case True
  with assms show ?thesis by (auto simp: ensure_contract_placeholder_def)
next
  case False
  then show ?thesis
    by (intro contracts_ok_update [OF assms placeholder_ok]) (auto simp: ensure_contract_placeholder_def)
qed

lemma fold_invariant: "\<lbrakk>P s; \<And>x s. x \<in> set xs \<Longrightarrow> P s \<Longrightarrow> P (f x s)\<rbrakk> \<Longrightarrow> P (fold f xs s)"
  by (induction xs arbitrary: s) auto

lemma register_contracts_ok:
  assumes "contracts_ok X s"
  shows "contracts_ok X (snd (register_ctx X s m ctx))"
proof -
  have "contracts_ok X (register_capability X cap s)" if "contracts_ok X s" for cap s
    unfolding register_capability_def using that
    by (intro fold_invariant [where P = "contracts_ok X"])
      (auto intro!: fold_invariant [where P = "contracts_ok X"] ensure_placeholder_ok
        simp: contracts_ok_cong [of "s\<lparr>ks_capabilities := ks_capabilities s @ [cap]\<rparr>" s])
  with assms have "contracts_ok X (fold (register_capability X) (mm_provides m) s)"
    by (intro fold_invariant [where P = "contracts_ok X"])
  then show ?thesis by (simp add: register_ctx_def Let_def contracts_ok_def frame)
qed

text \<open>The contract that \<open>put_contract\<close> stores: sorted, with its digest.\<close>

definition normal_contract :: "ext \<Rightarrow> contract \<Rightarrow> contract" where
  "normal_contract X c =
     c\<lparr>ct_compatible_with := sort (ct_compatible_with c), ct_digest := contract_digest_of X c\<rparr>"

lemma normal_contract_ok: "ct_ref c \<noteq> [] \<Longrightarrow> contract_ok X (ct_ref c) (normal_contract X c)"
  by (simp add: contract_ok_def normal_contract_def contract_digest_of_def sorted_sort_id)

lemma put_contract_cases:
  obtains (rejected) e where "put_contract X s c = (Inl e, s)"
  | (present) d where "put_contract X s c = (Inr d, s)" "map_of (ks_contracts s) (ct_ref c) = Some d"
      "ct_digest d = contract_digest_of X c"
  | (stored) "ct_ref c \<noteq> []"
      "put_contract X s c = (Inr (normal_contract X c),
         log_entry X (s\<lparr>ks_contracts := AList.update (ct_ref c) (normal_contract X c) (ks_contracts s)\<rparr>)
           ''contract.registered'' (ct_ref c) (enc_contract X (normal_contract X c)))"
      "\<forall>d. map_of (ks_contracts s) (ct_ref c) = Some d \<longrightarrow>
         is_contract_placeholder d \<and> \<not> is_contract_placeholder (normal_contract X c)"
  by (atomize_elim, simp add: put_contract_def Let_def normal_contract_def contract_digest_of_def
      is_contract_placeholder_def split: option.splits)

lemma put_contract_grow: "contracts_grow s (snd (put_contract X s c))"
  by (cases rule: put_contract_cases [of X s c])
    (auto simp: contracts_grow_def frame update_conv' contract_le_def)

lemma put_contract_ok: "contracts_ok X s \<Longrightarrow> contracts_ok X (snd (put_contract X s c))"
  by (cases rule: put_contract_cases [of X s c])
    (auto simp: frame intro: contracts_ok_update normal_contract_ok)

lemma contracts_ok_lookup:
  "contracts_ok X s \<Longrightarrow> map_of (ks_contracts s) r = Some c \<Longrightarrow> contract_ok X r c"
  by (auto simp: contracts_ok_def dest: map_of_SomeD)

end
