(* ===== verification/Store.thy ===== *)
theory Store
  imports Registry
begin

text \<open>
  The artifact store and the blob store: validation, \<open>put_artifact\<close>, \<open>get_artifact\<close>,
  \<open>put_blob\<close>, \<open>get_blob\<close>, \<open>has_blob\<close>. Both are first-write-wins stores keyed by a content
  address; the locale \<open>first_write_store\<close> is that contract, and both stores are instances of it.
\<close>

section \<open>First write wins\<close>

locale first_write_store =
  fixes look :: "'s \<Rightarrow> 'k \<Rightarrow> 'v option"
    and put :: "'v \<Rightarrow> 's \<Rightarrow> 's"
    and addr :: "'v \<Rightarrow> 'k"
  assumes put_new: "look s (addr v) = None \<Longrightarrow> look (put v s) = (look s)(addr v \<mapsto> v)"
    and put_present: "look s (addr v) \<noteq> None \<Longrightarrow> look (put v s) = look s"
begin

lemma put_keeps: "look s k = Some w \<Longrightarrow> look (put v s) k = Some w"
  by (cases "look s (addr v) = None") (auto simp: put_new put_present)

lemma puts_keep: "look s k = Some w \<Longrightarrow> look (fold put vs s) k = Some w"
  by (induction vs arbitrary: s) (auto simp: put_keeps)

lemma look_put:
  "look (put v s) (addr v) = Some (case look s (addr v) of None \<Rightarrow> v | Some w \<Rightarrow> w)"
  by (cases "look s (addr v)") (auto simp: put_new put_present)

lemma look_put_other: "k \<noteq> addr v \<Longrightarrow> look (put v s) k = look s k"
  by (cases "look s (addr v)") (auto simp: put_new put_present)

lemma put_idempotent: "look (put v (put v s)) = look (put v s)"
  by (rule put_present) (simp add: look_put)

lemma put_addressed:
  assumes "\<And>k w. look s k = Some w \<Longrightarrow> P k w" "P (addr v) v" "look (put v s) k = Some w"
  shows "P k w"
  using assms by (cases "look s (addr v)") (auto simp: put_new put_present split: if_splits)

end

section \<open>Validation\<close>

text \<open>The loop body of \<open>validate_artifact_content\<close>.\<close>

definition validate_trait :: "u64 \<Rightarrow> string \<times> trait_val \<Rightarrow> kernel_error + unit" where
  "validate_trait max_inline row =
     (case row of (contract, tr) \<Rightarrow>
        let has_obj = trait_has_external tr; has_body = (tr_body tr \<noteq> []) in
        if contract = [] then Inl (Invalid ''trait contract ref must be non-empty'')
        else if has_obj \<and> has_body
        then Inl (Invalid (''trait '' @ contract @ '' must not set both body and object''))
        else if has_body \<and> max_inline < len64 (tr_body tr)
        then Inl (ResourceExhausted (''trait '' @ contract @ '': body size '' @
                    show_nat (length (tr_body tr)) @ '' exceeds max_inline_bytes '' @
                    show_nat (unat max_inline)))
        else case tr_object tr of
               None \<Rightarrow> Inr ()
             | Some obj \<Rightarrow>
                 if oref_digest obj = [] \<and> (oref_byte_count obj \<noteq> 0 \<or> oref_namespace obj \<noteq> [])
                 then Inl (Invalid (''trait '' @ contract @
                             '': object.digest is required when object is set''))
                 else if has_obj \<and> \<not> is_sha256_digest (oref_digest obj)
                 then Inl (Invalid (''trait '' @ contract @ '': object.digest must be sha256:<hex>''))
                 else Inr ())"

definition validate_artifact_content :: "artifact \<Rightarrow> artifact_store_policy \<Rightarrow> kernel_error + unit" where
  "validate_artifact_content a pol =
     (if art_traits a = [] then Inl (Invalid ''artifact must have at least one trait'')
      else try_each (validate_trait (asp_max_inline_bytes pol)) (art_traits a))"

definition verify_object_ref_locked :: "ext \<Rightarrow> kstate \<Rightarrow> object_ref \<Rightarrow> kernel_error + unit" where
  "verify_object_ref_locked X s obj =
     (case ks_blobs s (oref_namespace obj, oref_digest obj) of
        None \<Rightarrow> Inl (NotFound (''blob '' @ oref_digest obj @ '' (namespace '' @
                        debug_str (oref_namespace obj) @ '')''))
      | Some slot \<Rightarrow>
          if bref_byte_count (bs_ref slot) \<noteq> oref_byte_count obj
          then Inl (BlobIntegrity (''object.byte_count '' @ show_nat (unat (oref_byte_count obj)) @
                      '' != stored '' @ show_nat (unat (bref_byte_count (bs_ref slot)))))
          else if blob_id X (bs_data slot) \<noteq> oref_digest obj \<or> len64 (bs_data slot) \<noteq> oref_byte_count obj
          then Inl (BlobIntegrity ''blob does not match object ref'')
          else Inr ())"

definition enforce_blob_size :: "artifact_store_policy \<Rightarrow> nat \<Rightarrow> kernel_error + unit" where
  "enforce_blob_size pol len =
     (let max = asp_max_blob_bytes pol in
      if 0 < max \<and> max < (word_of_nat len :: u64)
      then Inl (ResourceExhausted (''blob size '' @ show_nat len @ '' exceeds max_blob_bytes '' @
                  show_nat (unat max)))
      else Inr ())"

section \<open>Artifacts\<close>

text \<open>The artifact of the ledger detail: the body of an external trait is cleared.\<close>

definition ledger_artifact :: "artifact \<Rightarrow> artifact" where
  "ledger_artifact a =
     a\<lparr>art_traits := map (\<lambda>(k, f). (k, if trait_has_external f then f\<lparr>tr_body := []\<rparr> else f)) (art_traits a)\<rparr>"

definition store_artifact :: "ext \<Rightarrow> artifact \<Rightarrow> kstate \<Rightarrow> kstate" where
  "store_artifact X a s =
     (if ks_artifacts s (art_id a) = None
      then log_entry X (s\<lparr>ks_artifacts := (ks_artifacts s)(art_id a \<mapsto> a)\<rparr>)
             ''artifact.put'' (art_id a) (enc_artifact X (ledger_artifact a))
      else s)"

text \<open>The external references of the trait bag, verified before the artifact is stored.\<close>

definition verify_trait :: "ext \<Rightarrow> kstate \<Rightarrow> trait_val \<Rightarrow> kernel_error + unit" where
  "verify_trait X s tr =
     (if trait_has_external tr
      then case tr_object tr of None \<Rightarrow> Inr () | Some obj \<Rightarrow> verify_object_ref_locked X s obj
      else Inr ())"

definition put_artifact_ctx ::
  "ext \<Rightarrow> artifact_store_policy \<Rightarrow> int \<Rightarrow> kstate \<Rightarrow> artifact \<Rightarrow> request_context \<Rightarrow> artifact_ref outcome" where
  "put_artifact_ctx X pol now s a ctx =
     (case check_deadline now ctx of Inl e \<Rightarrow> (Inl e, s) | Inr _ \<Rightarrow>
      case validate_artifact_content a pol of Inl e \<Rightarrow> (Inl e, s) | Inr _ \<Rightarrow>
      case (case idempotent_get s ''put_artifact'' ctx of Some (IdemArtifactRef r) \<Rightarrow> Some r | _ \<Rightarrow> None) of
        Some r \<Rightarrow> (Inr r, s)
      | None \<Rightarrow>
      case try_each (verify_trait X s) (map snd (art_traits a)) of Inl e \<Rightarrow> (Inl e, s) | Inr _ \<Rightarrow>
        let aid = artifact_id_of X a;
            s = store_artifact X (a\<lparr>art_id := aid\<rparr>) s;
            r = \<lparr>aref_id = aid\<rparr>
        in (Inr r, idempotent_put s ''put_artifact'' ctx (IdemArtifactRef r)))"

definition put_artifact ::
  "ext \<Rightarrow> artifact_store_policy \<Rightarrow> int \<Rightarrow> kstate \<Rightarrow> artifact \<Rightarrow> artifact_ref outcome" where
  "put_artifact X pol now s a = put_artifact_ctx X pol now s a default_context"

definition get_artifact :: "kstate \<Rightarrow> artifact_ref \<Rightarrow> kernel_error + artifact" where
  "get_artifact s r =
     (case ks_artifacts s (aref_id r) of None \<Rightarrow> Inl (NotFound (aref_id r)) | Some a \<Rightarrow> Inr a)"

section \<open>Blobs\<close>

definition blob_key :: "blob_slot \<Rightarrow> string \<times> string" where
  "blob_key slot = (bref_namespace (bs_ref slot), bref_digest (bs_ref slot))"

definition store_blob :: "ext \<Rightarrow> blob_slot \<Rightarrow> kstate \<Rightarrow> kstate" where
  "store_blob X slot s =
     (if ks_blobs s (blob_key slot) = None
      then log_entry X (s\<lparr>ks_blobs := (ks_blobs s)(blob_key slot \<mapsto> slot)\<rparr>)
             ''blob.put'' (bref_digest (bs_ref slot)) (enc_blob_ref X (bs_ref slot))
      else s)"

definition put_blob ::
  "ext \<Rightarrow> artifact_store_policy \<Rightarrow> kstate \<Rightarrow> put_blob_request \<Rightarrow> blob_ref outcome" where
  "put_blob X pol s req =
     (case enforce_blob_size pol (length (pbr_data req)) of Inl e \<Rightarrow> (Inl e, s) | Inr _ \<Rightarrow>
      if asp_ingest_mode pol \<noteq> blob_ingest_mode_i32 CopyVerify
      then (Inl (Invalid ''unsupported BlobIngestMode (only COPY_VERIFY)''), s)
      else
        let r = \<lparr>bref_digest = blob_id X (pbr_data req), bref_byte_count = len64 (pbr_data req),
                 bref_namespace = pbr_namespace req\<rparr>
        in (Inr r, store_blob X \<lparr>bs_data = pbr_data req, bs_ref = r\<rparr> s))"

definition get_blob :: "ext \<Rightarrow> kstate \<Rightarrow> get_blob_request \<Rightarrow> kernel_error + blob_data" where
  "get_blob X s req =
     (case ks_blobs s (gbr_namespace req, gbr_digest req) of
        None \<Rightarrow> Inl (NotFound (''blob '' @ gbr_digest req))
      | Some slot \<Rightarrow>
          if blob_id X (bs_data slot) \<noteq> bref_digest (bs_ref slot) \<or>
             len64 (bs_data slot) \<noteq> bref_byte_count (bs_ref slot)
          then Inl (BlobIntegrity ''stored blob corrupted'')
          else Inr \<lparr>bd_digest = bref_digest (bs_ref slot), bd_byte_count = bref_byte_count (bs_ref slot),
                    bd_namespace = bref_namespace (bs_ref slot), bd_data = bs_data slot\<rparr>)"

definition has_blob :: "kstate \<Rightarrow> has_blob_request \<Rightarrow> has_blob_response" where
  "has_blob s req =
     (case ks_blobs s (hbr_namespace req, hbr_digest req) of
        Some slot \<Rightarrow> \<lparr>hbp_exists = True, hbp_byte_count = bref_byte_count (bs_ref slot)\<rparr>
      | None \<Rightarrow> \<lparr>hbp_exists = False, hbp_byte_count = 0\<rparr>)"

text \<open>The two calls of \<open>put_artifact_with_blob\<close>, one after the other.\<close>

definition put_artifact_with_blob ::
  "ext \<Rightarrow> artifact_store_policy \<Rightarrow> int \<Rightarrow> kstate \<Rightarrow> string \<Rightarrow> string \<Rightarrow> bytes \<Rightarrow> string \<Rightarrow>
   (artifact_ref \<times> blob_ref) outcome" where
  "put_artifact_with_blob X pol now s contract ns data produced_by =
     (case put_blob X pol s \<lparr>pbr_namespace = ns, pbr_data = data\<rparr> of
        (Inl e, s) \<Rightarrow> (Inl e, s)
      | (Inr blob, s) \<Rightarrow>
          let tr = \<lparr>tr_body = [], tr_object = Some \<lparr>oref_digest = bref_digest blob,
                     oref_byte_count = bref_byte_count blob, oref_namespace = bref_namespace blob\<rparr>\<rparr>
          in case put_artifact X pol now s
                    ((artifact_of_traits (bt_insert contract tr []))\<lparr>art_produced_by := produced_by\<rparr>) of
               (Inl e, s) \<Rightarrow> (Inl e, s)
             | (Inr r, s) \<Rightarrow> (Inr (r, blob), s))"

section \<open>Both stores are first-write-wins stores\<close>

interpretation arts: first_write_store ks_artifacts "store_artifact X" art_id for X
  by unfold_locales (auto simp: store_artifact_def frame)

interpretation blbs: first_write_store ks_blobs "store_blob X" blob_key for X
  by unfold_locales (auto simp: store_blob_def frame)

lemma store_artifact_frame [frame]:
  "ks_modules (store_artifact X a s) = ks_modules s"
  "ks_capabilities (store_artifact X a s) = ks_capabilities s"
  "ks_contracts (store_artifact X a s) = ks_contracts s"
  "ks_blobs (store_artifact X a s) = ks_blobs s"
  "ks_subs (store_artifact X a s) = ks_subs s"
  "ks_runs (store_artifact X a s) = ks_runs s"
  "ks_derivations (store_artifact X a s) = ks_derivations s"
  "ks_event_seq (store_artifact X a s) = ks_event_seq s"
  "ks_idempotency (store_artifact X a s) = ks_idempotency s"
  "ks_channels (store_artifact X a s) = ks_channels s"
  by (simp_all add: store_artifact_def frame)

lemma store_blob_frame [frame]:
  "ks_modules (store_blob X b s) = ks_modules s"
  "ks_capabilities (store_blob X b s) = ks_capabilities s"
  "ks_contracts (store_blob X b s) = ks_contracts s"
  "ks_artifacts (store_blob X b s) = ks_artifacts s"
  "ks_subs (store_blob X b s) = ks_subs s"
  "ks_runs (store_blob X b s) = ks_runs s"
  "ks_derivations (store_blob X b s) = ks_derivations s"
  "ks_event_seq (store_blob X b s) = ks_event_seq s"
  "ks_idempotency (store_blob X b s) = ks_idempotency s"
  "ks_channels (store_blob X b s) = ks_channels s"
  by (simp_all add: store_blob_def frame)

text \<open>The three outcomes of \<open>put_artifact\<close>.\<close>

lemma put_artifact_cases:
  obtains (rejected) e where "put_artifact_ctx X pol now s a ctx = (Inl e, s)"
  | (replayed) r where "put_artifact_ctx X pol now s a ctx = (Inr r, s)"
      "idempotent_get s ''put_artifact'' ctx = Some (IdemArtifactRef r)"
  | (accepted) "put_artifact_ctx X pol now s a ctx =
        (Inr \<lparr>aref_id = artifact_id_of X a\<rparr>,
         idempotent_put (store_artifact X (a\<lparr>art_id := artifact_id_of X a\<rparr>) s) ''put_artifact'' ctx
           (IdemArtifactRef \<lparr>aref_id = artifact_id_of X a\<rparr>))"
      "validate_artifact_content a pol = Inr ()"
      "try_each (verify_trait X s) (map snd (art_traits a)) = Inr ()"
  by (atomize_elim)
    (auto simp: put_artifact_ctx_def Let_def split: sum.splits option.splits idempotent_result.splits)

lemma put_artifact_frame [frame]:
  "ks_modules (snd (put_artifact_ctx X pol now s a ctx)) = ks_modules s"
  "ks_capabilities (snd (put_artifact_ctx X pol now s a ctx)) = ks_capabilities s"
  "ks_contracts (snd (put_artifact_ctx X pol now s a ctx)) = ks_contracts s"
  "ks_blobs (snd (put_artifact_ctx X pol now s a ctx)) = ks_blobs s"
  "ks_subs (snd (put_artifact_ctx X pol now s a ctx)) = ks_subs s"
  "ks_runs (snd (put_artifact_ctx X pol now s a ctx)) = ks_runs s"
  "ks_derivations (snd (put_artifact_ctx X pol now s a ctx)) = ks_derivations s"
  "ks_event_seq (snd (put_artifact_ctx X pol now s a ctx)) = ks_event_seq s"
  "ks_channels (snd (put_artifact_ctx X pol now s a ctx)) = ks_channels s"
  by (cases rule: put_artifact_cases [of X pol now s a ctx]; simp add: frame)+

lemma put_blob_cases:
  obtains (rejected) e where "put_blob X pol s req = (Inl e, s)"
  | (accepted) r where "r = \<lparr>bref_digest = blob_id X (pbr_data req), bref_byte_count = len64 (pbr_data req),
                 bref_namespace = pbr_namespace req\<rparr>"
      "put_blob X pol s req = (Inr r, store_blob X \<lparr>bs_data = pbr_data req, bs_ref = r\<rparr> s)"
      "enforce_blob_size pol (length (pbr_data req)) = Inr ()"
  by (atomize_elim) (auto simp: put_blob_def Let_def split: sum.splits)

lemma put_blob_frame [frame]:
  "ks_modules (snd (put_blob X pol s req)) = ks_modules s"
  "ks_capabilities (snd (put_blob X pol s req)) = ks_capabilities s"
  "ks_contracts (snd (put_blob X pol s req)) = ks_contracts s"
  "ks_artifacts (snd (put_blob X pol s req)) = ks_artifacts s"
  "ks_subs (snd (put_blob X pol s req)) = ks_subs s"
  "ks_runs (snd (put_blob X pol s req)) = ks_runs s"
  "ks_derivations (snd (put_blob X pol s req)) = ks_derivations s"
  "ks_event_seq (snd (put_blob X pol s req)) = ks_event_seq s"
  "ks_idempotency (snd (put_blob X pol s req)) = ks_idempotency s"
  "ks_channels (snd (put_blob X pol s req)) = ks_channels s"
  by (cases rule: put_blob_cases [of X pol s req]; simp add: frame)+

lemma store_ledger:
  "ledger_grows X es (ks_ledger s) \<Longrightarrow> ledger_grows X es (ks_ledger (store_artifact X a s))"
  "ledger_grows X es (ks_ledger s) \<Longrightarrow> ledger_grows X es (ks_ledger (store_blob X b s))"
  by (auto simp: store_artifact_def store_blob_def intro: ledger_grows_log)

lemma put_artifact_ledger:
  "ledger_grows X (ks_ledger s) (ks_ledger (snd (put_artifact_ctx X pol now s a ctx)))"
  by (cases rule: put_artifact_cases [of X pol now s a ctx]) (simp_all add: store_ledger frame)

lemma put_blob_ledger: "ledger_grows X (ks_ledger s) (ks_ledger (snd (put_blob X pol s req)))"
  by (cases rule: put_blob_cases [of X pol s req]) (simp_all add: store_ledger)

lemma put_artifact_keeps:
  "ks_artifacts s k = Some b \<Longrightarrow> ks_artifacts (snd (put_artifact_ctx X pol now s a ctx)) k = Some b"
  by (cases rule: put_artifact_cases [of X pol now s a ctx]) (simp_all add: frame arts.put_keeps)

lemma put_blob_keeps:
  "ks_blobs s k = Some b \<Longrightarrow> ks_blobs (snd (put_blob X pol s req)) k = Some b"
  by (cases rule: put_blob_cases [of X pol s req]) (simp_all add: blbs.put_keeps)

section \<open>Well-formed stores\<close>

definition blob_ok :: "ext \<Rightarrow> string \<times> string \<Rightarrow> blob_slot \<Rightarrow> bool" where
  "blob_ok X k b \<longleftrightarrow>
     k = blob_key b \<and> bref_digest (bs_ref b) = blob_id X (bs_data b) \<and>
     bref_byte_count (bs_ref b) = len64 (bs_data b)"

definition blobs_ok :: "ext \<Rightarrow> kstate \<Rightarrow> bool" where
  "blobs_ok X s \<longleftrightarrow> (\<forall>k b. ks_blobs s k = Some b \<longrightarrow> blob_ok X k b)"

lemma blobs_ok_cong: "ks_blobs t = ks_blobs s \<Longrightarrow> blobs_ok X t \<longleftrightarrow> blobs_ok X s"
  by (simp add: blobs_ok_def)

lemma put_blob_ok: "blobs_ok X s \<Longrightarrow> blobs_ok X (snd (put_blob X pol s req))"
proof (cases rule: put_blob_cases [of X pol s req])
  case (accepted r)
  assume ok: "blobs_ok X s"
  let ?b = "\<lparr>bs_data = pbr_data req, bs_ref = r\<rparr>"
  have new: "blob_ok X (blob_key ?b) ?b" using accepted(1) by (simp add: blob_ok_def)
  have "blob_ok X k b" if "ks_blobs (store_blob X ?b s) k = Some b" for k b
    by (rule blbs.put_addressed [where P = "blob_ok X" and s = s and v = ?b])
      (use ok new that in \<open>auto simp: blobs_ok_def\<close>)
  with accepted show ?thesis by (simp add: blobs_ok_def)
qed simp

text \<open>An external reference resolves: the blob is there, with its digest and its size.\<close>

definition ref_resolves :: "ext \<Rightarrow> kstate \<Rightarrow> object_ref \<Rightarrow> bool" where
  "ref_resolves X s obj \<longleftrightarrow>
     (\<exists>b. ks_blobs s (oref_namespace obj, oref_digest obj) = Some b \<and>
          blob_id X (bs_data b) = oref_digest obj \<and> len64 (bs_data b) = oref_byte_count obj)"

lemma verify_object_ref_resolves:
  "verify_object_ref_locked X s obj = Inr () \<Longrightarrow> ref_resolves X s obj"
  by (auto simp: verify_object_ref_locked_def ref_resolves_def split: option.splits if_splits)

lemma verify_object_ref_iff:
  "blobs_ok X s \<Longrightarrow> verify_object_ref_locked X s obj = Inr () \<longleftrightarrow> ref_resolves X s obj"
  by (auto simp: verify_object_ref_locked_def ref_resolves_def blobs_ok_def blob_ok_def
      split: option.splits if_splits)

lemma ref_resolves_keep:
  "\<lbrakk>ref_resolves X s obj; \<And>k b. ks_blobs s k = Some b \<Longrightarrow> ks_blobs t k = Some b\<rbrakk> \<Longrightarrow> ref_resolves X t obj"
  by (auto simp: ref_resolves_def)

definition artifact_ok :: "ext \<Rightarrow> artifact_store_policy \<Rightarrow> kstate \<Rightarrow> string \<Rightarrow> artifact \<Rightarrow> bool" where
  "artifact_ok X pol s k a \<longleftrightarrow>
     art_id a = k \<and> artifact_id_of X a = k \<and> validate_artifact_content a pol = Inr () \<and>
     (\<forall>(c, f) \<in> set (art_traits a). \<forall>obj. trait_has_external f \<and> tr_object f = Some obj \<longrightarrow> ref_resolves X s obj)"

definition artifacts_ok :: "ext \<Rightarrow> artifact_store_policy \<Rightarrow> kstate \<Rightarrow> bool" where
  "artifacts_ok X pol s \<longleftrightarrow> (\<forall>k a. ks_artifacts s k = Some a \<longrightarrow> artifact_ok X pol s k a)"

lemma artifact_id_of_id [simp]: "artifact_id_of X (a\<lparr>art_id := i\<rparr>) = artifact_id_of X a"
  by (simp add: artifact_id_of_def artifact_canonical_bytes_def)

lemma validate_id [simp]: "validate_artifact_content (a\<lparr>art_id := i\<rparr>) pol = validate_artifact_content a pol"
  by (simp add: validate_artifact_content_def)

lemma artifact_ok_keep:
  assumes "artifact_ok X pol s k a" "\<And>k b. ks_blobs s k = Some b \<Longrightarrow> ks_blobs t k = Some b"
  shows "artifact_ok X pol t k a"
proof -
  have "ref_resolves X t obj" if "ref_resolves X s obj" for obj
    using that assms(2) by (rule ref_resolves_keep)
  with assms(1) show ?thesis by (auto simp: artifact_ok_def)
qed

lemma artifacts_ok_keep:
  "\<lbrakk>artifacts_ok X pol s; ks_artifacts t = ks_artifacts s;
    \<And>k b. ks_blobs s k = Some b \<Longrightarrow> ks_blobs t k = Some b\<rbrakk> \<Longrightarrow> artifacts_ok X pol t"
  by (simp add: artifacts_ok_def) (blast intro: artifact_ok_keep)

lemma put_blob_artifacts_ok: "artifacts_ok X pol s \<Longrightarrow> artifacts_ok X pol (snd (put_blob X pol' s req))"
  by (erule artifacts_ok_keep) (simp_all add: frame put_blob_keeps)

lemma put_artifact_ok:
  assumes "artifacts_ok X pol s"
  shows "artifacts_ok X pol (snd (put_artifact_ctx X pol now s a ctx))"
proof (cases rule: put_artifact_cases [of X pol now s a ctx])
  case accepted
  let ?a = "a\<lparr>art_id := artifact_id_of X a\<rparr>"
  have new: "artifact_ok X pol s (art_id ?a) ?a"
    using accepted(2,3)
    by (auto simp: artifact_ok_def verify_trait_def dest!: bspec intro: verify_object_ref_resolves)
  have "artifact_ok X pol s k b" if "ks_artifacts (store_artifact X ?a s) k = Some b" for k b
    by (rule arts.put_addressed [where P = "artifact_ok X pol s" and s = s and v = ?a])
      (use assms new that in \<open>simp_all add: artifacts_ok_def\<close>)
  then show ?thesis using accepted(1) by (simp add: artifacts_ok_def frame artifact_ok_def ref_resolves_def)
qed (use assms in simp_all)

end
