(* ===== verification/Assembly.thy ===== *)
theory Assembly
  imports Store
begin

text \<open>
  Assemblies: resolving the capability of a node, \<open>materialize_assembly\<close> (the restriction to
  \<open>include_nodes\<close>) and \<open>validate_assembly\<close>, loop by loop, with its depth-first cycle check. The
  specification \<open>well_formed_assembly\<close> says what a valid assembly is without the loops; the
  validator accepts exactly those.
\<close>

section \<open>Capabilities and ports\<close>

definition node_matches :: "kstate \<Rightarrow> assembly_node \<Rightarrow> capability list" where
  "node_matches s node =
     concat (map (\<lambda>m. filter (\<lambda>c. cap_name c = an_capability node) (mm_provides (ms_manifest m)))
       (filter (\<lambda>m. mm_name (ms_manifest m) = an_module node \<and>
                    mm_version (ms_manifest m) = an_module_version node) (ks_modules s)))"

definition capability_for_node :: "kstate \<Rightarrow> assembly_node \<Rightarrow> kernel_error + capability" where
  "capability_for_node s node =
     (case node_matches s node of
        [] \<Rightarrow> Inl (Invalid (an_module node @ ''@'' @ an_module_version node @ '' does not provide '' @
                   an_capability node))
      | [found] \<Rightarrow> Inr found
      | _ \<Rightarrow> Inl (Invalid (an_module node @ ''@'' @ an_module_version node @ '' provides '' @
                   an_capability node @ '' ambiguously'')))"

definition capability_for_work :: "kstate \<Rightarrow> work_item \<Rightarrow> kernel_error + capability" where
  "capability_for_work s work =
     capability_for_node s \<lparr>an_id = wi_node_id work, an_module = wi_module work,
       an_module_version = wi_module_version work, an_capability = wi_capability work\<rparr>"

definition find_port :: "port list \<Rightarrow> string \<Rightarrow> port option" where
  "find_port ports name = find (\<lambda>p. port_name p = name) ports"

section \<open>Restriction to the included nodes\<close>

definition materialize_assembly :: "ext \<Rightarrow> assembly \<Rightarrow> string list \<Rightarrow> kernel_error + assembly" where
  "materialize_assembly X a include =
     (if include = [] then Inr a
      else if \<not> distinct include then Inl (Invalid ''include_nodes contains duplicates'')
      else case try_each (\<lambda>i. if i \<in> an_id ` set (as_nodes a) then Inr ()
                  else Inl (Invalid (''include_nodes references unknown node '' @ i)))
                (hash_order X include) of
             Inl e \<Rightarrow> Inl e
           | Inr _ \<Rightarrow>
      case as_terminal a of
        None \<Rightarrow> Inl (Invalid ''assembly terminal is required'')
      | Some terminal \<Rightarrow>
          if no_node terminal \<notin> set include
          then Inl (Invalid ''include_nodes must retain the terminal node'')
          else Inr \<lparr>as_id = as_id a,
                    as_nodes = filter (\<lambda>n. an_id n \<in> set include) (as_nodes a),
                    as_bindings = filter (\<lambda>b. bd_to_node b \<in> set include \<and>
                                     (bd_input b \<noteq> [] \<or> bd_from_node b \<in> set include)) (as_bindings a),
                    as_terminal = as_terminal a\<rparr>)"

section \<open>Validation, loop by loop\<close>

text \<open>The loop over one list of ports, with the names seen so far.\<close>

fun check_ports :: "string \<Rightarrow> port list \<Rightarrow> string set \<Rightarrow> kernel_error + unit" where
  "check_ports node_id [] names = Inr ()"
| "check_ports node_id (p # ps) names =
     (if port_name p = [] \<or> port_traits p = [] \<or> port_name p \<in> names
      then Inl (Invalid (node_id @ '' has an empty or duplicate typed port''))
      else if list_ex (\<lambda>f. f = []) (port_traits p)
      then Inl (Invalid (node_id @ ''.'' @ port_name p @ '' has an empty trait ref''))
      else check_ports node_id ps (insert (port_name p) names))"

text \<open>The loop over the nodes, which fills the map \<open>nodes\<close>.\<close>

fun check_nodes ::
  "kstate \<Rightarrow> assembly_node list \<Rightarrow> (string \<rightharpoonup> assembly_node) \<Rightarrow> kernel_error + (string \<rightharpoonup> assembly_node)" where
  "check_nodes s [] nodes = Inr nodes"
| "check_nodes s (node # rest) nodes =
     (if an_id node = [] \<or> nodes (an_id node) \<noteq> None
      then Inl (Invalid (''duplicate or empty node id: '' @ an_id node))
      else case capability_for_node s node of Inl e \<Rightarrow> Inl e | Inr cap \<Rightarrow>
           case check_ports (an_id node) (cap_inputs cap) {} of Inl e \<Rightarrow> Inl e | Inr _ \<Rightarrow>
           case check_ports (an_id node) (cap_outputs cap) {} of Inl e \<Rightarrow> Inl e | Inr _ \<Rightarrow>
           check_nodes s rest (nodes(an_id node \<mapsto> node)))"

definition check_terminal :: "kstate \<Rightarrow> (string \<rightharpoonup> assembly_node) \<Rightarrow> node_output \<Rightarrow> kernel_error + unit" where
  "check_terminal s nodes terminal =
     (case nodes (no_node terminal) of
        None \<Rightarrow> Inl (Invalid ''terminal node does not exist'')
      | Some terminal_node \<Rightarrow>
          case capability_for_node s terminal_node of Inl e \<Rightarrow> Inl e | Inr cap \<Rightarrow>
          case find_port (cap_outputs cap) (no_port terminal) of
            None \<Rightarrow> Inl (Invalid ''terminal output port does not exist'')
          | Some p \<Rightarrow> if port_multiple p then Inl (Invalid ''terminal output must be scalar'') else Inr ())"

text \<open>The loop over the run inputs, which fills the map \<open>named_inputs\<close>.\<close>

fun check_inputs ::
  "kstate \<Rightarrow> named_artifact list \<Rightarrow> (string \<rightharpoonup> named_artifact) \<Rightarrow> kernel_error + (string \<rightharpoonup> named_artifact)" where
  "check_inputs s [] named = Inr named"
| "check_inputs s (input # rest) named =
     (if na_name input = [] \<or> named (na_name input) \<noteq> None
      then Inl (Invalid (''duplicate or empty run input: '' @ na_name input))
      else case na_artifact input of
             None \<Rightarrow> Inl (Invalid (''input '' @ na_name input @ '' has no artifact''))
           | Some r \<Rightarrow>
               if ks_artifacts s (aref_id r) = None then Inl (NotFound (aref_id r))
               else check_inputs s rest (named(na_name input \<mapsto> input)))"

text \<open>The source of one binding, checked against the target port.\<close>

definition check_source ::
  "kstate \<Rightarrow> (string \<rightharpoonup> assembly_node) \<Rightarrow> (string \<rightharpoonup> named_artifact) \<Rightarrow> binding \<Rightarrow> port \<Rightarrow> kernel_error + unit" where
  "check_source s nodes named b target =
     (let upstream = (bd_from_node b \<noteq> [] \<or> bd_from_port b \<noteq> []);
          external = (bd_input b \<noteq> [])
      in if upstream = external then Inl (Invalid ''binding must have exactly one source'')
         else if external then
           (case named (bd_input b) of
              None \<Rightarrow> Inl (Invalid (''run input '' @ bd_input b @ '' is unknown''))
            | Some input \<Rightarrow>
                (case Option.bind (na_artifact input) (\<lambda>r. ks_artifacts s (aref_id r)) of
                   None \<Rightarrow> Inr ()
                 | Some art \<Rightarrow>
                     if \<not> has_traits art (port_traits target)
                     then Inl (Invalid (''trait set mismatch at '' @ bd_to_node b @ ''.'' @ bd_to_port b @
                            '': input artifact missing required traits '' @ debug_strs (port_traits target)))
                     else Inr ()))
         else
           (case nodes (bd_from_node b) of
              None \<Rightarrow> Inl (Invalid (''binding source '' @ bd_from_node b @ '' is unknown''))
            | Some source_node \<Rightarrow>
                case capability_for_node s source_node of Inl e \<Rightarrow> Inl e | Inr cap \<Rightarrow>
                (case find_port (cap_outputs cap) (bd_from_port b) of
                   None \<Rightarrow> Inl (Invalid (''output port '' @ bd_from_node b @ ''.'' @ bd_from_port b @ '' is unknown''))
                 | Some source \<Rightarrow>
                     if \<not> trait_set_covers (port_traits source) (port_traits target)
                     then Inl (Invalid (''trait set mismatch at '' @ bd_to_node b @ ''.'' @ bd_to_port b @
                            '': source guarantees '' @ debug_strs (port_traits source) @
                            '' does not cover '' @ debug_strs (port_traits target)))
                     else Inr ())))"

text \<open>\<open>edges.entry(from).or_default().push(to)\<close>.\<close>

definition push_edge :: "string \<Rightarrow> string \<Rightarrow> (string \<times> string list) list \<Rightarrow> (string \<times> string list) list" where
  "push_edge a b E = AList.update a ((case map_of E a of None \<Rightarrow> [] | Some l \<Rightarrow> l) @ [b]) E"

text \<open>The loop over the bindings, which fills \<open>counts\<close> and \<open>edges\<close>.\<close>

fun check_bindings ::
  "kstate \<Rightarrow> (string \<rightharpoonup> assembly_node) \<Rightarrow> (string \<rightharpoonup> named_artifact) \<Rightarrow> binding list \<Rightarrow>
   (string \<times> string \<Rightarrow> nat) \<Rightarrow> (string \<times> string list) list \<Rightarrow>
   kernel_error + (string \<times> string \<Rightarrow> nat) \<times> (string \<times> string list) list" where
  "check_bindings s nodes named [] counts edges = Inr (counts, edges)"
| "check_bindings s nodes named (b # bs) counts edges =
     (case nodes (bd_to_node b) of
        None \<Rightarrow> Inl (Invalid (''binding target '' @ bd_to_node b @ '' is unknown''))
      | Some target_node \<Rightarrow>
          case capability_for_node s target_node of Inl e \<Rightarrow> Inl e | Inr cap \<Rightarrow>
          (case find_port (cap_inputs cap) (bd_to_port b) of
             None \<Rightarrow> Inl (Invalid (''input port '' @ bd_to_node b @ ''.'' @ bd_to_port b @ '' is unknown''))
           | Some target \<Rightarrow>
               case check_source s nodes named b target of Inl e \<Rightarrow> Inl e | Inr _ \<Rightarrow>
               check_bindings s nodes named bs
                 (counts((bd_to_node b, bd_to_port b) := counts (bd_to_node b, bd_to_port b) + 1))
                 (if bd_input b \<noteq> [] then edges else push_edge (bd_from_node b) (bd_to_node b) edges)))"

text \<open>The loop over the nodes and their input ports, for the number of bindings of each.\<close>

definition check_port_count :: "(string \<times> string \<Rightarrow> nat) \<Rightarrow> assembly_node \<Rightarrow> port \<Rightarrow> kernel_error + unit" where
  "check_port_count counts node input =
     (let n = counts (an_id node, port_name input) in
      if n = 0 \<and> \<not> port_optional input
      then Inl (Invalid (''required input '' @ an_id node @ ''.'' @ port_name input @ '' is unbound''))
      else if 1 < n \<and> \<not> port_multiple input
      then Inl (Invalid (''input '' @ an_id node @ ''.'' @ port_name input @ '' is not multiple''))
      else Inr ())"

definition check_counts :: "kstate \<Rightarrow> (string \<times> string \<Rightarrow> nat) \<Rightarrow> assembly_node \<Rightarrow> kernel_error + unit" where
  "check_counts s counts node =
     (case capability_for_node s node of Inl e \<Rightarrow> Inl e
      | Inr cap \<Rightarrow> try_each (check_port_count counts node) (cap_inputs cap))"

section \<open>The cycle check\<close>

definition next_nodes :: "(string \<times> string list) list \<Rightarrow> string \<Rightarrow> string list" where
  "next_nodes E n = (case map_of E n of None \<Rightarrow> [] | Some l \<Rightarrow> l)"

text \<open>
  \<open>visit\<close> on each node of a list, in order, until one of them reports a cycle: the inner loop of
  \<open>visit\<close> over the successors of a node and the outer loop over all nodes are both this
  function. It returns the verdict with the sets \<open>visiting\<close> and \<open>done\<close>.
\<close>

function visit_all ::
  "(string \<times> string list) list \<Rightarrow> string list \<Rightarrow> string set \<Rightarrow> string set \<Rightarrow> bool \<times> string set \<times> string set" where
  "visit_all E [] visiting finished = (True, visiting, finished)"
| "visit_all E (node # rest) visiting finished =
     (if node \<in> finished then visit_all E rest visiting finished
      else if node \<in> visiting then (False, visiting, finished)
      else case visit_all E (next_nodes E node) (insert node visiting) finished of
             (ok, visiting', finished') \<Rightarrow>
               if \<not> ok then (False, visiting', finished')
               else visit_all E rest (visiting' - {node}) (insert node finished'))"
  by pat_completeness auto

text \<open>A visit that finds no cycle leaves \<open>visiting\<close> as it was; the termination proof needs it.\<close>

lemma visit_all_restores_dom:
  "visit_all_dom (E, ns, V, D) \<Longrightarrow> visit_all E ns V D = (True, V', D') \<Longrightarrow> V' = V"
proof (induction E ns V D arbitrary: V' D' rule: visit_all.pinduct)
  case (1 E V D)
  then show ?case by (simp add: visit_all.psimps)
next
  case (2 E n ns V D)
  show ?case
  proof (cases "n \<in> D \<or> n \<in> V")
    case True
    with 2 show ?thesis by (auto simp: visit_all.psimps split: if_splits)
  next
    case False
    obtain ok V1 D1 where r: "visit_all E (next_nodes E n) (insert n V) D = (ok, V1, D1)"
      by (metis prod_cases3)
    with 2 False have ok: ok and rest: "visit_all E ns (V1 - {n}) (insert n D1) = (True, V', D')"
      by (auto simp: visit_all.psimps split: if_splits)
    from False have no: "n \<notin> D" "n \<notin> V" by simp_all
    have "V1 = insert n V" using "2.IH"(2) [OF no] r ok by simp
    moreover have "V' = V1 - {n}"
      using "2.IH"(3) [OF no r [symmetric] refl] ok rest by simp
    ultimately show ?thesis using no by auto
  qed
qed

lemma finite_keys_psubset:
  assumes "n \<in> set (map fst E)" "n \<notin> V"
  shows "card (set (map fst E) - insert n V) < card (set (map fst E) - V)"
  using assms by (intro psubset_card_mono) auto

termination visit_all
proof (relation "inv_image (less_than <*lex*> less_than)
    (\<lambda>(E, ns, V, D). (card (set (map fst E) - V), length ns))")
  fix E :: "(string \<times> string list) list" and n :: string and ns V D
  assume "n \<notin> D" "n \<notin> V"
  show "((E, next_nodes E n, insert n V, D), E, n # ns, V, D)
    \<in> inv_image (less_than <*lex*> less_than) (\<lambda>(E, ns, V, D). (card (set (map fst E) - V), length ns))"
  proof (cases "n \<in> set (map fst E)")
    case True
    with \<open>n \<notin> V\<close> show ?thesis using finite_keys_psubset [of n E V] by simp
  next
    case False
    then have "map_of E n = None" by (simp add: map_of_eq_None_iff)
    then have "next_nodes E n = []" by (simp add: next_nodes_def)
    moreover have "set (map fst E) - insert n V = set (map fst E) - V" using False by auto
    ultimately show ?thesis by simp
  qed
next
  fix E :: "(string \<times> string list) list" and n :: string and ns V D ok y V' D'
  assume "n \<notin> D" "n \<notin> V" and "(ok, y) = visit_all E (next_nodes E n) (insert n V) D"
    and "(V', D') = y" and "\<not> \<not> ok"
    and dom: "visit_all_dom (E, next_nodes E n, insert n V, D)"
  then have "visit_all E (next_nodes E n) (insert n V) D = (True, V', D')" by auto
  with dom have "V' = insert n V" by (rule visit_all_restores_dom)
  with \<open>n \<notin> V\<close> have "V' - {n} = V" by simp
  then show "((E, ns, V' - {n}, insert n D'), E, n # ns, V, D)
    \<in> inv_image (less_than <*lex*> less_than) (\<lambda>(E, ns, V, D). (card (set (map fst E) - V), length ns))"
    by simp
qed auto

lemma visit_all_Cons:
  "visit_all E (n # ns) V D =
     (if n \<in> D then visit_all E ns V D
      else if n \<in> V then (False, V, D)
      else let r = visit_all E (next_nodes E n) (insert n V) D
           in if \<not> fst r then r else visit_all E ns (fst (snd r) - {n}) (insert n (snd (snd r))))"
  by (simp add: Let_def split_beta prod_eq_iff)

declare visit_all.simps(2) [simp del]

lemma visit_all_restores: "fst (visit_all E ns V D) \<Longrightarrow> fst (snd (visit_all E ns V D)) = V"
proof (induction E ns V D rule: visit_all.induct)
  case (2 E n ns V D)
  let ?r = "visit_all E (next_nodes E n) (insert n V) D"
  obtain ok V1 D1 where r: "?r = (ok, V1, D1)" by (metis prod_cases3)
  from 2 r show ?case
    by (cases "n \<in> D"; cases "n \<in> V"; cases ok) (simp_all add: visit_all_Cons Let_def)
qed simp

text \<open>One step of a visit that succeeds.\<close>

lemma visit_all_ok_Cons:
  assumes "visit_all E (n # ns) V D = (True, V', D')" "n \<notin> D"
  obtains D1 where "n \<notin> V" "visit_all E (next_nodes E n) (insert n V) D = (True, insert n V, D1)"
    "visit_all E ns V (insert n D1) = (True, V', D')"
proof -
  let ?r = "visit_all E (next_nodes E n) (insert n V) D"
  obtain ok V1 D1 where r: "?r = (ok, V1, D1)" by (metis prod_cases3)
  from assms r have "n \<notin> V" ok by (auto simp: visit_all_Cons Let_def split: if_splits)
  moreover have "V1 = insert n V" using visit_all_restores [of E "next_nodes E n" "insert n V" D] r \<open>ok\<close> by simp
  ultimately show ?thesis using that assms r by (simp add: visit_all_Cons Let_def)
qed

definition edge_rel :: "(string \<times> string list) list \<Rightarrow> (string \<times> string) set" where
  "edge_rel E = {(a, b). b \<in> set (next_nodes E a)}"

text \<open>The nodes of \<open>finished\<close> are closed under edges and lie on no cycle.\<close>

definition done_ok :: "(string \<times> string list) list \<Rightarrow> string set \<Rightarrow> bool" where
  "done_ok E D \<longleftrightarrow> edge_rel E `` D \<subseteq> D \<and> acyclic (edge_rel E \<inter> D \<times> D)"

lemma done_ok_insert:
  assumes "done_ok E D" "set (next_nodes E n) \<subseteq> D" "n \<notin> D"
  shows "done_ok E (insert n D)"
proof -
  let ?R = "edge_rel E \<inter> D \<times> D" and ?S = "edge_rel E \<inter> insert n D \<times> insert n D"
  have closed: "\<And>a b. (a, b) \<in> edge_rel E \<Longrightarrow> a \<in> D \<Longrightarrow> b \<in> D" using assms(1) by (auto simp: done_ok_def)
  have succ: "\<And>b. (n, b) \<in> edge_rel E \<Longrightarrow> b \<in> D" using assms(2) by (auto simp: edge_rel_def)
  have path: "b \<in> D \<and> (a \<in> D \<longrightarrow> (a, b) \<in> ?R\<^sup>+)" if "(a, b) \<in> ?S\<^sup>+" for a b
    using that
  proof (induction rule: trancl_induct)
    case (base b)
    then show ?case using closed succ by auto
  next
    case (step b c)
    then have "b \<in> D" "(b, c) \<in> edge_rel E" by auto
    with closed have "(b, c) \<in> ?R" by auto
    with step show ?case by (auto intro: trancl_into_trancl)
  qed
  have "acyclic ?S"
    unfolding acyclic_def using path assms(1) by (metis acyclic_def done_ok_def)
  with closed succ show ?thesis by (auto simp: done_ok_def)
qed

lemma visit_all_sound:
  assumes "visit_all E ns V D = (True, V', D')" "done_ok E D"
  shows "done_ok E D' \<and> D \<subseteq> D' \<and> set ns \<subseteq> D'"
  using assms
proof (induction E ns V D arbitrary: V' D' rule: visit_all.induct)
  case (2 E n ns V D)
  show ?case
  proof (cases "n \<in> D")
    case True
    with 2 show ?thesis by (auto simp: visit_all_Cons)
  next
    case False
    with "2.prems"(1) obtain D1 where D1: "n \<notin> V"
      "visit_all E (next_nodes E n) (insert n V) D = (True, insert n V, D1)"
      "visit_all E ns V (insert n D1) = (True, V', D')" by (rule visit_all_ok_Cons)
    from "2.IH"(2) [OF False D1(1,2) "2.prems"(2)]
    have ok1: "done_ok E D1" "D \<subseteq> D1" "set (next_nodes E n) \<subseteq> D1" by auto
    then have "done_ok E (insert n D1)" by (cases "n \<in> D1") (simp_all add: insert_absorb done_ok_insert)
    moreover have "visit_all E ns (insert n V - {n}) (insert n D1) = (True, V', D')" using D1 by simp
    ultimately have "done_ok E D' \<and> insert n D1 \<subseteq> D' \<and> set ns \<subseteq> D'"
      using "2.IH"(3) [OF False D1(1) D1(2) [symmetric] refl] by simp
    with ok1 show ?thesis by auto
  qed
qed simp

lemma visit_all_cycle:
  assumes "visit_all E ns V D = (False, V', D')" "\<forall>v \<in> V. \<forall>n \<in> set ns. (v, n) \<in> (edge_rel E)\<^sup>+"
  shows "\<not> acyclic (edge_rel E)"
  using assms
proof (induction E ns V D arbitrary: V' D' rule: visit_all.induct)
  case (2 E n ns V D)
  obtain ok V1 D1 where r: "visit_all E (next_nodes E n) (insert n V) D = (ok, V1, D1)" by (metis prod_cases3)
  consider "n \<in> D" | "n \<notin> D" "n \<in> V" | "n \<notin> D" "n \<notin> V" by blast
  then show ?case
  proof cases
    case 1
    with 2 show ?thesis by (simp add: visit_all_Cons)
  next
    case 2
    with "2.prems"(2) show ?thesis by (auto simp: acyclic_def)
  next
    case 3
    show ?thesis
    proof (cases ok)
      case False
      have "(v, m) \<in> (edge_rel E)\<^sup>+" if "v \<in> insert n V" "m \<in> set (next_nodes E n)" for v m
      proof -
        from that(2) have "(n, m) \<in> edge_rel E" by (simp add: edge_rel_def)
        with that(1) "2.prems"(2) show ?thesis by (auto intro: trancl_into_trancl)
      qed
      moreover have "visit_all E (next_nodes E n) (insert n V) D = (False, V1, D1)" using r False by simp
      ultimately show ?thesis using "2.IH"(2) [OF 3, of V1 D1] by simp
    next
      case True
      then have "V1 = insert n V"
        using visit_all_restores [of E "next_nodes E n" "insert n V" D] r by simp
      moreover have "visit_all E ns (V1 - {n}) (insert n D1) = (False, V', D')"
        using "2.prems"(1) 3 r True by (simp add: visit_all_Cons Let_def)
      moreover have "insert n V - {n} = V" using 3 by simp
      moreover have "\<forall>v \<in> V. \<forall>m \<in> set ns. (v, m) \<in> (edge_rel E)\<^sup>+" using "2.prems"(2) by simp
      ultimately show ?thesis
        using "2.IH"(3) [OF 3 r [symmetric] refl, of V' D'] True by simp
    qed
  qed
qed simp

definition has_no_cycle :: "(string \<times> string list) list \<Rightarrow> string list \<Rightarrow> bool" where
  "has_no_cycle E keys = fst (visit_all E keys {} {})"

text \<open>
  The check is exact: started on every node that has an outgoing edge, in any order, it accepts
  if and only if the edges form no cycle.
\<close>

lemma has_no_cycle_iff:
  assumes "fst ` edge_rel E \<subseteq> set keys"
  shows "has_no_cycle E keys \<longleftrightarrow> acyclic (edge_rel E)"
proof -
  obtain ok V D where r: "visit_all E keys {} {} = (ok, V, D)" by (metis prod_cases3)
  show ?thesis
  proof (cases ok)
    case True
    with r have "done_ok E D" "set keys \<subseteq> D"
      using visit_all_sound [of E keys "{}" "{}" V D] by (simp_all add: done_ok_def acyclic_def)
    moreover from this assms have "edge_rel E \<inter> D \<times> D = edge_rel E"
      by (force simp: done_ok_def)
    ultimately show ?thesis using r True by (simp add: has_no_cycle_def done_ok_def)
  next
    case False
    with r visit_all_cycle [of E keys "{}" "{}" V D] show ?thesis by (simp add: has_no_cycle_def)
  qed
qed

section \<open>validate\_assembly\<close>

text \<open>\<open>for node in nodes.keys()\<close> runs in the hash map's order.\<close>

definition validate_assembly ::
  "ext \<Rightarrow> kstate \<Rightarrow> assembly \<Rightarrow> named_artifact list \<Rightarrow> kernel_error + unit" where
  "validate_assembly X s a inputs =
     (if as_id a = [] then Inl (Invalid ''assembly id is required'')
      else if as_nodes a = [] then Inl (Invalid ''assembly has no nodes'')
      else case as_terminal a of None \<Rightarrow> Inl (Invalid ''assembly terminal is required'') | Some terminal \<Rightarrow>
           case check_nodes s (as_nodes a) Map.empty of Inl e \<Rightarrow> Inl e | Inr nodes \<Rightarrow>
           case check_terminal s nodes terminal of Inl e \<Rightarrow> Inl e | Inr _ \<Rightarrow>
           case check_inputs s inputs Map.empty of Inl e \<Rightarrow> Inl e | Inr named \<Rightarrow>
           case check_bindings s nodes named (as_bindings a) (\<lambda>_. 0) [] of Inl e \<Rightarrow> Inl e | Inr (counts, edges) \<Rightarrow>
           case try_each (check_counts s counts) (as_nodes a) of Inl e \<Rightarrow> Inl e | Inr _ \<Rightarrow>
           if has_no_cycle edges (hash_order X (map an_id (as_nodes a))) then Inr ()
           else Inl (Invalid ''assembly contains a cycle''))"

section \<open>What a valid assembly is\<close>

definition ports_ok :: "port list \<Rightarrow> bool" where
  "ports_ok ps \<longleftrightarrow> distinct (map port_name ps) \<and>
     (\<forall>p \<in> set ps. port_name p \<noteq> [] \<and> port_traits p \<noteq> [] \<and> [] \<notin> set (port_traits p))"

definition node_ok :: "kstate \<Rightarrow> assembly_node \<Rightarrow> bool" where
  "node_ok s n \<longleftrightarrow> (\<exists>cap. node_matches s n = [cap] \<and> ports_ok (cap_inputs cap) \<and> ports_ok (cap_outputs cap))"

definition nodes_ok :: "kstate \<Rightarrow> assembly \<Rightarrow> bool" where
  "nodes_ok s a \<longleftrightarrow> distinct (map an_id (as_nodes a)) \<and> [] \<notin> an_id ` set (as_nodes a) \<and>
     (\<forall>n \<in> set (as_nodes a). node_ok s n)"

definition input_ok :: "kstate \<Rightarrow> named_artifact \<Rightarrow> bool" where
  "input_ok s i \<longleftrightarrow> (\<exists>r art. na_artifact i = Some r \<and> ks_artifacts s (aref_id r) = Some art)"

definition inputs_ok :: "kstate \<Rightarrow> named_artifact list \<Rightarrow> bool" where
  "inputs_ok s inputs \<longleftrightarrow> distinct (map na_name inputs) \<and> [] \<notin> na_name ` set inputs \<and>
     (\<forall>i \<in> set inputs. input_ok s i)"

text \<open>The ports of a node of the assembly: those of the one capability that its module provides.\<close>

definition in_port :: "kstate \<Rightarrow> assembly \<Rightarrow> string \<Rightarrow> string \<Rightarrow> port \<Rightarrow> bool" where
  "in_port s a node name p \<longleftrightarrow> (\<exists>n \<in> set (as_nodes a). \<exists>cap. an_id n = node \<and>
     node_matches s n = [cap] \<and> p \<in> set (cap_inputs cap) \<and> port_name p = name)"

definition out_port :: "kstate \<Rightarrow> assembly \<Rightarrow> string \<Rightarrow> string \<Rightarrow> port \<Rightarrow> bool" where
  "out_port s a node name p \<longleftrightarrow> (\<exists>n \<in> set (as_nodes a). \<exists>cap. an_id n = node \<and>
     node_matches s n = [cap] \<and> p \<in> set (cap_outputs cap) \<and> port_name p = name)"

definition bound_artifact :: "kstate \<Rightarrow> named_artifact list \<Rightarrow> string \<Rightarrow> artifact \<Rightarrow> bool" where
  "bound_artifact s inputs name art \<longleftrightarrow> (\<exists>i \<in> set inputs. \<exists>r. na_name i = name \<and>
     na_artifact i = Some r \<and> ks_artifacts s (aref_id r) = Some art)"

definition binding_ok :: "kstate \<Rightarrow> assembly \<Rightarrow> named_artifact list \<Rightarrow> binding \<Rightarrow> bool" where
  "binding_ok s a inputs b \<longleftrightarrow> (\<exists>target. in_port s a (bd_to_node b) (bd_to_port b) target \<and>
     (if bd_input b \<noteq> []
      then bd_from_node b = [] \<and> bd_from_port b = [] \<and>
           (\<exists>art. bound_artifact s inputs (bd_input b) art \<and> has_traits art (port_traits target))
      else (\<exists>source. out_port s a (bd_from_node b) (bd_from_port b) source \<and>
              set (port_traits target) \<subseteq> set (port_traits source))))"

definition binding_count :: "assembly \<Rightarrow> string \<Rightarrow> string \<Rightarrow> nat" where
  "binding_count a node name =
     length (filter (\<lambda>b. bd_to_node b = node \<and> bd_to_port b = name) (as_bindings a))"

definition node_edges :: "binding list \<Rightarrow> (string \<times> string) set" where
  "node_edges bs = {(bd_from_node b, bd_to_node b) |b. b \<in> set bs \<and> bd_input b = []}"

definition well_formed_assembly :: "kstate \<Rightarrow> assembly \<Rightarrow> named_artifact list \<Rightarrow> bool" where
  "well_formed_assembly s a inputs \<longleftrightarrow>
     as_id a \<noteq> [] \<and> as_nodes a \<noteq> [] \<and> nodes_ok s a \<and>
     (\<exists>t p. as_terminal a = Some t \<and> out_port s a (no_node t) (no_port t) p \<and> \<not> port_multiple p) \<and>
     inputs_ok s inputs \<and>
     (\<forall>b \<in> set (as_bindings a). binding_ok s a inputs b) \<and>
     (\<forall>node name p. in_port s a node name p \<longrightarrow>
        (0 < binding_count a node name \<or> port_optional p) \<and>
        (binding_count a node name \<le> 1 \<or> port_multiple p)) \<and>
     acyclic (node_edges (as_bindings a))"

section \<open>The loops meet their parts of the specification\<close>

lemma capability_for_node_iff: "capability_for_node s n = Inr cap \<longleftrightarrow> node_matches s n = [cap]"
  by (auto simp: capability_for_node_def split: list.splits)

lemma check_ports_iff:
  "check_ports i ps names = Inr () \<longleftrightarrow> ports_ok ps \<and> names \<inter> port_name ` set ps = {}"
  by (induction ps arbitrary: names) (auto simp: ports_ok_def list_ex_iff)

text \<open>The maps that the loops fill: the elements by their keys.\<close>

definition keyed :: "('a \<Rightarrow> 'k) \<Rightarrow> 'a list \<Rightarrow> 'k \<rightharpoonup> 'a" where
  "keyed f xs = map_of (map (\<lambda>x. (f x, x)) xs)"

lemma keyed_Some: "distinct (map f xs) \<Longrightarrow> keyed f xs k = Some x \<longleftrightarrow> x \<in> set xs \<and> f x = k"
  unfolding keyed_def by (subst map_of_eq_Some_iff) (auto simp: comp_def)

lemma keyed_None: "keyed f xs k = None \<longleftrightarrow> k \<notin> f ` set xs"
  by (auto simp: keyed_def map_of_eq_None_iff image_image)

lemma keyed_Cons: "f x \<notin> f ` set xs \<Longrightarrow> m(f x \<mapsto> x) ++ keyed f xs = m ++ keyed f (x # xs)"
  by (rule ext) (auto simp: keyed_None map_add_def keyed_def split: option.splits
      dest!: map_of_SomeD)

lemma fresh_Cons:
  "m k = None \<and> k \<notin> S \<and> dom m \<inter> S = {} \<longleftrightarrow> k \<notin> S \<and> dom m \<inter> insert k S = {}"
  "dom (m(k \<mapsto> x)) \<inter> S = {} \<longleftrightarrow> k \<notin> S \<and> dom m \<inter> S = {}"
  by auto

lemma check_nodes_iff:
  "check_nodes s ns m = Inr m' \<longleftrightarrow>
     distinct (map an_id ns) \<and> [] \<notin> an_id ` set ns \<and> dom m \<inter> an_id ` set ns = {} \<and>
     (\<forall>n \<in> set ns. node_ok s n) \<and> m' = m ++ keyed an_id ns"
proof (induction ns arbitrary: m)
  case Nil
  show ?case by (auto simp: keyed_def)
next
  case (Cons n ns)
  have "check_nodes s (n # ns) m = Inr m' \<longleftrightarrow>
      an_id n \<noteq> [] \<and> m (an_id n) = None \<and> node_ok s n \<and> check_nodes s ns (m(an_id n \<mapsto> n)) = Inr m'"
    by (auto simp: capability_for_node_iff check_ports_iff node_ok_def case_sum_Inr)
  also have "\<dots> \<longleftrightarrow> an_id n \<noteq> [] \<and> m (an_id n) = None \<and> node_ok s n \<and> an_id n \<notin> an_id ` set ns \<and>
      distinct (map an_id ns) \<and> [] \<notin> an_id ` set ns \<and> dom m \<inter> an_id ` set ns = {} \<and>
      (\<forall>n \<in> set ns. node_ok s n) \<and> m' = m ++ keyed an_id (n # ns)"
    using keyed_Cons [of an_id n ns m] unfolding Cons.IH fresh_Cons(2) by auto
  also have "\<dots> \<longleftrightarrow> distinct (map an_id (n # ns)) \<and> [] \<notin> an_id ` set (n # ns) \<and>
      dom m \<inter> an_id ` set (n # ns) = {} \<and> (\<forall>n \<in> set (n # ns). node_ok s n) \<and> m' = m ++ keyed an_id (n # ns)"
    using fresh_Cons(1) [of m "an_id n" "an_id ` set ns"] by auto
  finally show ?case .
qed

lemma check_inputs_iff:
  "check_inputs s ins m = Inr m' \<longleftrightarrow>
     distinct (map na_name ins) \<and> [] \<notin> na_name ` set ins \<and> dom m \<inter> na_name ` set ins = {} \<and>
     (\<forall>i \<in> set ins. input_ok s i) \<and> m' = m ++ keyed na_name ins"
proof (induction ins arbitrary: m)
  case Nil
  show ?case by (auto simp: keyed_def)
next
  case (Cons i ins)
  have "check_inputs s (i # ins) m = Inr m' \<longleftrightarrow>
      na_name i \<noteq> [] \<and> m (na_name i) = None \<and> input_ok s i \<and> check_inputs s ins (m(na_name i \<mapsto> i)) = Inr m'"
    by (auto simp: input_ok_def split: option.splits)
  also have "\<dots> \<longleftrightarrow> na_name i \<noteq> [] \<and> m (na_name i) = None \<and> input_ok s i \<and> na_name i \<notin> na_name ` set ins \<and>
      distinct (map na_name ins) \<and> [] \<notin> na_name ` set ins \<and> dom m \<inter> na_name ` set ins = {} \<and>
      (\<forall>i \<in> set ins. input_ok s i) \<and> m' = m ++ keyed na_name (i # ins)"
    using keyed_Cons [of na_name i ins m] unfolding Cons.IH fresh_Cons(2) by auto
  also have "\<dots> \<longleftrightarrow> distinct (map na_name (i # ins)) \<and> [] \<notin> na_name ` set (i # ins) \<and>
      dom m \<inter> na_name ` set (i # ins) = {} \<and> (\<forall>i \<in> set (i # ins). input_ok s i) \<and> m' = m ++ keyed na_name (i # ins)"
    using fresh_Cons(1) [of m "na_name i" "na_name ` set ins"] by auto
  finally show ?case .
qed

lemma find_port_iff:
  "distinct (map port_name ps) \<Longrightarrow> find_port ps name = Some p \<longleftrightarrow> p \<in> set ps \<and> port_name p = name"
  by (induction ps) (auto simp: find_port_def)

subsection \<open>The bindings\<close>

definition check_binding ::
  "kstate \<Rightarrow> (string \<rightharpoonup> assembly_node) \<Rightarrow> (string \<rightharpoonup> named_artifact) \<Rightarrow> binding \<Rightarrow> bool" where
  "check_binding s nodes named b \<longleftrightarrow> (\<exists>n cap p. nodes (bd_to_node b) = Some n \<and> node_matches s n = [cap] \<and>
     find_port (cap_inputs cap) (bd_to_port b) = Some p \<and> check_source s nodes named b p = Inr ())"

lemma check_bindings_Cons:
  "check_bindings s nodes named (b # bs) counts edges = Inr r \<longleftrightarrow>
     check_binding s nodes named b \<and>
     check_bindings s nodes named bs
       (counts((bd_to_node b, bd_to_port b) := counts (bd_to_node b, bd_to_port b) + 1))
       (if bd_input b \<noteq> [] then edges else push_edge (bd_from_node b) (bd_to_node b) edges) = Inr r"
  by (auto simp: check_binding_def capability_for_node_iff case_sum_Inr split: option.splits)

lemma next_nodes_push:
  "next_nodes (push_edge a b E) n = (if n = a then next_nodes E a @ [b] else next_nodes E n)"
  by (simp add: next_nodes_def push_edge_def update_conv')

lemma edge_rel_push: "edge_rel (push_edge a b E) = insert (a, b) (edge_rel E)"
  by (auto simp: edge_rel_def next_nodes_push split: if_splits)

lemma node_edges_Cons:
  "node_edges (b # bs) = (if bd_input b \<noteq> [] then node_edges bs
                          else insert (bd_from_node b, bd_to_node b) (node_edges bs))"
  by (auto simp: node_edges_def)

lemma check_bindings_iff:
  "(\<exists>counts' edges'. check_bindings s nodes named bs counts edges = Inr (counts', edges')) \<longleftrightarrow>
     (\<forall>b \<in> set bs. check_binding s nodes named b)"
  by (induction bs arbitrary: counts edges)
    (simp_all add: check_bindings_Cons del: check_bindings.simps(2))

lemma check_bindings_result:
  assumes "check_bindings s nodes named bs counts edges = Inr (counts', edges')"
  shows "edge_rel edges' = edge_rel edges \<union> node_edges bs"
    and "counts' (n, p) = counts (n, p) + length (filter (\<lambda>b. bd_to_node b = n \<and> bd_to_port b = p) bs)"
  using assms
proof (induction bs arbitrary: counts edges)
  case Nil
  {
    case 1
    then show ?case by (simp add: node_edges_def)
  next
    case 2
    then show ?case by simp
  }
next
  case (Cons b bs)
  {
    case 1
    then show ?case
      using Cons.IH(1) unfolding check_bindings_Cons node_edges_Cons
      by (auto simp: edge_rel_push split: if_splits)
  next
    case 2
    then show ?case using Cons.IH(2) unfolding check_bindings_Cons by fastforce
  }
qed

lemma keyed_in_port:
  assumes "nodes_ok s a"
  shows "in_port s a node name p \<longleftrightarrow> (\<exists>n cap. keyed an_id (as_nodes a) node = Some n \<and>
    node_matches s n = [cap] \<and> find_port (cap_inputs cap) name = Some p)"
  using assms unfolding nodes_ok_def in_port_def node_ok_def ports_ok_def
  by (fastforce simp: keyed_Some find_port_iff)

lemma keyed_out_port:
  assumes "nodes_ok s a"
  shows "out_port s a node name p \<longleftrightarrow> (\<exists>n cap. keyed an_id (as_nodes a) node = Some n \<and>
    node_matches s n = [cap] \<and> find_port (cap_outputs cap) name = Some p)"
  using assms unfolding nodes_ok_def out_port_def node_ok_def ports_ok_def
  by (fastforce simp: keyed_Some find_port_iff)

lemma out_port_named: "nodes_ok s a \<Longrightarrow> out_port s a node name p \<Longrightarrow> node \<noteq> []"
  by (auto simp: nodes_ok_def out_port_def image_iff)

lemma keyed_input:
  assumes "inputs_ok s inputs" "keyed na_name inputs name = Some i"
  obtains r art where "na_artifact i = Some r" "ks_artifacts s (aref_id r) = Some art"
    "\<And>art'. bound_artifact s inputs name art' \<longleftrightarrow> art' = art"
proof -
  from assms have i: "i \<in> set inputs" "na_name i = name" and d: "distinct (map na_name inputs)"
    by (simp_all add: inputs_ok_def keyed_Some)
  with assms obtain r art where r: "na_artifact i = Some r" "ks_artifacts s (aref_id r) = Some art"
    by (auto simp: inputs_ok_def input_ok_def)
  have "j = i" if "j \<in> set inputs" "na_name j = name" for j
    using that i d by (metis distinct_map inj_onD)
  with i r have "bound_artifact s inputs name art' \<longleftrightarrow> art' = art" for art'
    unfolding bound_artifact_def by force
  with r show ?thesis by (rule that)
qed

lemma check_source_external:
  assumes "inputs_ok s inputs" "bd_input b \<noteq> []"
  shows "check_source s nodes (keyed na_name inputs) b target = Inr () \<longleftrightarrow>
    bd_from_node b = [] \<and> bd_from_port b = [] \<and>
    (\<exists>art. bound_artifact s inputs (bd_input b) art \<and> has_traits art (port_traits target))"
proof (cases "keyed na_name inputs (bd_input b)")
  case None
  then have "\<not> bound_artifact s inputs (bd_input b) art" for art
    by (auto simp: keyed_None bound_artifact_def image_iff)
  with None assms show ?thesis by (simp add: check_source_def Let_def)
next
  case (Some i)
  with assms(1) obtain r art where "na_artifact i = Some r" "ks_artifacts s (aref_id r) = Some art"
    "\<And>art'. bound_artifact s inputs (bd_input b) art' \<longleftrightarrow> art' = art" by (rule keyed_input) blast
  with Some assms show ?thesis by (auto simp: check_source_def Let_def)
qed

lemma check_source_upstream:
  assumes "nodes_ok s a" "bd_input b = []"
  shows "check_source s (keyed an_id (as_nodes a)) named b target = Inr () \<longleftrightarrow>
    (\<exists>source. out_port s a (bd_from_node b) (bd_from_port b) source \<and>
      set (port_traits target) \<subseteq> set (port_traits source))" (is "?L \<longleftrightarrow> ?R")
proof -
  have "?L \<longleftrightarrow> (bd_from_node b \<noteq> [] \<or> bd_from_port b \<noteq> []) \<and>
      (\<exists>n cap source. keyed an_id (as_nodes a) (bd_from_node b) = Some n \<and> node_matches s n = [cap] \<and>
        find_port (cap_outputs cap) (bd_from_port b) = Some source \<and>
        set (port_traits target) \<subseteq> set (port_traits source))"
    using assms(2)
    by (auto simp: check_source_def Let_def case_sum_Inr case_option_Inr capability_for_node_iff
        trait_set_covers_alt)
  also have "\<dots> \<longleftrightarrow> ?R"
    using out_port_named [OF assms(1)] unfolding keyed_out_port [OF assms(1)] by blast
  finally show ?thesis .
qed

lemma check_binding_iff:
  assumes "nodes_ok s a" "inputs_ok s inputs"
  shows "check_binding s (keyed an_id (as_nodes a)) (keyed na_name inputs) b \<longleftrightarrow> binding_ok s a inputs b"
proof -
  have "check_binding s (keyed an_id (as_nodes a)) (keyed na_name inputs) b \<longleftrightarrow>
      (\<exists>target. in_port s a (bd_to_node b) (bd_to_port b) target \<and>
         check_source s (keyed an_id (as_nodes a)) (keyed na_name inputs) b target = Inr ())"
    unfolding check_binding_def keyed_in_port [OF assms(1)] by blast
  then show ?thesis
    by (cases "bd_input b = []")
      (simp_all add: binding_ok_def check_source_external assms check_source_upstream)
qed

subsection \<open>The terminal and the counts\<close>

lemma check_terminal_iff:
  assumes "nodes_ok s a"
  shows "check_terminal s (keyed an_id (as_nodes a)) t = Inr () \<longleftrightarrow>
    (\<exists>p. out_port s a (no_node t) (no_port t) p \<and> \<not> port_multiple p)"
  unfolding keyed_out_port [OF assms]
  by (auto simp: check_terminal_def case_sum_Inr case_option_Inr capability_for_node_iff)

lemma check_counts_iff:
  assumes "nodes_ok s a" "\<And>n p. counts (n, p) = binding_count a n p"
  shows "(\<forall>n \<in> set (as_nodes a). check_counts s counts n = Inr ()) \<longleftrightarrow>
    (\<forall>node name p. in_port s a node name p \<longrightarrow>
       (0 < binding_count a node name \<or> port_optional p) \<and>
       (binding_count a node name \<le> 1 \<or> port_multiple p))"
proof -
  have port: "check_port_count counts n p = Inr () \<longleftrightarrow>
      (0 < binding_count a (an_id n) (port_name p) \<or> port_optional p) \<and>
      (binding_count a (an_id n) (port_name p) \<le> 1 \<or> port_multiple p)" for n p
    by (auto simp: check_port_count_def assms(2) Let_def)
  have node: "check_counts s counts n = Inr () \<longleftrightarrow>
      (\<forall>cap p. node_matches s n = [cap] \<longrightarrow> p \<in> set (cap_inputs cap) \<longrightarrow> check_port_count counts n p = Inr ())"
    if "n \<in> set (as_nodes a)" for n
  proof -
    from that assms(1) obtain cap where "node_matches s n = [cap]" by (auto simp: nodes_ok_def node_ok_def)
    then show ?thesis by (auto simp: check_counts_def capability_for_node_def)
  qed
  show ?thesis by (simp add: node in_port_def port) blast
qed

section \<open>The validator accepts exactly the valid assemblies\<close>

lemma order_permutes_set: "order_permutes X \<Longrightarrow> set (hash_order X ks) = set ks"
  unfolding order_permutes_def by (metis set_mset_mset)

lemma validate_assembly_unfold:
  "validate_assembly X s a inputs = Inr () \<longleftrightarrow>
     as_id a \<noteq> [] \<and> as_nodes a \<noteq> [] \<and>
     (\<exists>terminal nodes named counts edges. as_terminal a = Some terminal \<and>
        check_nodes s (as_nodes a) Map.empty = Inr nodes \<and>
        check_terminal s nodes terminal = Inr () \<and>
        check_inputs s inputs Map.empty = Inr named \<and>
        check_bindings s nodes named (as_bindings a) (\<lambda>_. 0) [] = Inr (counts, edges) \<and>
        (\<forall>n \<in> set (as_nodes a). check_counts s counts n = Inr ()) \<and>
        has_no_cycle edges (hash_order X (map an_id (as_nodes a))))"
  by (simp add: validate_assembly_def case_sum_Inr case_option_Inr) blast

lemma edges_from_nodes:
  assumes "nodes_ok s a" "\<forall>b \<in> set (as_bindings a). binding_ok s a inputs b"
  shows "fst ` node_edges (as_bindings a) \<subseteq> an_id ` set (as_nodes a)"
  using assms(2) by (force simp: node_edges_def binding_ok_def out_port_def)

text \<open>
  The validator implements its specification: \<open>validate_assembly\<close> accepts an assembly with its run inputs if and only if they
  are well formed, whatever the order in which the hash map hands out the nodes: every node has a
  unique id and exactly one capability with well-typed ports, the terminal is a scalar output, the
  inputs name stored artifacts, every binding has one source whose traits cover the target port,
  every port has a permitted number of bindings, and the upstream bindings form no cycle.
\<close>

lemma validate_assembly_iff:
  assumes "order_permutes X"
  shows "validate_assembly X s a inputs = Inr () \<longleftrightarrow> well_formed_assembly s a inputs"
proof (cases "nodes_ok s a \<and> inputs_ok s inputs")
  case False
  then show ?thesis
    by (auto simp: validate_assembly_unfold well_formed_assembly_def check_nodes_iff check_inputs_iff
        nodes_ok_def inputs_ok_def)
next
  case True
  let ?N = "keyed an_id (as_nodes a)" and ?I = "keyed na_name inputs"
  from True have N: "check_nodes s (as_nodes a) Map.empty = Inr m \<longleftrightarrow> m = ?N" for m
    by (auto simp: check_nodes_iff nodes_ok_def)
  from True have I: "check_inputs s inputs Map.empty = Inr m \<longleftrightarrow> m = ?I" for m
    by (auto simp: check_inputs_iff inputs_ok_def)
  have B: "(\<exists>c e. check_bindings s ?N ?I (as_bindings a) (\<lambda>_. 0) [] = Inr (c, e)) \<longleftrightarrow>
      (\<forall>b \<in> set (as_bindings a). binding_ok s a inputs b)"
    using True by (simp add: check_bindings_iff check_binding_iff)
  have "(\<forall>n \<in> set (as_nodes a). check_counts s c n = Inr ()) \<and>
        has_no_cycle e (hash_order X (map an_id (as_nodes a))) \<longleftrightarrow>
      (\<forall>node name p. in_port s a node name p \<longrightarrow>
        (0 < binding_count a node name \<or> port_optional p) \<and>
        (binding_count a node name \<le> 1 \<or> port_multiple p)) \<and>
      acyclic (node_edges (as_bindings a))"
    if r: "check_bindings s ?N ?I (as_bindings a) (\<lambda>_. 0) [] = Inr (c, e)" for c e
  proof -
    have c: "c (n, p) = binding_count a n p" for n p
      using check_bindings_result(2) [OF r] by (simp add: binding_count_def)
    have e: "edge_rel e = node_edges (as_bindings a)"
      using check_bindings_result(1) [OF r] by (simp add: edge_rel_def next_nodes_def)
    moreover have "fst ` node_edges (as_bindings a) \<subseteq> an_id ` set (as_nodes a)"
      using True B r edges_from_nodes by blast
    ultimately have "has_no_cycle e (hash_order X (map an_id (as_nodes a))) \<longleftrightarrow> acyclic (edge_rel e)"
      by (intro has_no_cycle_iff) (simp add: order_permutes_set [OF assms])
    with e c True check_counts_iff show ?thesis by simp
  qed
  note C = this
  have T: "check_terminal s ?N t = Inr () \<longleftrightarrow>
      (\<exists>p. out_port s a (no_node t) (no_port t) p \<and> \<not> port_multiple p)" for t
    using True by (simp add: check_terminal_iff)
  have "(\<exists>t c e. as_terminal a = Some t \<and> check_terminal s ?N t = Inr () \<and>
        check_bindings s ?N ?I (as_bindings a) (\<lambda>_. 0) [] = Inr (c, e) \<and>
        (\<forall>n \<in> set (as_nodes a). check_counts s c n = Inr ()) \<and>
        has_no_cycle e (hash_order X (map an_id (as_nodes a)))) \<longleftrightarrow>
      (\<exists>t. as_terminal a = Some t \<and> check_terminal s ?N t = Inr ()) \<and>
      (\<forall>b \<in> set (as_bindings a). binding_ok s a inputs b) \<and>
      (\<forall>node name p. in_port s a node name p \<longrightarrow>
        (0 < binding_count a node name \<or> port_optional p) \<and>
        (binding_count a node name \<le> 1 \<or> port_multiple p)) \<and>
      acyclic (node_edges (as_bindings a))" (is "?L \<longleftrightarrow> ?R")
  proof
    assume ?L
    then obtain t c e where t: "as_terminal a = Some t" "check_terminal s ?N t = Inr ()"
      and r: "check_bindings s ?N ?I (as_bindings a) (\<lambda>_. 0) [] = Inr (c, e)"
      and rest: "(\<forall>n \<in> set (as_nodes a). check_counts s c n = Inr ()) \<and>
        has_no_cycle e (hash_order X (map an_id (as_nodes a)))" by blast
    from t have "\<exists>t. as_terminal a = Some t \<and> check_terminal s ?N t = Inr ()" by blast
    moreover from r have "\<forall>b \<in> set (as_bindings a). binding_ok s a inputs b" unfolding B [symmetric] by blast
    ultimately show ?R using rest unfolding C [OF r] by blast
  next
    assume R: ?R
    then have "\<forall>b \<in> set (as_bindings a). binding_ok s a inputs b" by blast
    then obtain c e where r: "check_bindings s ?N ?I (as_bindings a) (\<lambda>_. 0) [] = Inr (c, e)"
      unfolding B [symmetric] by blast
    from R have "(\<forall>n \<in> set (as_nodes a). check_counts s c n = Inr ()) \<and>
        has_no_cycle e (hash_order X (map an_id (as_nodes a)))" unfolding C [OF r] by blast
    with R r show ?L by blast
  qed
  moreover have "validate_assembly X s a inputs = Inr () \<longleftrightarrow> as_id a \<noteq> [] \<and> as_nodes a \<noteq> [] \<and> ?L"
    unfolding validate_assembly_unfold N I by blast
  ultimately show ?thesis using True by (simp only: well_formed_assembly_def T) simp
qed

end
