(* ===== verification/Units.thy ===== *)
theory Units
  imports Assembly
begin

text \<open>
  Work units: the inputs a node resolves to, how it fires, the key that names one unit of its work,
  whether it is ready, which nodes a claim asks for, the check of a derivation's outputs and the
  derivation's id. These are the helper functions at the end of
  \<open>kernel/sdk/rust/src/lib.rs\<close>, all of them pure.
\<close>

section \<open>Inputs\<close>

text \<open>The artifact that one binding delivers, when it is there.\<close>

definition bound_source :: "run_slot \<Rightarrow> binding \<Rightarrow> artifact_ref option" where
  "bound_source slot b =
     (if bd_input b \<noteq> []
      then Option.bind (find (\<lambda>i. na_name i = bd_input b) (run_inputs (rs_run slot))) na_artifact
      else Option.bind (Option.bind (rs_latest slot (bd_from_node b))
                          (\<lambda>d. find (\<lambda>out. na_name out = bd_from_port b) (dv_outputs d))) na_artifact)"

definition resolve_inputs :: "run_slot \<Rightarrow> assembly_node \<Rightarrow> named_artifact list option" where
  "resolve_inputs slot node =
     (case run_assembly (rs_run slot) of
        None \<Rightarrow> None
      | Some a \<Rightarrow>
          those (map (\<lambda>b. map_option (\<lambda>r. \<lparr>na_name = bd_to_port b, na_artifact = Some r\<rparr>) (bound_source slot b))
                     (filter (\<lambda>b. bd_to_node b = an_id node) (as_bindings a))))"

section \<open>Closure and firing\<close>

definition is_open_closure :: "run_slot \<Rightarrow> bool" where
  "is_open_closure slot =
     (case run_policy (rs_run slot) of None \<Rightarrow> False | Some p \<Rightarrow> closure_get (ep_closure p) = Open)"

definition effective_firing :: "run_slot \<Rightarrow> assembly_node \<Rightarrow> capability \<Rightarrow> firing" where
  "effective_firing slot node cap =
     (let policy = run_policy (rs_run slot);
          by_node = Option.bind policy (\<lambda>p. map_of (ep_by_node p) (an_id node));
          rest = (if firing_get (cap_firing cap) \<noteq> FiringUnspecified then firing_get (cap_firing cap)
                  else case policy of
                         None \<Rightarrow> Once
                       | Some p \<Rightarrow> if firing_get (ep_default p) \<noteq> FiringUnspecified
                                   then firing_get (ep_default p) else Once)
      in case by_node of
           None \<Rightarrow> rest
         | Some f \<Rightarrow>
             if f \<noteq> firing_i32 FiringUnspecified
             then (case firing_try_from f of None \<Rightarrow> Once | Some v \<Rightarrow> v)
             else rest)"

section \<open>Unit keys\<close>

definition input_key :: "ext \<Rightarrow> capability \<Rightarrow> named_artifact list \<Rightarrow> string" where
  "input_key X cap inputs =
     (let marked = map port_name (filter port_key (cap_inputs cap));
          pairs = List.map_filter (\<lambda>i. case na_artifact i of None \<Rightarrow> None
                    | Some r \<Rightarrow> if marked = [] \<or> na_name i \<in> set marked
                                then Some (na_name i, aref_id r) else None) inputs
      in hex (sha256 X (concat (map (\<lambda>(name, i). as_bytes name @ [SEP] @ as_bytes i @ [SEP])
                (sort_key fst pairs)))))"

text \<open>One row of the fingerprint: port, artifact id and the generation of its source.\<close>

definition delivery_row ::
  "run_slot \<Rightarrow> named_artifact list \<Rightarrow> binding \<Rightarrow> (string \<times> string \<times> u64) option" where
  "delivery_row slot inputs b =
     (case find (\<lambda>i. na_name i = bd_to_port b) inputs of None \<Rightarrow> None
      | Some art \<Rightarrow>
          (case na_artifact art of None \<Rightarrow> None
           | Some r \<Rightarrow>
               let epoch = (if bd_input b \<noteq> []
                            then (case rs_input_epochs slot (bd_input b) of None \<Rightarrow> 0 | Some e \<Rightarrow> e)
                            else (case rs_node_commits slot (bd_from_node b) of None \<Rightarrow> 0 | Some e \<Rightarrow> e))
               in Some (bd_to_port b, aref_id r, epoch)))"

definition delivery_fingerprint ::
  "ext \<Rightarrow> run_slot \<Rightarrow> assembly_node \<Rightarrow> named_artifact list \<Rightarrow> string option" where
  "delivery_fingerprint X slot node inputs =
     (case run_assembly (rs_run slot) of None \<Rightarrow> None
      | Some a \<Rightarrow>
          map_option (\<lambda>rows. hex (sha256 X (concat (map (\<lambda>(p, i, epoch).
                as_bytes p @ [SEP] @ as_bytes i @ [SEP] @ to_be_bytes epoch @ [SEP]) (sort_key fst rows)))))
            (those (map (delivery_row slot inputs) (filter (\<lambda>b. bd_to_node b = an_id node) (as_bindings a)))))"

definition work_unit_key ::
  "ext \<Rightarrow> run_slot \<Rightarrow> assembly_node \<Rightarrow> capability \<Rightarrow> firing \<Rightarrow> named_artifact list \<Rightarrow> string option" where
  "work_unit_key X slot node cap f inputs =
     (case f of
        Always \<Rightarrow>
          (case delivery_fingerprint X slot node inputs of
             None \<Rightarrow> None
           | Some fp \<Rightarrow> Some (''always:'' @ an_id node @ '':'' @ fp))
      | OncePerKey \<Rightarrow> Some (''key:'' @ an_id node @ '':'' @ input_key X cap inputs)
      | _ \<Rightarrow> Some (''once:'' @ an_id node))"

definition unit_is_claimed :: "run_slot \<Rightarrow> string \<Rightarrow> bool" where
  "unit_is_claimed slot unit_key = list_ex (\<lambda>(_, c). cs_unit_key c = unit_key) (rs_claimed slot)"

text \<open>
  The unit of a node that is ready to be claimed: the common part of the loops of
  \<open>assembly_any_ready\<close> and \<open>claim_ready\<close>, whose \<open>continue\<close>s are the \<open>None\<close>s here.
\<close>

definition ready_unit ::
  "ext \<Rightarrow> kstate \<Rightarrow> run_slot \<Rightarrow> assembly_node \<Rightarrow> (named_artifact list \<times> string) option" where
  "ready_unit X s slot node =
     (case resolve_inputs slot node of None \<Rightarrow> None | Some inputs \<Rightarrow>
      case capability_for_node s node of Inl _ \<Rightarrow> None | Inr cap \<Rightarrow>
      case work_unit_key X slot node cap (effective_firing slot node cap) inputs of
        None \<Rightarrow> None
      | Some unit_key \<Rightarrow>
          if unit_key \<in> rs_done_units slot then None
          else if unit_is_claimed slot unit_key then None
          else Some (inputs, unit_key))"

definition assembly_any_ready :: "ext \<Rightarrow> kstate \<Rightarrow> run_slot \<Rightarrow> bool" where
  "assembly_any_ready X s slot =
     (case run_assembly (rs_run slot) of None \<Rightarrow> False
      | Some a \<Rightarrow> list_ex (\<lambda>node. ready_unit X s slot node \<noteq> None) (as_nodes a))"

definition ledger_work_item :: "work_item \<Rightarrow> work_item" where
  "ledger_work_item work = work\<lparr>wi_lease_until_unix_ms := 0\<rparr>"

text \<open>\<open>usize\<close> has 64 bits.\<close>

definition in_flight_capacity :: "run_slot \<Rightarrow> nat" where
  "in_flight_capacity slot =
     (if rs_max_in_flight slot = 0 then 2 ^ 64 - 1
      else unat (u64_saturating_sub (rs_max_in_flight slot) (of_nat (length (rs_claimed slot)))))"

definition node_matches_claim_filter :: "claim_request \<Rightarrow> assembly_node \<Rightarrow> bool" where
  "node_matches_claim_filter req node =
     (if cr_module req \<noteq> [] \<and> an_module node \<noteq> cr_module req then False
      else if cr_modules req \<noteq> [] \<and> \<not> list_ex (\<lambda>m. m = an_module node) (cr_modules req) then False
      else if cr_node_ids req \<noteq> [] \<and> \<not> list_ex (\<lambda>n. n = an_id node) (cr_node_ids req) then False
      else True)"

section \<open>Outputs\<close>

definition check_expected :: "named_artifact list \<Rightarrow> port \<Rightarrow> kernel_error + unit" where
  "check_expected outputs expected =
     (let matching = filter (\<lambda>out. na_name out = port_name expected) outputs in
      if matching = [] \<and> \<not> port_optional expected
      then Inl (Invalid (''required output '' @ port_name expected @ '' is absent''))
      else if 1 < length matching \<and> \<not> port_multiple expected
      then Inl (Invalid (''output '' @ port_name expected @ '' is not multiple''))
      else Inr ())"

definition check_output :: "kstate \<Rightarrow> capability \<Rightarrow> named_artifact \<Rightarrow> kernel_error + unit" where
  "check_output s cap output =
     (case find_port (cap_outputs cap) (na_name output) of
        None \<Rightarrow> Inl (Invalid (''undeclared output '' @ na_name output))
      | Some expected \<Rightarrow>
          (case na_artifact output of
             None \<Rightarrow> Inl (Invalid (''output '' @ na_name output @ '' has no artifact''))
           | Some r \<Rightarrow>
               (case ks_artifacts s (aref_id r) of
                  None \<Rightarrow> Inl (NotFound (aref_id r))
                | Some art \<Rightarrow>
                    if \<not> has_traits art (port_traits expected)
                    then Inl (Invalid (''output '' @ na_name output @ '' missing required traits '' @
                           debug_strs (port_traits expected) @ ''; have '' @ debug_strs (map fst (art_traits art))))
                    else Inr ())))"

definition validate_outputs :: "kstate \<Rightarrow> capability \<Rightarrow> named_artifact list \<Rightarrow> kernel_error + unit" where
  "validate_outputs s cap outputs =
     (case try_each (check_expected outputs) (cap_outputs cap) of
        Inl e \<Rightarrow> Inl e
      | Inr _ \<Rightarrow> try_each (check_output s cap) outputs)"

definition derivation_id :: "ext \<Rightarrow> derivation \<Rightarrow> string" where
  "derivation_id X d =
     ''sha256:'' @ hex (sha256 X
       (concat (map (\<lambda>v. as_bytes v @ [SEP])
          [dv_run_id d, dv_work_id d, dv_node_id d, dv_module d, dv_module_version d, dv_capability d]) @
        concat (map (\<lambda>v. as_bytes (na_name v) @ [SEP] @
          (case na_artifact v of None \<Rightarrow> [] | Some r \<Rightarrow> as_bytes (aref_id r)) @ [SEP])
          (dv_inputs d @ dv_outputs d))))"

lemma those_Some: "those xs = Some ys \<longleftrightarrow> xs = map Some ys"
proof (induction xs arbitrary: ys)
  case (Cons x xs)
  then show ?case by (cases x; cases ys) auto
qed auto

end
