(* ===== verification/Policy.thy ===== *)
theory Policy
  imports Storage Memo Units
begin

text \<open>
  Run modes and framework policies (\<open>framework/sdk/rust/src/policy.rs\<close>): the presets and builders,
  and how a policy compiles to the kernel's execution policy, limits and run request.
\<close>

section \<open>Plans\<close>

datatype run_mode = Converge | Stream | DedupeStream | Selective | Manual closure

datatype firing_plan =
  CapabilityDefaults
| AllFiring firing
| MapFiring firing "(string \<times> firing) list"

datatype node_plan = AllNodes | OnlyNodes "string list" | AfterNode string | FromNode string

datatype drive_plan = UntilIdle | OnePass | UntilIdleThenWait

datatype drive_after = NoDrive | DriveUntilIdle | DriveOnePass

record framework_policy =
  fp_mode :: run_mode
  fp_firing :: firing_plan
  fp_nodes :: node_plan
  fp_max_steps :: "u64 option"
  fp_drive :: drive_plan
  fp_claim_modules :: "string list option"
  fp_storage :: storage_plan
  fp_memo :: memo_plan
  fp_concurrency :: "u32 option"
  fp_claim_batch :: "u32 option"
  fp_lease_ms :: "u64 option"
  fp_max_attempts :: "u32 option"

definition DEFAULT_CONCURRENCY :: u32 where "DEFAULT_CONCURRENCY = 8"

section \<open>Presets and builders\<close>

definition policy_base :: "run_mode \<Rightarrow> firing_plan \<Rightarrow> node_plan \<Rightarrow> drive_plan \<Rightarrow> framework_policy" where
  "policy_base mode f nodes drv =
     \<lparr>fp_mode = mode, fp_firing = f, fp_nodes = nodes, fp_max_steps = None, fp_drive = drv,
      fp_claim_modules = None, fp_storage = storage_off, fp_memo = memo_off, fp_concurrency = None,
      fp_claim_batch = None, fp_lease_ms = None, fp_max_attempts = None\<rparr>"

definition with_memo :: "memo_plan \<Rightarrow> framework_policy \<Rightarrow> framework_policy" where
  "with_memo m p = p\<lparr>fp_memo := m\<rparr>"

definition converge :: framework_policy where
  "converge = policy_base Converge CapabilityDefaults AllNodes UntilIdle"

definition memoized :: framework_policy where
  "memoized = with_memo memo_on converge"

definition stream :: framework_policy where
  "stream = policy_base Stream (AllFiring Always) AllNodes UntilIdleThenWait"

definition stream_dedupe :: framework_policy where
  "stream_dedupe = policy_base DedupeStream (AllFiring OncePerKey) AllNodes UntilIdleThenWait"

definition selective :: "string list \<Rightarrow> framework_policy" where
  "selective ids = policy_base Selective CapabilityDefaults (OnlyNodes ids) UntilIdle"

definition start_after :: "string \<Rightarrow> framework_policy" where
  "start_after node = policy_base Selective CapabilityDefaults (AfterNode node) UntilIdle"

definition from_node :: "string \<Rightarrow> framework_policy" where
  "from_node node = policy_base Selective CapabilityDefaults (FromNode node) UntilIdle"

definition manual :: "closure \<Rightarrow> framework_policy" where
  "manual c = policy_base (Manual c) CapabilityDefaults AllNodes UntilIdle"

definition with_firing :: "firing_plan \<Rightarrow> framework_policy \<Rightarrow> framework_policy" where
  "with_firing f p = p\<lparr>fp_firing := f\<rparr>"

definition with_nodes :: "node_plan \<Rightarrow> framework_policy \<Rightarrow> framework_policy" where
  "with_nodes n p = p\<lparr>fp_nodes := n\<rparr>"

definition with_drive :: "drive_plan \<Rightarrow> framework_policy \<Rightarrow> framework_policy" where
  "with_drive d p = p\<lparr>fp_drive := d\<rparr>"

definition with_max_steps :: "u64 \<Rightarrow> framework_policy \<Rightarrow> framework_policy" where
  "with_max_steps n p = p\<lparr>fp_max_steps := Some n\<rparr>"

definition with_claim_modules :: "string list \<Rightarrow> framework_policy \<Rightarrow> framework_policy" where
  "with_claim_modules ms p = p\<lparr>fp_claim_modules := Some ms\<rparr>"

definition with_storage :: "storage_plan \<Rightarrow> framework_policy \<Rightarrow> framework_policy" where
  "with_storage st p = p\<lparr>fp_storage := st\<rparr>"

definition with_concurrency :: "u32 \<Rightarrow> framework_policy \<Rightarrow> framework_policy" where
  "with_concurrency n p = p\<lparr>fp_concurrency := Some (max n 1)\<rparr>"

definition with_claim_batch :: "u32 \<Rightarrow> framework_policy \<Rightarrow> framework_policy" where
  "with_claim_batch n p = p\<lparr>fp_claim_batch := Some (max n 1)\<rparr>"

definition with_lease_ms :: "u64 \<Rightarrow> framework_policy \<Rightarrow> framework_policy" where
  "with_lease_ms ms p = p\<lparr>fp_lease_ms := Some ms\<rparr>"

definition with_max_attempts :: "u32 \<Rightarrow> framework_policy \<Rightarrow> framework_policy" where
  "with_max_attempts n p = p\<lparr>fp_max_attempts := Some (max n 1)\<rparr>"

section \<open>Compilation to the kernel\<close>

definition unwrap_or :: "'a option \<Rightarrow> 'a \<Rightarrow> 'a" where
  "unwrap_or v d = (case v of None \<Rightarrow> d | Some x \<Rightarrow> x)"

definition effective_concurrency :: "framework_policy \<Rightarrow> u32" where
  "effective_concurrency p = max (unwrap_or (fp_concurrency p) DEFAULT_CONCURRENCY) 1"

definition effective_claim_batch :: "framework_policy \<Rightarrow> u32" where
  "effective_claim_batch p = max (unwrap_or (fp_claim_batch p) (effective_concurrency p)) 1"

definition policy_closure :: "framework_policy \<Rightarrow> closure" where
  "policy_closure p =
     (case fp_mode p of
        Converge \<Rightarrow> FirstTerminal | Selective \<Rightarrow> FirstTerminal
      | Stream \<Rightarrow> Open | DedupeStream \<Rightarrow> Open
      | Manual c \<Rightarrow> c)"

definition execution_policy_for :: "framework_policy \<Rightarrow> assembly option \<Rightarrow> execution_policy" where
  "execution_policy_for p a =
     (let (dflt, by_node) =
        (case fp_firing p of
           CapabilityDefaults \<Rightarrow> (firing_i32 FiringUnspecified, [])
         | AllFiring f \<Rightarrow>
             (firing_i32 f,
              case a of None \<Rightarrow> [] | Some a \<Rightarrow> bt_of (map (\<lambda>n. (an_id n, firing_i32 f)) (as_nodes a)))
         | MapFiring d by_node \<Rightarrow> (firing_i32 d, bt_of (map (\<lambda>(k, v). (k, firing_i32 v)) by_node)))
      in \<lparr>ep_default = dflt, ep_by_node = by_node, ep_closure = closure_i32 (policy_closure p)\<rparr>)"

definition execution_policy_of :: "framework_policy \<Rightarrow> execution_policy" where
  "execution_policy_of p = execution_policy_for p None"

definition include_nodes :: "framework_policy \<Rightarrow> string list" where
  "include_nodes p =
     (case fp_nodes p of OnlyNodes ids \<Rightarrow> ids | AllNodes \<Rightarrow> [] | AfterNode _ \<Rightarrow> [] | FromNode _ \<Rightarrow> [])"

definition needs_cut :: "framework_policy \<Rightarrow> bool" where
  "needs_cut p \<longleftrightarrow> fp_nodes p \<noteq> AllNodes"

definition default_max_steps :: "framework_policy \<Rightarrow> u64 \<Rightarrow> u64" where
  "default_max_steps p node_count =
     (if policy_closure p = Open then max (u64_saturating_mul node_count 10000) 10000 else 0)"

definition resolve_max_steps :: "framework_policy \<Rightarrow> assembly \<Rightarrow> u64" where
  "resolve_max_steps p a =
     (case fp_max_steps p of Some n \<Rightarrow> n | None \<Rightarrow> default_max_steps p (of_nat (length (as_nodes a))))"

definition apply_to_run_request :: "framework_policy \<Rightarrow> run_request \<Rightarrow> run_request" where
  "apply_to_run_request p req =
     (let node_count = (case rr_assembly req of None \<Rightarrow> 0 | Some a \<Rightarrow> of_nat (length (as_nodes a)));
          max_steps = (case fp_max_steps p of Some n \<Rightarrow> n | None \<Rightarrow> default_max_steps p node_count);
          conc = ucast (effective_concurrency p)
      in req\<lparr>rr_policy := Some (execution_policy_for p (rr_assembly req)),
             rr_include_nodes := include_nodes p,
             rr_limits := Some \<lparr>lim_max_steps = max_steps, lim_max_in_flight = conc,
               lim_default_lease_ms = unwrap_or (fp_lease_ms p) 0,
               lim_max_attempts = unwrap_or (fp_max_attempts p) 0\<rparr>\<rparr>)"

definition effective_drive :: "framework_policy \<Rightarrow> drive_plan" where
  "effective_drive p = (case fp_drive p of UntilIdleThenWait \<Rightarrow> UntilIdle | other \<Rightarrow> other)"

section \<open>Bounds\<close>

lemma max_one: "1 \<le> max n (1 :: 'a::len word)" "max n (1 :: 'a word) \<noteq> 0"
  by (auto simp: max_def) (metis word_zero_le antisym_conv2 zero_neq_one)?

lemma effective_bounds:
  "1 \<le> effective_concurrency p" "1 \<le> effective_claim_batch p"
  by (simp_all add: effective_concurrency_def effective_claim_batch_def max_one)

lemma unat_widen: "unat (ucast (n :: u32) :: u64) = unat n"
proof -
  have "unat n < 2 ^ LENGTH(32)" by (rule unsigned_less)
  then have "unat n < 2 ^ 64" by simp
  then show ?thesis by (simp add: unsigned_ucast_eq take_bit_nat_eq_self)
qed

lemma concurrency_limit: "(ucast (effective_concurrency p) :: u64) \<noteq> 0"
proof
  assume "(ucast (effective_concurrency p) :: u64) = 0"
  then have "unat (effective_concurrency p) = 0" using unat_widen [of "effective_concurrency p"] by simp
  then have "effective_concurrency p = 0" by (simp only: unsigned_eq_0_iff)
  then show False using effective_bounds(1) [of p] by simp
qed

section \<open>What the kernel makes of the policy\<close>

lemma map_of_pinned:
  "node \<in> set nodes \<Longrightarrow> map_of (bt_of (map (\<lambda>n. (an_id n, c)) nodes)) (an_id node) = Some c"
proof -
  assume n: "node \<in> set nodes"
  have "map_of (map (\<lambda>n. (an_id n, c)) ns) k = (if k \<in> an_id ` set ns then Some c else None)" for ns k
    by (induction ns) auto
  from this [of "rev nodes" "an_id node"] n show ?thesis by (simp add: map_of_bt_of rev_map)
qed

lemma pinned_firing:
  assumes "run_policy (rs_run slot) = Some (execution_policy_for p (Some a))" "fp_firing p = AllFiring f"
    and "f \<noteq> FiringUnspecified" "node \<in> set (as_nodes a)"
  shows "effective_firing slot node cap = f"
  using assms map_of_pinned [OF assms(4), of "firing_i32 f"]
  by (cases f) (simp_all add: effective_firing_def execution_policy_for_def Let_def firing_try_from_def)

lemma capability_firing:
  assumes "run_policy (rs_run slot) = Some (execution_policy_for p a)" "fp_firing p = CapabilityDefaults"
  shows "effective_firing slot node cap =
    (if firing_get (cap_firing cap) = FiringUnspecified then Once else firing_get (cap_firing cap))"
  using assms by (simp add: effective_firing_def execution_policy_for_def Let_def firing_get_def firing_try_from_def)

lemma policy_open:
  assumes "run_policy (rs_run slot) = Some (execution_policy_for p a)"
  shows "is_open_closure slot \<longleftrightarrow> policy_closure p = Open"
  using assms by (cases "policy_closure p")
    (simp_all add: is_open_closure_def execution_policy_for_def Let_def split_beta closure_get_def closure_try_from_def)

end
