(* ===== verification/Runs.thy ===== *)
theory Runs
  imports Units
begin

text \<open>
  Runs: \<open>start_run\<close>, \<open>inject_input\<close>, \<open>claim_ready\<close>, \<open>heartbeat\<close>, \<open>fail_work\<close>,
  \<open>reap_expired_locked\<close>, \<open>commit\<close>, \<open>get_run\<close>, \<open>cancel_run\<close> and
  \<open>list_derivations\<close> of \<open>kernel/sdk/rust/src/lib.rs\<close>. The wall clock is an argument
  \<open>now\<close>. An operation that fails after reaping returns the reaped state with its error.
\<close>

definition DEFAULT_LEASE_MS :: u64 where "DEFAULT_LEASE_MS = 60000"

definition DEFAULT_MAX_ATTEMPTS :: u32 where "DEFAULT_MAX_ATTEMPTS = 3"

definition set_slot :: "kstate \<Rightarrow> string \<Rightarrow> run_slot \<Rightarrow> kstate" where
  "set_slot s rid slot = s\<lparr>ks_runs := (ks_runs s)(rid \<mapsto> slot)\<rparr>"

definition STALL_REASON :: string where
  "STALL_REASON = ''no node is ready and no work is in flight''"

section \<open>Starting a run and its inputs\<close>

definition limit_or :: "'w::len word \<Rightarrow> 'w word option \<Rightarrow> 'w word" where
  "limit_or dflt v = (let v = (case v of None \<Rightarrow> 0 | Some v \<Rightarrow> v) in if v = 0 then dflt else v)"

text \<open>The run and its slot, after every check has passed.\<close>

definition new_run :: "run_request \<Rightarrow> assembly \<Rightarrow> u64 \<Rightarrow> run" where
  "new_run req a max_steps =
     \<lparr>run_id = rr_id req, run_assembly = Some a, run_inputs = rr_inputs req, run_state = Running,
      run_answer = None, run_steps = 0, run_max_steps = max_steps, run_reason = [],
      run_policy = rr_policy req\<rparr>"

definition new_slot :: "run_request \<Rightarrow> run \<Rightarrow> run_slot" where
  "new_slot req run =
     \<lparr>rs_run = run, rs_claimed = [], rs_latest = Map.empty, rs_done_units = {},
      rs_claim_attempts = Map.empty,
      rs_input_epochs = map_of (map (\<lambda>i. (na_name i, 0)) (rr_inputs req)),
      rs_node_commits = Map.empty,
      rs_max_in_flight = (case rr_limits req of None \<Rightarrow> 0 | Some l \<Rightarrow> lim_max_in_flight l),
      rs_default_lease_ms = limit_or DEFAULT_LEASE_MS (map_option lim_default_lease_ms (rr_limits req)),
      rs_max_attempts = limit_or DEFAULT_MAX_ATTEMPTS (map_option lim_max_attempts (rr_limits req))\<rparr>"

definition start_run_ctx :: "ext \<Rightarrow> int \<Rightarrow> kstate \<Rightarrow> run_request \<Rightarrow> request_context \<Rightarrow> run outcome" where
  "start_run_ctx X now s req ctx =
     (case check_deadline now ctx of Inl e \<Rightarrow> (Inl e, s) | Inr _ \<Rightarrow>
      case idempotent_get s ''start_run'' ctx of Some (IdemRun r) \<Rightarrow> (Inr r, s) | _ \<Rightarrow>
      if rr_id req = [] then (Inl (Invalid ''run id is required''), s)
      else if ks_runs s (rr_id req) \<noteq> None
      then (Inl (Conflict (''run '' @ rr_id req @ '' already exists'')), s)
      else case rr_assembly req of None \<Rightarrow> (Inl (Invalid ''assembly is required''), s) | Some requested \<Rightarrow>
      case materialize_assembly X requested (rr_include_nodes req) of Inl e \<Rightarrow> (Inl e, s) | Inr a \<Rightarrow>
      case validate_assembly X s a (rr_inputs req) of Inl e \<Rightarrow> (Inl e, s) | Inr _ \<Rightarrow>
      let max_steps = limit_or (of_nat (length (as_nodes a))) (map_option lim_max_steps (rr_limits req)) in
      if max_steps = 0 then (Inl (Invalid ''max_steps must be positive''), s)
      else let run = new_run req a max_steps;
               s1 = set_slot s (run_id run) (new_slot req run);
               s2 = log_entry X s1 ''run.started'' (run_id run) (enc_run X run);
               s3 = idempotent_put s2 ''start_run'' ctx (IdemRun run)
           in (Inr run, s3))"

definition start_run :: "ext \<Rightarrow> int \<Rightarrow> kstate \<Rightarrow> run_request \<Rightarrow> run outcome" where
  "start_run X now s req = start_run_ctx X now s req default_context"

text \<open>Replace the first input of that name, or add it at the end.\<close>

fun put_input :: "named_artifact \<Rightarrow> named_artifact list \<Rightarrow> named_artifact list" where
  "put_input input [] = [input]"
| "put_input input (i # is) = (if na_name i = na_name input then input # is else i # put_input input is)"

definition inject_slot :: "run_slot \<Rightarrow> named_artifact \<Rightarrow> run_slot" where
  "inject_slot slot input = slot
     \<lparr>rs_run := (rs_run slot)\<lparr>run_inputs := put_input input (run_inputs (rs_run slot))\<rparr>,
      rs_input_epochs := (rs_input_epochs slot)(na_name input \<mapsto>
        u64_saturating_add (case rs_input_epochs slot (na_name input) of None \<Rightarrow> 0 | Some e \<Rightarrow> e) 1)\<rparr>"

definition inject_input_ctx ::
  "ext \<Rightarrow> int \<Rightarrow> kstate \<Rightarrow> inject_input_request \<Rightarrow> request_context \<Rightarrow> run outcome" where
  "inject_input_ctx X now s req ctx =
     (case check_deadline now ctx of Inl e \<Rightarrow> (Inl e, s) | Inr _ \<Rightarrow>
      case iir_input req of None \<Rightarrow> (Inl (Invalid ''input is required''), s) | Some input \<Rightarrow>
      if na_name input = [] then (Inl (Invalid ''input name is required''), s)
      else case na_artifact input of
             None \<Rightarrow> (Inl (Invalid (''input '' @ na_name input @ '' has no artifact'')), s)
           | Some r \<Rightarrow>
      if ks_artifacts s (aref_id r) = None then (Inl (NotFound (aref_id r)), s)
      else case ks_runs s (iir_run_id req) of None \<Rightarrow> (Inl (NotFound (iir_run_id req)), s) | Some slot \<Rightarrow>
      if run_state (rs_run slot) \<noteq> Running then (Inl (RunClosed (run_state (rs_run slot))), s)
      else if \<not> (case run_assembly (rs_run slot) of None \<Rightarrow> False
                 | Some a \<Rightarrow> list_ex (\<lambda>b. bd_input b = na_name input) (as_bindings a))
      then (Inl (Invalid (''run input '' @ na_name input @ '' is not bound in the assembly'')), s)
      else let slot1 = inject_slot slot input;
               s1 = set_slot s (iir_run_id req) slot1;
               s2 = log_entry X s1 ''run.input_injected'' (run_id (rs_run slot1)) (enc_named_artifact X input)
           in (Inr (rs_run slot1), s2))"

definition inject_input :: "ext \<Rightarrow> int \<Rightarrow> kstate \<Rightarrow> inject_input_request \<Rightarrow> run outcome" where
  "inject_input X now s req = inject_input_ctx X now s req default_context"

section \<open>Reaping expired leases\<close>

definition expired :: "int \<Rightarrow> claimed_slot \<Rightarrow> bool" where
  "expired now c \<longleftrightarrow> 0 < cs_lease_until_ms c \<and> cs_lease_until_ms c \<le> now"

text \<open>The expired claims, in the order in which the hash map hands them out.\<close>

definition expired_claims :: "ext \<Rightarrow> int \<Rightarrow> run_slot \<Rightarrow> (string \<times> claimed_slot) list" where
  "expired_claims X now slot =
     List.map_filter (\<lambda>i. case map_of (rs_claimed slot) i of None \<Rightarrow> None
         | Some c \<Rightarrow> if expired now c then Some (i, c) else None)
       (hash_order X (map fst (rs_claimed slot)))"

definition reap_claim :: "string \<times> claimed_slot \<Rightarrow> run_slot \<Rightarrow> run_slot" where
  "reap_claim ic slot =
     (let slot1 = slot\<lparr>rs_claimed := AList.delete (fst ic) (rs_claimed slot)\<rparr> in
      if rs_max_attempts slot \<le> cs_attempt (snd ic)
      then slot1\<lparr>rs_done_units := insert (cs_unit_key (snd ic)) (rs_done_units slot1)\<rparr>
      else slot1)"

definition reap_events ::
  "ext \<Rightarrow> string \<Rightarrow> u32 \<Rightarrow> string \<times> claimed_slot \<Rightarrow> (string \<times> string \<times> bytes) list" where
  "reap_events X rid max_attempts ic =
     (''work.expired'', fst ic, enc_work_item X (ledger_work_item (cs_work (snd ic)))) #
     (if max_attempts \<le> cs_attempt (snd ic)
      then [(''work.failed'', fst ic, enc_work_failure X
              \<lparr>wf_run_id = rid, wf_work_id = fst ic, wf_unit_key = cs_unit_key (snd ic),
               wf_reason = ''lease expired; max_attempts exhausted'', wf_terminal = True,
               wf_attempt = cs_attempt (snd ic)\<rparr>)]
      else [])"

definition log_all :: "ext \<Rightarrow> (string \<times> string \<times> bytes) list \<Rightarrow> kstate \<Rightarrow> kstate" where
  "log_all X evs s = fold (\<lambda>(kind, subject, detail) t. log_entry X t kind subject detail) evs s"

definition reap_slot :: "ext \<Rightarrow> int \<Rightarrow> run_slot \<Rightarrow> run_slot" where
  "reap_slot X now slot = fold reap_claim (expired_claims X now slot) slot"

definition reap_expired_locked :: "ext \<Rightarrow> int \<Rightarrow> kstate \<Rightarrow> string \<Rightarrow> kstate" where
  "reap_expired_locked X now s rid =
     (case ks_runs s rid of None \<Rightarrow> s | Some slot \<Rightarrow>
      log_all X (concat (map (reap_events X rid (rs_max_attempts slot)) (expired_claims X now slot)))
        (set_slot s rid (reap_slot X now slot)))"

section \<open>Claiming, renewing and failing work\<close>

definition work_id_of :: "string \<Rightarrow> string \<Rightarrow> string \<Rightarrow> string" where
  "work_id_of rid node_id unit_key =
     (if take 5 unit_key = ''once:'' then ''work:'' @ rid @ ''/'' @ node_id
      else ''work:'' @ rid @ ''/'' @ unit_key)"

definition claim_one ::
  "int \<Rightarrow> string \<Rightarrow> run_slot \<Rightarrow> assembly_node \<times> named_artifact list \<times> string \<Rightarrow> work_item \<times> run_slot" where
  "claim_one now rid slot cand =
     (case cand of (node, inputs, unit_key) \<Rightarrow>
      let attempt = (case rs_claim_attempts slot unit_key of None \<Rightarrow> 0 | Some n \<Rightarrow> n) + 1;
          work_id = work_id_of rid (an_id node) unit_key;
          lease_until = i64_saturating_add now (u64_as_i64 (rs_default_lease_ms slot));
          work = \<lparr>wi_id = work_id, wi_run_id = rid, wi_node_id = an_id node, wi_module = an_module node,
                  wi_module_version = an_module_version node, wi_capability = an_capability node,
                  wi_inputs = inputs, wi_unit_key = unit_key, wi_attempt = attempt,
                  wi_lease_until_unix_ms = lease_until\<rparr>
      in (work, slot\<lparr>rs_claim_attempts := (rs_claim_attempts slot)(unit_key \<mapsto> attempt),
                     rs_claimed := AList.update work_id
                       \<lparr>cs_work = work, cs_unit_key = unit_key, cs_lease_until_ms = lease_until,
                        cs_attempt = attempt\<rparr> (rs_claimed slot)\<rparr>))"

fun claim_units ::
  "int \<Rightarrow> string \<Rightarrow> run_slot \<Rightarrow> (assembly_node \<times> named_artifact list \<times> string) list \<Rightarrow>
   work_item list \<times> run_slot" where
  "claim_units now rid slot [] = ([], slot)"
| "claim_units now rid slot (cand # cands) =
     (let (work, slot1) = claim_one now rid slot cand;
          (works, slot2) = claim_units now rid slot1 cands
      in (work # works, slot2))"

definition ready_candidates ::
  "ext \<Rightarrow> kstate \<Rightarrow> run_slot \<Rightarrow> claim_request \<Rightarrow> assembly \<Rightarrow>
   (assembly_node \<times> named_artifact list \<times> string) list" where
  "ready_candidates X s slot req a =
     List.map_filter (\<lambda>node. map_option (\<lambda>(inputs, unit_key). (node, inputs, unit_key)) (ready_unit X s slot node))
       (filter (node_matches_claim_filter req) (as_nodes a))"

text \<open>Close a run as stalled and log it.\<close>

definition stall_slot :: "run_slot \<Rightarrow> run_slot" where
  "stall_slot slot = slot\<lparr>rs_run := (rs_run slot)\<lparr>run_state := Stalled, run_reason := STALL_REASON\<rparr>\<rparr>"

definition stall_run :: "ext \<Rightarrow> kstate \<Rightarrow> string \<Rightarrow> run_slot \<Rightarrow> kstate" where
  "stall_run X s rid slot =
     (let slot1 = stall_slot slot
      in log_entry X (set_slot s rid slot1) ''run.stalled'' (run_id (rs_run slot1)) (enc_run X (rs_run slot1)))"

definition claim_want :: "run_slot \<Rightarrow> claim_request \<Rightarrow> nat" where
  "claim_want slot req =
     min (if cr_max_items req = 0 then 1 else unat (cr_max_items req)) (in_flight_capacity slot)"

text \<open>The items claimed and the slot with their claims.\<close>

definition claim_items :: "ext \<Rightarrow> int \<Rightarrow> kstate \<Rightarrow> run_slot \<Rightarrow> claim_request \<Rightarrow> work_item list \<times> run_slot" where
  "claim_items X now s slot req =
     (let a = the (run_assembly (rs_run slot));
          want = claim_want slot req
      in if 0 < want then claim_units now (cr_run_id req) slot (take want (ready_candidates X s slot req a))
         else ([], slot))"

definition claim_ready :: "ext \<Rightarrow> int \<Rightarrow> kstate \<Rightarrow> claim_request \<Rightarrow> work_item list outcome" where
  "claim_ready X now s req =
     (case ks_runs s (cr_run_id req) of None \<Rightarrow> (Inl (NotFound (cr_run_id req)), s) | Some slot0 \<Rightarrow>
      if run_state (rs_run slot0) \<noteq> Running then (Inl (RunClosed (run_state (rs_run slot0))), s)
      else let rid = cr_run_id req;
               s1 = reap_expired_locked X now s rid;
               slot1 = the (ks_runs s1 rid);
               (items, slot2) = claim_items X now s1 slot1 req;
               s2 = log_all X (map (\<lambda>w. (''work.claimed'', wi_id w, enc_work_item X (ledger_work_item w))) items)
                      (set_slot s1 rid slot2);
               any_ready = assembly_any_ready X s2 slot2
           in (Inr items,
               if items = [] \<and> \<not> any_ready \<and> rs_claimed slot2 = [] \<and> \<not> is_open_closure slot2
               then stall_run X s2 rid slot2 else s2))"

text \<open>The loop of \<open>heartbeat\<close>: the slot with the ids renewed and the ids lost.\<close>

fun renew_all ::
  "int \<Rightarrow> string list \<Rightarrow> run_slot \<Rightarrow> string list \<times> string list \<times> run_slot" where
  "renew_all until [] slot = ([], [], slot)"
| "renew_all until (i # is) slot =
     (case map_of (rs_claimed slot) i of
        Some c \<Rightarrow>
          (case renew_all until is (slot\<lparr>rs_claimed := AList.update i
                  (c\<lparr>cs_lease_until_ms := until,
                     cs_work := (cs_work c)\<lparr>wi_lease_until_unix_ms := until\<rparr>\<rparr>) (rs_claimed slot)\<rparr>) of
             (renewed, lost, slot1) \<Rightarrow> (i # renewed, lost, slot1))
      | None \<Rightarrow> (case renew_all until is slot of (renewed, lost, slot1) \<Rightarrow> (renewed, i # lost, slot1)))"

definition heartbeat :: "ext \<Rightarrow> int \<Rightarrow> kstate \<Rightarrow> heartbeat_request \<Rightarrow> heartbeat_response outcome" where
  "heartbeat X now s req =
     (case ks_runs s (hr_run_id req) of None \<Rightarrow> (Inl (NotFound (hr_run_id req)), s) | Some slot \<Rightarrow>
      if run_state (rs_run slot) \<noteq> Running then (Inl (RunClosed (run_state (rs_run slot))), s)
      else let extend = (if hr_extend_lease_ms req = 0 then rs_default_lease_ms slot else hr_extend_lease_ms req);
               until = i64_saturating_add now (u64_as_i64 extend)
           in case renew_all until (hr_work_ids req) slot of (renewed, lost, slot1) \<Rightarrow>
              (Inr \<lparr>hp_renewed_work_ids = renewed, hp_lost_work_ids = lost\<rparr>,
               reap_expired_locked X now (set_slot s (hr_run_id req) slot1) (hr_run_id req)))"

definition fail_slot :: "run_slot \<Rightarrow> string \<Rightarrow> claimed_slot \<Rightarrow> bool \<Rightarrow> run_slot" where
  "fail_slot slot work_id claimed terminal =
     (let slot1 = slot\<lparr>rs_claimed := AList.delete work_id (rs_claimed slot)\<rparr>
      in if terminal then slot1\<lparr>rs_done_units := insert (cs_unit_key claimed) (rs_done_units slot1)\<rparr>
         else slot1)"

definition fail_work :: "ext \<Rightarrow> int \<Rightarrow> kstate \<Rightarrow> fail_work_request \<Rightarrow> run outcome" where
  "fail_work X now s req =
     (case ks_runs s (fwr_run_id req) of None \<Rightarrow> (Inl (NotFound (fwr_run_id req)), s) | Some slot0 \<Rightarrow>
      if run_state (rs_run slot0) \<noteq> Running then (Inl (RunClosed (run_state (rs_run slot0))), s)
      else let rid = fwr_run_id req;
               s1 = reap_expired_locked X now s rid;
               slot1 = the (ks_runs s1 rid)
           in case map_of (rs_claimed slot1) (fwr_work_id req) of
                None \<Rightarrow> (Inl (Conflict ''work was not claimed''), s1)
              | Some claimed \<Rightarrow>
                  let terminal = (fwr_terminal req \<or> rs_max_attempts slot1 \<le> cs_attempt claimed);
                      failure = \<lparr>wf_run_id = rid, wf_work_id = fwr_work_id req,
                        wf_unit_key = cs_unit_key claimed,
                        wf_reason = (if fwr_reason req = [] then ''failed'' else fwr_reason req),
                        wf_terminal = terminal, wf_attempt = cs_attempt claimed\<rparr>;
                      slot2 = fail_slot slot1 (fwr_work_id req) claimed terminal;
                      s2 = log_entry X (set_slot s1 rid slot2) ''work.failed'' (fwr_work_id req)
                             (enc_work_failure X failure)
                  in if \<not> is_open_closure slot2 \<and> rs_claimed slot2 = [] \<and> \<not> assembly_any_ready X s2 slot2
                     then (Inr (rs_run (stall_slot slot2)), stall_run X s2 rid slot2)
                     else (Inr (rs_run slot2), s2))"

section \<open>Commit\<close>

text \<open>
  The change of the slot: the claim is released and its unit done, the step counted, the terminal
  output taken as the answer, and the run closed when it has its answer or no step left. The flag is
  the variable \<open>closed\<close>.
\<close>

definition commit_slot :: "run_slot \<Rightarrow> claimed_slot \<Rightarrow> derivation \<Rightarrow> run_slot \<times> bool" where
  "commit_slot slot claimed d =
     (let work = cs_work claimed;
          node = wi_node_id work;
          run1 = (rs_run slot)\<lparr>run_steps := run_steps (rs_run slot) + 1\<rparr>;
          slot1 = slot\<lparr>rs_claimed := AList.delete (wi_id work) (rs_claimed slot),
                       rs_done_units := insert (cs_unit_key claimed) (rs_done_units slot),
                       rs_latest := (rs_latest slot)(node \<mapsto> d),
                       rs_node_commits := (rs_node_commits slot)(node \<mapsto>
                         (case rs_node_commits slot node of None \<Rightarrow> 0 | Some n \<Rightarrow> n) + 1)\<rparr>;
          terminal = the (as_terminal (the (run_assembly run1)));
          answer = (if no_node terminal = node
                    then Option.bind (find (\<lambda>out. na_name out = no_port terminal) (dv_outputs d)) na_artifact
                    else None);
          (run2, closed) =
            (case answer of
               None \<Rightarrow> (run1, False)
             | Some r \<Rightarrow> if is_open_closure slot then (run1\<lparr>run_answer := Some r\<rparr>, False)
                         else (run1\<lparr>run_answer := Some r, run_state := Completed\<rparr>, True));
          (run3, closed3) =
            (if \<not> closed \<and> run_max_steps run2 \<le> run_steps run2
             then (run2\<lparr>run_state := Failed,
                        run_reason := ''max_steps exhausted before the terminal output''\<rparr>, True)
             else (run2, closed))
      in (slot1\<lparr>rs_run := run3\<rparr>, closed3))"

definition commit_kind :: "run_state \<Rightarrow> string" where
  "commit_kind st =
     (case st of Completed \<Rightarrow> ''run.completed'' | Stalled \<Rightarrow> ''run.stalled'' | Failed \<Rightarrow> ''run.failed''
      | _ \<Rightarrow> ''run.progressed'')"

definition make_derivation :: "ext \<Rightarrow> work_item \<Rightarrow> named_artifact list \<Rightarrow> derivation" where
  "make_derivation X work outputs =
     (let d = \<lparr>dv_id = [], dv_run_id = wi_run_id work, dv_work_id = wi_id work, dv_node_id = wi_node_id work,
               dv_module = wi_module work, dv_module_version = wi_module_version work,
               dv_capability = wi_capability work, dv_inputs = wi_inputs work, dv_outputs = outputs\<rparr>
      in d\<lparr>dv_id := derivation_id X d\<rparr>)"

text \<open>The part of \<open>commit\<close> after the checks.\<close>

definition apply_commit ::
  "ext \<Rightarrow> kstate \<Rightarrow> claimed_slot \<Rightarrow> named_artifact list \<Rightarrow> request_context \<Rightarrow> run \<times> kstate" where
  "apply_commit X s claimed outputs ctx =
     (let work = cs_work claimed;
          rid = wi_run_id work;
          d = make_derivation X work outputs;
          (slot1, closed) = commit_slot (the (ks_runs s rid)) claimed d;
          s1 = set_slot s rid slot1;
          slot2 = (if \<not> closed \<and> \<not> is_open_closure slot1 \<and> rs_claimed slot1 = [] \<and>
                      \<not> assembly_any_ready X s1 slot1
                   then stall_slot slot1 else slot1);
          run_now = rs_run slot2;
          s2 = set_slot s1 rid slot2;
          s3 = s2\<lparr>ks_derivations := ks_derivations s2 @ [d]\<rparr>;
          s4 = log_entry X s3 ''derivation.committed'' (dv_id d) (enc_derivation X d);
          s5 = log_entry X s4 (commit_kind (run_state run_now)) (run_id run_now) (enc_run X run_now);
          s6 = idempotent_put s5 ''commit'' ctx (IdemRun run_now)
      in (run_now, s6))"

definition commit_ctx :: "ext \<Rightarrow> int \<Rightarrow> kstate \<Rightarrow> derivation \<Rightarrow> request_context \<Rightarrow> run outcome" where
  "commit_ctx X now s submitted ctx =
     (case check_deadline now ctx of Inl e \<Rightarrow> (Inl e, s) | Inr _ \<Rightarrow>
      case idempotent_get s ''commit'' ctx of Some (IdemRun r) \<Rightarrow> (Inr r, s) | _ \<Rightarrow>
      case ks_runs s (dv_run_id submitted) of None \<Rightarrow> (Inl (NotFound (dv_run_id submitted)), s) | Some slot0 \<Rightarrow>
      if run_state (rs_run slot0) \<noteq> Running then (Inl (RunClosed (run_state (rs_run slot0))), s)
      else let s1 = reap_expired_locked X now s (dv_run_id submitted);
               slot = the (ks_runs s1 (dv_run_id submitted))
           in case map_of (rs_claimed slot) (dv_work_id submitted) of
                None \<Rightarrow> (Inl (Conflict ''work was not claimed''), s1)
              | Some claimed \<Rightarrow>
                  if dv_node_id submitted \<noteq> [] \<and> dv_node_id submitted \<noteq> wi_node_id (cs_work claimed)
                  then (Inl (Invalid ''node_id does not match the claim''), s1)
                  else if run_max_steps (rs_run slot) \<le> run_steps (rs_run slot)
                  then (Inl (RunClosed Failed), s1)
                  else case capability_for_work s1 (cs_work claimed) of Inl e \<Rightarrow> (Inl e, s1) | Inr cap \<Rightarrow>
                       case validate_outputs s1 cap (dv_outputs submitted) of Inl e \<Rightarrow> (Inl e, s1) | Inr _ \<Rightarrow>
                       case apply_commit X s1 claimed (dv_outputs submitted) ctx of (run, s2) \<Rightarrow> (Inr run, s2))"

definition commit :: "ext \<Rightarrow> int \<Rightarrow> kstate \<Rightarrow> derivation \<Rightarrow> run outcome" where
  "commit X now s submitted = commit_ctx X now s submitted default_context"

section \<open>Reading and cancelling\<close>

definition get_run :: "kstate \<Rightarrow> string \<Rightarrow> run outcome" where
  "get_run s rid =
     (case ks_runs s rid of None \<Rightarrow> (Inl (NotFound rid), s) | Some slot \<Rightarrow> (Inr (rs_run slot), s))"

definition cancel_slot :: "run_slot \<Rightarrow> run_slot" where
  "cancel_slot slot = slot
     \<lparr>rs_run := (rs_run slot)\<lparr>run_state := Cancelled, run_reason := ''cancelled''\<rparr>, rs_claimed := []\<rparr>"

definition cancel_run :: "ext \<Rightarrow> kstate \<Rightarrow> string \<Rightarrow> run outcome" where
  "cancel_run X s rid =
     (case ks_runs s rid of None \<Rightarrow> (Inl (NotFound rid), s) | Some slot \<Rightarrow>
      if run_state (rs_run slot) \<noteq> Running then (Inl (RunClosed (run_state (rs_run slot))), s)
      else let run = rs_run (cancel_slot slot)
           in (Inr run, log_entry X (set_slot s rid (cancel_slot slot)) ''run.cancelled'' (run_id run) (enc_run X run)))"

definition derivations :: "kstate \<Rightarrow> derivation list" where
  "derivations s = ks_derivations s"

definition list_derivations :: "kstate \<Rightarrow> string \<Rightarrow> derivation list outcome" where
  "list_derivations s rid =
     (if ks_runs s rid = None then (Inl (NotFound rid), s)
      else (Inr (filter (\<lambda>d. dv_run_id d = rid) (ks_derivations s)), s))"

end
