(* ===== verification/Cut.thy ===== *)
theory Cut
  imports Policy Runs "HOL-Library.Product_Lexorder"
begin

text \<open>
  Cuts of an assembly and their seeds (\<open>framework/sdk/rust/src/cut.rs\<close>): which nodes a node plan
  keeps, the cut assembly in which every edge from a dropped node becomes a seed input, the seeds
  taken from a prior run, and the check that every seed is given. The breadth-first searches are
  proved to compute transitive closures, and a cut of a well-formed assembly to be well formed.
\<close>

section \<open>Seeds\<close>

definition SEED_INPUT_PREFIX :: string where "SEED_INPUT_PREFIX = ''__seed/''"

definition seed_input_name :: "string \<Rightarrow> string \<Rightarrow> string" where
  "seed_input_name node pname = SEED_INPUT_PREFIX @ node @ ''/'' @ pname"

definition is_seed_input_name :: "string \<Rightarrow> bool" where
  "is_seed_input_name name = (take (length SEED_INPUT_PREFIX) name = SEED_INPUT_PREFIX)"

record seed_spec =
  ss_input_name :: string
  ss_from_node :: string
  ss_from_port :: string
  ss_to_node :: string
  ss_to_port :: string

record skipped_node =
  sk_node_id :: string
  sk_module :: string
  sk_capability :: string
  sk_module_version :: string

record assembly_cut =
  ac_assembly :: assembly
  ac_skipped :: "skipped_node list"
  ac_required_seeds :: "seed_spec list"
  ac_kept_node_ids :: "string list"

section \<open>The two searches\<close>

text \<open>
  The maps \<open>incoming\<close> and \<open>outgoing\<close>: the edges whose both ends are named, by consumer and by
  producer.
\<close>

definition incoming :: "binding list \<Rightarrow> (string \<times> string list) list" where
  "incoming bs = fold (\<lambda>b E. if bd_from_node b = [] \<or> bd_to_node b = [] then E
     else push_edge (bd_to_node b) (bd_from_node b) E) bs []"

definition outgoing :: "binding list \<Rightarrow> (string \<times> string list) list" where
  "outgoing bs = fold (\<lambda>b E. if bd_from_node b = [] \<or> bd_to_node b = [] then E
     else push_edge (bd_from_node b) (bd_to_node b) E) bs []"

text \<open>
  The inner loop of \<open>transitive_predecessors\<close>, over the predecessors of a node: the queue, the set
  \<open>out\<close> and the set \<open>visited\<close>.
\<close>

fun scan_preds :: "string list \<Rightarrow> string list \<Rightarrow> string set \<Rightarrow> string set \<Rightarrow> string list \<times> string set \<times> string set" where
  "scan_preds [] q out visited = (q, out, visited)"
| "scan_preds (p # ps) q out visited =
     (if p \<in> out then scan_preds ps q out visited
      else if p \<in> visited then scan_preds ps q (insert p out) visited
      else scan_preds ps (q @ [p]) (insert p out) (insert p visited))"

text \<open>The inner loop of \<open>reachable_from\<close>.\<close>

fun scan_nexts :: "string list \<Rightarrow> string list \<Rightarrow> string set \<Rightarrow> string list \<times> string set" where
  "scan_nexts [] q out = (q, out)"
| "scan_nexts (n # ns) q out =
     (if n \<in> out then scan_nexts ns q out else scan_nexts ns (q @ [n]) (insert n out))"

definition targets :: "(string \<times> string list) list \<Rightarrow> string set" where
  "targets E = (\<Union>e \<in> set E. set (snd e))"

lemma finite_targets [simp]: "finite (targets E)"
  by (auto simp: targets_def)

lemma next_nodes_targets: "set (next_nodes E n) \<subseteq> targets E"
  by (cases "map_of E n") (auto simp: next_nodes_def targets_def dest!: map_of_SomeD)

lemma card_diff_insert:
  "finite N \<Longrightarrow> p \<in> N \<Longrightarrow> p \<notin> V \<Longrightarrow> Suc (card (N - insert p V)) = card (N - V)"
  by (metis DiffI Diff_insert card.remove finite_Diff)

lemma scan_preds_measure:
  assumes "set ps \<subseteq> targets E" "scan_preds ps q out visited = (q', out', visited')"
  shows "length q' + card (targets E - visited') = length q + card (targets E - visited)"
  using assms
proof (induction ps q out visited rule: scan_preds.induct)
  case (2 p ps q out visited)
  then show ?case using card_diff_insert [of "targets E" p visited] by (auto split: if_splits)
qed simp

lemma scan_nexts_measure:
  assumes "set ns \<subseteq> targets E" "scan_nexts ns q out = (q', out')"
  shows "length q' + card (targets E - out') = length q + card (targets E - out)"
  using assms
proof (induction ns q out rule: scan_nexts.induct)
  case (2 n ns q out)
  then show ?case using card_diff_insert [of "targets E" n out] by (auto split: if_splits)
qed simp

function pred_loop :: "(string \<times> string list) list \<Rightarrow> string list \<Rightarrow> string set \<Rightarrow> string set \<Rightarrow> string set" where
  "pred_loop E [] out visited = out"
| "pred_loop E (cur # q) out visited =
     (case scan_preds (next_nodes E cur) q out visited of
        (q', out', visited') \<Rightarrow> pred_loop E q' out' visited')"
  by pat_completeness auto

termination
proof (relation "measure (\<lambda>(E, q, out, visited). length q + card (targets E - visited))")
  fix E and cur :: string and q out visited y q' out' visited'
  assume "(q', y) = scan_preds (next_nodes E cur) q out visited" "(out', visited') = y"
  then have "scan_preds (next_nodes E cur) q out visited = (q', out', visited')" by simp
  from scan_preds_measure [OF next_nodes_targets this]
  show "((E, q', out', visited'), E, cur # q, out, visited)
      \<in> measure (\<lambda>(E, q, out, visited). length q + card (targets E - visited))" by simp
qed simp

function reach_loop :: "(string \<times> string list) list \<Rightarrow> string list \<Rightarrow> string set \<Rightarrow> string set" where
  "reach_loop E [] out = out"
| "reach_loop E (cur # q) out =
     (case scan_nexts (next_nodes E cur) q out of (q', out') \<Rightarrow> reach_loop E q' out')"
  by pat_completeness auto

termination
proof (relation "measure (\<lambda>(E, q, out). length q + card (targets E - out))")
  fix E and cur :: string and q out q' out'
  assume "(q', out') = scan_nexts (next_nodes E cur) q out"
  from scan_nexts_measure [OF next_nodes_targets this [symmetric]]
  show "((E, q', out'), E, cur # q, out) \<in> measure (\<lambda>(E, q, out). length q + card (targets E - out))" by simp
qed simp

definition transitive_predecessors :: "assembly \<Rightarrow> string \<Rightarrow> string set" where
  "transitive_predecessors a node_id = pred_loop (incoming (as_bindings a)) [node_id] {} {node_id}"

definition reachable_from :: "assembly \<Rightarrow> string \<Rightarrow> string set" where
  "reachable_from a node_id = reach_loop (outgoing (as_bindings a)) [node_id] {node_id}"

section \<open>Which nodes are kept\<close>

text \<open>The loop over the ids of \<open>NodePlan::Only\<close>.\<close>

fun check_only :: "string set \<Rightarrow> string list \<Rightarrow> string set \<Rightarrow> framework_error + string set" where
  "check_only known [] seen = Inr seen"
| "check_only known (i # is) seen =
     (if i \<in> seen then Inl (InvalidUse (''NodePlan::Only contains duplicate node id '' @ i))
      else if i \<notin> known then Inl (InvalidUse (''NodePlan::Only references unknown node '' @ i))
      else check_only known is (insert i seen))"

definition resolve_kept_nodes :: "assembly \<Rightarrow> node_plan \<Rightarrow> framework_error + string set" where
  "resolve_kept_nodes a plan =
     (let known = an_id ` set (as_nodes a) in
      if known = {} then Inl (InvalidUse ''assembly has no nodes'')
      else case as_terminal a of None \<Rightarrow> Inl (InvalidUse ''assembly terminal is required'') | Some terminal \<Rightarrow>
      if no_node terminal \<notin> known
      then Inl (InvalidUse (''terminal node '' @ no_node terminal @ '' is not in the assembly''))
      else case plan of
        AllNodes \<Rightarrow> Inr known
      | OnlyNodes ids \<Rightarrow>
          if ids = [] then Inl (InvalidUse ''NodePlan::Only requires at least one node id'')
          else (case check_only known ids {} of
                  Inl e \<Rightarrow> Inl e
                | Inr kept \<Rightarrow>
                    if no_node terminal \<notin> kept
                    then Inl (InvalidUse ''node plan must retain the terminal node'')
                    else Inr kept)
      | AfterNode node_id \<Rightarrow>
          if node_id \<notin> known
          then Inl (InvalidUse (''NodePlan::After references unknown node '' @ node_id))
          else let dropped = insert node_id (transitive_predecessors a node_id) in
               if no_node terminal \<in> dropped
               then Inl (InvalidUse (''NodePlan::After('' @ node_id @ '') would drop the terminal node''))
               else let kept = {i \<in> known. i \<notin> dropped} in
                    if kept = {} then Inl (InvalidUse ''NodePlan::After left no nodes to run'')
                    else Inr kept
      | FromNode node_id \<Rightarrow>
          if node_id \<notin> known
          then Inl (InvalidUse (''NodePlan::From references unknown node '' @ node_id))
          else let reachable = reachable_from a node_id in
               if no_node terminal \<notin> reachable
               then Inl (InvalidUse (''NodePlan::From('' @ node_id @ ''): terminal '' @
                      no_node terminal @ '' is not reachable from that node''))
               else Inr reachable)"

section \<open>The cut\<close>

text \<open>The loop over the bindings: the seeds by producer port, and the bindings of the cut.\<close>

fun cut_bindings ::
  "string set \<Rightarrow> binding list \<Rightarrow> ((string \<times> string) \<times> seed_spec) list \<Rightarrow> binding list \<Rightarrow>
   framework_error + ((string \<times> string) \<times> seed_spec) list \<times> binding list" where
  "cut_bindings kept [] seeds out = Inr (seeds, out)"
| "cut_bindings kept (b # bs) seeds out =
     (if bd_to_node b \<notin> kept then cut_bindings kept bs seeds out
      else if bd_input b \<noteq> [] then cut_bindings kept bs seeds (out @ [b])
      else if bd_from_node b = []
      then Inl (InvalidUse (''binding to '' @ bd_to_node b @ ''.'' @ bd_to_port b @
             '' has neither input nor from_node''))
      else if bd_from_node b \<in> kept then cut_bindings kept bs seeds (out @ [b])
      else let name = seed_input_name (bd_from_node b) (bd_from_port b);
               key = (bd_from_node b, bd_from_port b);
               seeds' = (case map_of seeds key of
                           Some _ \<Rightarrow> seeds
                         | None \<Rightarrow> bt_insert key
                             \<lparr>ss_input_name = name, ss_from_node = bd_from_node b,
                              ss_from_port = bd_from_port b, ss_to_node = bd_to_node b,
                              ss_to_port = bd_to_port b\<rparr> seeds)
           in cut_bindings kept bs seeds'
                (out @ [\<lparr>bd_to_node = bd_to_node b, bd_to_port = bd_to_port b, bd_from_node = [],
                         bd_from_port = [], bd_input = name\<rparr>]))"

definition skip_node :: "assembly_node \<Rightarrow> skipped_node" where
  "skip_node n = \<lparr>sk_node_id = an_id n, sk_module = an_module n, sk_capability = an_capability n,
     sk_module_version = an_module_version n\<rparr>"

definition materialize_cut :: "assembly \<Rightarrow> node_plan \<Rightarrow> framework_error + assembly_cut" where
  "materialize_cut a plan =
     (case resolve_kept_nodes a plan of Inl e \<Rightarrow> Inl e | Inr kept \<Rightarrow>
      if plan = AllNodes \<or> card kept = length (as_nodes a)
      then Inr \<lparr>ac_assembly = a, ac_skipped = [], ac_required_seeds = [],
                ac_kept_node_ids = map an_id (as_nodes a)\<rparr>
      else case cut_bindings kept (as_bindings a) [] [] of Inl e \<Rightarrow> Inl e | Inr (seeds, bindings) \<Rightarrow>
        let nodes = filter (\<lambda>n. an_id n \<in> kept) (as_nodes a)
        in Inr \<lparr>ac_assembly = \<lparr>as_id = as_id a, as_nodes = nodes, as_bindings = bindings,
                                as_terminal = as_terminal a\<rparr>,
                ac_skipped = map skip_node (filter (\<lambda>n. an_id n \<notin> kept) (as_nodes a)),
                ac_required_seeds = map snd seeds,
                ac_kept_node_ids = map an_id nodes\<rparr>)"

section \<open>Seeds of a prior run\<close>

text \<open>The loop over the outputs of one derivation; \<open>seen\<close> are the names pushed so far.\<close>

fun seed_outputs ::
  "string \<Rightarrow> named_artifact list \<Rightarrow> string set \<Rightarrow> named_artifact list \<Rightarrow>
   framework_error + string set \<times> named_artifact list" where
  "seed_outputs node_id [] seen out = Inr (seen, out)"
| "seed_outputs node_id (v # vs) seen out =
     (if na_name v = [] then seed_outputs node_id vs seen out
      else let name = seed_input_name node_id (na_name v) in
           if name \<in> seen then seed_outputs node_id vs seen out
           else case na_artifact v of
                  None \<Rightarrow> Inl (InvalidUse (''seeds_from_run: output '' @ node_id @ ''.'' @ na_name v @
                                 '' has no artifact ref''))
                | Some art \<Rightarrow> seed_outputs node_id vs (insert name seen)
                                (out @ [\<lparr>na_name = name, na_artifact = Some art\<rparr>]))"

definition latest_of :: "derivation list \<Rightarrow> string \<Rightarrow> derivation option" where
  "latest_of ds node_id = find (\<lambda>d. dv_node_id d = node_id) (rev ds)"

fun seed_nodes ::
  "string \<Rightarrow> derivation list \<Rightarrow> string list \<Rightarrow> string set \<Rightarrow> named_artifact list \<Rightarrow>
   framework_error + named_artifact list" where
  "seed_nodes rid ds [] seen out = Inr out"
| "seed_nodes rid ds (n # ns) seen out =
     (case latest_of ds n of
        None \<Rightarrow> Inl (InvalidUse (''seeds_from_run: no derivation for node '' @ n @ '' on run '' @ rid))
      | Some d \<Rightarrow>
          (case seed_outputs n (dv_outputs d) seen out of
             Inl e \<Rightarrow> Inl e
           | Inr (seen', out') \<Rightarrow> seed_nodes rid ds ns seen' out'))"

definition seeds_from_run ::
  "int \<Rightarrow> kstate \<Rightarrow> string \<Rightarrow> string list \<Rightarrow> request_context \<Rightarrow> framework_error + named_artifact list" where
  "seeds_from_run now s rid cut_nodes ctx =
     (case check_deadline now ctx of Inl e \<Rightarrow> Inl (KernelErr e) | Inr _ \<Rightarrow>
      case fst (list_derivations s rid) of Inl e \<Rightarrow> Inl (KernelErr e) | Inr ds \<Rightarrow>
      if cut_nodes = [] then Inr [] else seed_nodes rid ds (sorted_list_of_set (set cut_nodes)) {} [])"

definition merge_inputs :: "named_artifact list \<Rightarrow> named_artifact list \<Rightarrow> named_artifact list" where
  "merge_inputs base_inputs seeds =
     map snd (bt_of (map (\<lambda>na. (na_name na, na)) (base_inputs @ seeds)))"

definition ARROW :: string where "ARROW = [CHR 0xE2, CHR 0x86, CHR 0x92]"

text \<open>What one required seed contributes to \<open>missing\<close>.\<close>

definition missing_seed :: "named_artifact list \<Rightarrow> seed_spec \<Rightarrow> string option" where
  "missing_seed inputs sd =
     (case map_of (rev (map (\<lambda>i. (na_name i, i)) inputs)) (ss_input_name sd) of
        None \<Rightarrow> Some (ss_input_name sd @ '' (from '' @ ss_from_node sd @ ''.'' @ ss_from_port sd @ '' '' @
                  ARROW @ '' '' @ ss_to_node sd @ ''.'' @ ss_to_port sd @ '')'')
      | Some na \<Rightarrow>
          if na_artifact na = None then Some (ss_input_name sd @ '' (present but artifact ref is empty)'')
          else None)"

definition validate_seeds_present :: "assembly_cut \<Rightarrow> named_artifact list \<Rightarrow> framework_error + unit" where
  "validate_seeds_present ac inputs =
     (let missing = List.map_filter (missing_seed inputs) (ac_required_seeds ac) in
      if missing = [] then Inr ()
      else Inl (InvalidUse (''cut requires seed inputs that were not provided: '' @ join_with ''; '' missing)))"

section \<open>The searches compute closures\<close>

text \<open>The edges between named nodes, from producer to consumer.\<close>

definition cut_edges :: "binding list \<Rightarrow> (string \<times> string) set" where
  "cut_edges bs = {(bd_from_node b, bd_to_node b) |b. b \<in> set bs \<and> bd_from_node b \<noteq> [] \<and> bd_to_node b \<noteq> []}"

lemma cut_edges_Cons:
  "cut_edges (b # bs) = (if bd_from_node b = [] \<or> bd_to_node b = [] then {} else {(bd_from_node b, bd_to_node b)}) \<union> cut_edges bs"
  by (auto simp: cut_edges_def)

lemma edge_rel_Nil: "edge_rel [] = {}"
  by (simp add: edge_rel_def next_nodes_def)

lemma edge_rel_outgoing: "edge_rel (outgoing bs) = cut_edges bs"
proof -
  have "edge_rel (fold (\<lambda>b E. if bd_from_node b = [] \<or> bd_to_node b = [] then E
      else push_edge (bd_from_node b) (bd_to_node b) E) bs E) = edge_rel E \<union> cut_edges bs" for E
    by (induction bs arbitrary: E) (auto simp: cut_edges_Cons edge_rel_push cut_edges_def)
  then show ?thesis by (simp add: outgoing_def edge_rel_Nil)
qed

lemma edge_rel_incoming: "edge_rel (incoming bs) = (cut_edges bs)\<inverse>"
proof -
  have "edge_rel (fold (\<lambda>b E. if bd_from_node b = [] \<or> bd_to_node b = [] then E
      else push_edge (bd_to_node b) (bd_from_node b) E) bs E) = edge_rel E \<union> (cut_edges bs)\<inverse>" for E
    by (induction bs arbitrary: E) (auto simp: cut_edges_Cons edge_rel_push cut_edges_def)
  then show ?thesis by (simp add: incoming_def edge_rel_Nil)
qed

lemma edge_rel_next: "edge_rel E `` {x} = set (next_nodes E x)"
  by (auto simp: edge_rel_def)

lemma scan_nexts_sets:
  "scan_nexts ns q out = (q', out') \<Longrightarrow> out' = out \<union> set ns \<and> set q' = set q \<union> (set ns - out)"
proof (induction ns q out rule: scan_nexts.induct)
  case (2 n ns q out)
  then show ?case by (cases "n \<in> out") auto
qed auto

lemma scan_preds_sets:
  assumes "scan_preds ps q out visited = (q', out', visited')" "visited = insert start out"
  shows "out' = out \<union> set ps \<and> visited' = insert start out' \<and> set q' = set q \<union> (set ps - visited)"
  using assms
proof (induction ps q out visited rule: scan_preds.induct)
  case (2 p ps q out visited)
  consider "p \<in> out" | "p \<notin> out" "p = start" | "p \<notin> out" "p \<noteq> start" by blast
  then show ?case
  proof cases
    case 3
    then have "p \<notin> visited" "insert p visited = insert start (insert p out)" using "2.prems"(2) by auto
    with 2 3 show ?thesis by auto
  qed (use 2 in auto)
qed auto

lemma closed_contains:
  assumes "start \<in> V" "\<And>x. x \<in> V \<Longrightarrow> R `` {x} \<subseteq> V" "(start, y) \<in> R\<^sup>*"
  shows "y \<in> V"
  using assms(3,1) by induction (use assms(2) in auto)

lemma reach_loop_closure:
  assumes "start \<in> out" "set q \<subseteq> out" "out \<subseteq> (edge_rel E)\<^sup>* `` {start}"
    and "\<And>x. x \<in> out \<Longrightarrow> x \<notin> set q \<Longrightarrow> edge_rel E `` {x} \<subseteq> out"
  shows "reach_loop E q out = (edge_rel E)\<^sup>* `` {start}"
  using assms
proof (induction E q out rule: reach_loop.induct)
  case (1 E out)
  then have "y \<in> out" if "(start, y) \<in> (edge_rel E)\<^sup>*" for y
    using closed_contains [OF _ _ that, of out] by simp
  with 1 show ?case by auto
next
  case (2 E cur q out)
  obtain q' out' where s: "scan_nexts (next_nodes E cur) q out = (q', out')" by fastforce
  note sets = scan_nexts_sets [OF s]
  have cur: "(start, cur) \<in> (edge_rel E)\<^sup>*" using "2.prems"(2,3) by auto
  have "reach_loop E q' out' = (edge_rel E)\<^sup>* `` {start}"
  proof (rule "2.IH" [OF s [symmetric]])
    show "start \<in> out'" "set q' \<subseteq> out'" using sets "2.prems" by auto
    have "set (next_nodes E cur) \<subseteq> (edge_rel E)\<^sup>* `` {start}"
      using cur edge_rel_next [of E cur] by (auto intro: rtrancl_into_rtrancl)
    then show "out' \<subseteq> (edge_rel E)\<^sup>* `` {start}" using sets "2.prems"(3) by auto
    show "edge_rel E `` {x} \<subseteq> out'" if "x \<in> out'" "x \<notin> set q'" for x
      using that sets "2.prems"(4) [of x] edge_rel_next [of E cur] by (cases "x = cur") auto
  qed
  with s show ?case by simp
qed

lemma pred_loop_closure:
  assumes "visited = insert start out" "set q \<subseteq> visited" "out \<subseteq> (edge_rel E)\<^sup>+ `` {start}"
    and "\<And>x. x \<in> visited \<Longrightarrow> x \<notin> set q \<Longrightarrow> edge_rel E `` {x} \<subseteq> out"
  shows "pred_loop E q out visited = (edge_rel E)\<^sup>+ `` {start}"
  using assms
proof (induction E q out visited rule: pred_loop.induct)
  case (1 E out visited)
  have "y \<in> out" if "(start, y) \<in> (edge_rel E)\<^sup>+" for y
  proof -
    from that obtain z where z: "(start, z) \<in> edge_rel E" "(z, y) \<in> (edge_rel E)\<^sup>*" by (auto dest: tranclD)
    have "z \<in> out" using z(1) "1.prems"(1) "1.prems"(4) [of start] by auto
    with z(2) "1.prems"(1,4) show ?thesis using closed_contains [of z out "edge_rel E" y] by auto
  qed
  with 1 show ?case by auto
next
  case (2 E cur q out visited)
  obtain q' out' visited' where s: "scan_preds (next_nodes E cur) q out visited = (q', out', visited')"
    by (metis prod_cases3)
  note sets = scan_preds_sets [OF s "2.prems"(1)]
  have "(start, cur) \<in> (edge_rel E)\<^sup>*" using "2.prems"(1-3) by (auto dest: trancl_into_rtrancl)
  then have new: "set (next_nodes E cur) \<subseteq> (edge_rel E)\<^sup>+ `` {start}"
    using edge_rel_next [of E cur] by (auto intro: rtrancl_into_trancl1)
  have "pred_loop E q' out' visited' = (edge_rel E)\<^sup>+ `` {start}"
  proof (rule "2.IH" [OF s [symmetric] refl])
    show "visited' = insert start out'" "set q' \<subseteq> visited'" using sets "2.prems" by auto
    show "out' \<subseteq> (edge_rel E)\<^sup>+ `` {start}" using new sets "2.prems"(3) by auto
    show "edge_rel E `` {x} \<subseteq> out'" if "x \<in> visited'" "x \<notin> set q'" for x
      using that sets "2.prems"(1) "2.prems"(4) [of x] edge_rel_next [of E cur] by (cases "x = cur") auto
  qed
  with s show ?case by simp
qed

lemma reachable_from_closure: "reachable_from a n = {m. (n, m) \<in> (cut_edges (as_bindings a))\<^sup>*}"
proof -
  have "reach_loop (outgoing (as_bindings a)) [n] {n} = (edge_rel (outgoing (as_bindings a)))\<^sup>* `` {n}"
    by (rule reach_loop_closure) auto
  then show ?thesis by (auto simp: reachable_from_def edge_rel_outgoing)
qed

lemma transitive_predecessors_closure:
  "transitive_predecessors a n = {m. (m, n) \<in> (cut_edges (as_bindings a))\<^sup>+}"
proof -
  have "pred_loop (incoming (as_bindings a)) [n] {} {n} = (edge_rel (incoming (as_bindings a)))\<^sup>+ `` {n}"
    by (rule pred_loop_closure) auto
  then show ?thesis by (auto simp: transitive_predecessors_def edge_rel_incoming trancl_converse)
qed

section \<open>What a plan keeps\<close>

definition kept_by :: "assembly \<Rightarrow> node_plan \<Rightarrow> string set \<Rightarrow> bool" where
  "kept_by a plan K =
     (let ids = an_id ` set (as_nodes a); R = cut_edges (as_bindings a) in
      case plan of
        AllNodes \<Rightarrow> K = ids
      | OnlyNodes is \<Rightarrow> distinct is \<and> set is \<subseteq> ids \<and> K = set is
      | AfterNode n \<Rightarrow> n \<in> ids \<and> K = {m \<in> ids. (m, n) \<notin> R\<^sup>*}
      | FromNode n \<Rightarrow> n \<in> ids \<and> K = {m. (n, m) \<in> R\<^sup>*})"

lemma check_only_iff:
  "check_only known is seen = Inr K \<longleftrightarrow>
     distinct is \<and> set is \<inter> seen = {} \<and> set is \<subseteq> known \<and> K = seen \<union> set is"
  by (induction "is" arbitrary: seen) auto

lemma resolve_kept_iff:
  "resolve_kept_nodes a plan = Inr K \<longleftrightarrow>
     (\<exists>t. as_terminal a = Some t \<and> no_node t \<in> an_id ` set (as_nodes a) \<and> no_node t \<in> K) \<and> kept_by a plan K"
proof -
  have star: "insert n {m. (m, n) \<in> (cut_edges bs)\<^sup>+} = {m. (m, n) \<in> (cut_edges bs)\<^sup>*}" for n bs
    by (auto simp: rtrancl_eq_or_trancl)
  show ?thesis
    by (cases plan; cases "as_nodes a = []")
      (auto simp: resolve_kept_nodes_def kept_by_def Let_def check_only_iff case_sum_Inr reachable_from_closure
        transitive_predecessors_closure star split: option.splits if_splits)
qed

section \<open>What a cut does to the bindings\<close>

definition crossing :: "string set \<Rightarrow> binding \<Rightarrow> bool" where
  "crossing K b \<longleftrightarrow> bd_to_node b \<in> K \<and> bd_input b = [] \<and> bd_from_node b \<notin> K"

definition rebind :: "string set \<Rightarrow> binding \<Rightarrow> binding" where
  "rebind K b =
     (if bd_input b \<noteq> [] \<or> bd_from_node b \<in> K then b
      else \<lparr>bd_to_node = bd_to_node b, bd_to_port = bd_to_port b, bd_from_node = [], bd_from_port = [],
            bd_input = seed_input_name (bd_from_node b) (bd_from_port b)\<rparr>)"

definition seeds_ok :: "((string \<times> string) \<times> seed_spec) list \<Rightarrow> bool" where
  "seeds_ok seeds \<longleftrightarrow> bt_wf seeds \<and> (\<forall>((n, p), sd) \<in> set seeds.
     ss_from_node sd = n \<and> ss_from_port sd = p \<and> ss_input_name sd = seed_input_name n p)"

lemma set_bt_insert: "bt_wf m \<Longrightarrow> set (bt_insert k v m) \<subseteq> insert (k, v) (set m)"
  by (induction k v m rule: bt_insert.induct) (auto simp: bt_wf_Cons)

lemma seeds_ok_insert:
  assumes "seeds_ok seeds" "ss_from_node sd = n" "ss_from_port sd = p" "ss_input_name sd = seed_input_name n p"
  shows "seeds_ok (bt_insert (n, p) sd seeds)"
  using assms set_bt_insert [of seeds "(n, p)" sd] by (fastforce simp: seeds_ok_def)

lemma fst_bt_insert: "fst ` set (bt_insert k v m) = insert k (fst ` set m)"
  using set_bt_insert_keys [of k v m] by simp

lemma cut_bindings_result:
  assumes "cut_bindings K bs seeds out = Inr (seeds', out')" "seeds_ok seeds"
  shows "out' = out @ map (rebind K) (filter (\<lambda>b. bd_to_node b \<in> K) bs) \<and> seeds_ok seeds' \<and>
    fst ` set seeds' = fst ` set seeds \<union> {(bd_from_node b, bd_from_port b) |b. b \<in> set bs \<and> crossing K b} \<and>
    (\<forall>b \<in> set bs. crossing K b \<longrightarrow> bd_from_node b \<noteq> [])"
  using assms
proof (induction bs arbitrary: seeds out)
  case (Cons b bs)
  show ?case
  proof (cases "crossing K b")
    case False
    let ?new = "if bd_to_node b \<in> K then [b] else []"
    have keep: "cut_bindings K bs seeds (out @ ?new) = Inr (seeds', out')"
      using Cons.prems(1) False by (auto simp: crossing_def split: if_splits)
    have "rebind K b = b" if "bd_to_node b \<in> K" using that False by (auto simp: rebind_def crossing_def)
    then have "map (rebind K) (filter (\<lambda>b. bd_to_node b \<in> K) (b # bs)) =
        ?new @ map (rebind K) (filter (\<lambda>b. bd_to_node b \<in> K) bs)" by simp
    moreover have "{(bd_from_node c, bd_from_port c) |c. c \<in> set (b # bs) \<and> crossing K c} =
        {(bd_from_node c, bd_from_port c) |c. c \<in> set bs \<and> crossing K c}" using False by auto
    ultimately show ?thesis using Cons.IH [OF keep Cons.prems(2)] False by simp
  next
    case True
    then have c: "bd_to_node b \<in> K" "bd_input b = []" "bd_from_node b \<notin> K" by (simp_all add: crossing_def)
    with Cons.prems(1) have ne: "bd_from_node b \<noteq> []" by (auto split: if_splits)
    let ?k = "(bd_from_node b, bd_from_port b)"
    let ?sd = "\<lparr>ss_input_name = seed_input_name (bd_from_node b) (bd_from_port b), ss_from_node = bd_from_node b,
        ss_from_port = bd_from_port b, ss_to_node = bd_to_node b, ss_to_port = bd_to_port b\<rparr>"
    let ?seeds = "case map_of seeds ?k of Some _ \<Rightarrow> seeds | None \<Rightarrow> bt_insert ?k ?sd seeds"
    have ok: "seeds_ok ?seeds" using Cons.prems(2) by (auto intro: seeds_ok_insert split: option.split)
    have keys: "fst ` set ?seeds = insert ?k (fst ` set seeds)"
      by (auto simp: fst_bt_insert map_of_eq_None_iff split: option.split dest: map_of_SomeD intro: rev_image_eqI)
    have "cut_bindings K bs ?seeds (out @ [rebind K b]) = Inr (seeds', out')"
      using Cons.prems(1) c ne by (simp add: rebind_def Let_def)
    note ih = Cons.IH [OF this ok]
    have "map (rebind K) (filter (\<lambda>b. bd_to_node b \<in> K) (b # bs)) =
        rebind K b # map (rebind K) (filter (\<lambda>b. bd_to_node b \<in> K) bs)" using c by simp
    moreover have "{(bd_from_node d, bd_from_port d) |d. d \<in> set (b # bs) \<and> crossing K d} =
        insert ?k {(bd_from_node d, bd_from_port d) |d. d \<in> set bs \<and> crossing K d}" using True by auto
    ultimately show ?thesis using ih keys ne True by simp
  qed
qed simp

section \<open>A cut of a well-formed assembly is well formed\<close>

definition cut_assembly :: "assembly \<Rightarrow> string set \<Rightarrow> assembly" where
  "cut_assembly a K =
     \<lparr>as_id = as_id a, as_nodes = filter (\<lambda>n. an_id n \<in> K) (as_nodes a),
      as_bindings = map (rebind K) (filter (\<lambda>b. bd_to_node b \<in> K) (as_bindings a)),
      as_terminal = as_terminal a\<rparr>"

lemma materialize_cut_cases:
  assumes "materialize_cut a plan = Inr c"
  obtains (full) K where "resolve_kept_nodes a plan = Inr K" "plan = AllNodes \<or> card K = length (as_nodes a)"
      "ac_assembly c = a" "ac_skipped c = []" "ac_required_seeds c = []" "ac_kept_node_ids c = map an_id (as_nodes a)"
  | (cut) K seeds where "resolve_kept_nodes a plan = Inr K" "plan \<noteq> AllNodes" "card K \<noteq> length (as_nodes a)"
      "seeds_ok seeds"
      "fst ` set seeds = {(bd_from_node b, bd_from_port b) |b. b \<in> set (as_bindings a) \<and> crossing K b}"
      "ac_assembly c = cut_assembly a K" "ac_required_seeds c = map snd seeds"
      "ac_skipped c = map skip_node (filter (\<lambda>n. an_id n \<notin> K) (as_nodes a))"
      "ac_kept_node_ids c = map an_id (filter (\<lambda>n. an_id n \<in> K) (as_nodes a))"
proof -
  from assms obtain K where K: "resolve_kept_nodes a plan = Inr K"
    by (auto simp: materialize_cut_def case_sum_Inr)
  show thesis
  proof (cases "plan = AllNodes \<or> card K = length (as_nodes a)")
    case True
    with assms K show thesis by (intro full [OF K]) (auto simp: materialize_cut_def)
  next
    case False
    with assms K obtain seeds bs where b: "cut_bindings K (as_bindings a) [] [] = Inr (seeds, bs)"
      by (auto simp: materialize_cut_def case_sum_Inr)
    have "seeds_ok []" by (simp add: seeds_ok_def)
    note r = cut_bindings_result [OF b this]
    show thesis
    proof (rule cut [OF K])
      show "ac_assembly c = cut_assembly a K" using assms K b r False
        by (auto simp: materialize_cut_def cut_assembly_def Let_def)
    qed (use assms K b r False in \<open>auto simp: materialize_cut_def Let_def\<close>)
  qed
qed

lemma in_port_cut: "in_port s (cut_assembly a K) node name p \<longleftrightarrow> in_port s a node name p \<and> node \<in> K"
  by (auto simp: in_port_def cut_assembly_def)

lemma out_port_cut: "out_port s (cut_assembly a K) node name p \<longleftrightarrow> out_port s a node name p \<and> node \<in> K"
  by (auto simp: out_port_def cut_assembly_def)

lemma rebind_target [simp]: "bd_to_node (rebind K b) = bd_to_node b" "bd_to_port (rebind K b) = bd_to_port b"
  by (simp_all add: rebind_def)

lemma binding_count_cut: "node \<in> K \<Longrightarrow> binding_count (cut_assembly a K) node name = binding_count a node name"
proof -
  assume "node \<in> K"
  then have "length (filter (\<lambda>b. bd_to_node b = node \<and> bd_to_port b = name)
      (map (rebind K) (filter (\<lambda>b. bd_to_node b \<in> K) bs))) =
    length (filter (\<lambda>b. bd_to_node b = node \<and> bd_to_port b = name) bs)" for bs
    by (induction bs) auto
  then show ?thesis by (simp add: binding_count_def cut_assembly_def)
qed

lemma seed_input_name_nonempty [simp]: "seed_input_name n p \<noteq> []"
  by (simp add: seed_input_name_def SEED_INPUT_PREFIX_def)

lemma node_edges_cut: "node_edges (as_bindings (cut_assembly a K)) \<subseteq> node_edges (as_bindings a)"
  by (auto simp: node_edges_def cut_assembly_def rebind_def split: if_splits)

lemma binding_ok_mono:
  "binding_ok s a inputs b \<Longrightarrow> set inputs \<subseteq> set inputs' \<Longrightarrow> binding_ok s a inputs' b"
  unfolding binding_ok_def bound_artifact_def by (auto split: if_splits; blast)

text \<open>The seed of a crossing binding is there and has the traits of the port it is bound to.\<close>

definition seeded :: "kstate \<Rightarrow> assembly \<Rightarrow> named_artifact list \<Rightarrow> binding \<Rightarrow> bool" where
  "seeded s a inputs b \<longleftrightarrow>
     (\<exists>art. bound_artifact s inputs (seed_input_name (bd_from_node b) (bd_from_port b)) art \<and>
        (\<forall>p. in_port s a (bd_to_node b) (bd_to_port b) p \<longrightarrow> has_traits art (port_traits p)))"

lemma binding_ok_cut:
  assumes "binding_ok s a inputs b" "set inputs \<subseteq> set inputs'" "bd_to_node b \<in> K"
    and "crossing K b \<Longrightarrow> seeded s a inputs' b"
  shows "binding_ok s (cut_assembly a K) inputs' (rebind K b)"
proof (cases "crossing K b")
  case True
  then have c: "bd_input b = []" "bd_from_node b \<notin> K" by (simp_all add: crossing_def)
  obtain p where p: "in_port s a (bd_to_node b) (bd_to_port b) p" using assms(1) by (auto simp: binding_ok_def)
  with assms(4) [OF True] show ?thesis
    using c assms(3) by (auto simp: binding_ok_def rebind_def in_port_cut seeded_def)
next
  case False
  with assms(3) have keep: "rebind K b = b" "bd_input b = [] \<Longrightarrow> bd_from_node b \<in> K"
    by (auto simp: rebind_def crossing_def)
  have "binding_ok s a inputs' b" using assms(1,2) by (rule binding_ok_mono)
  with keep assms(3) show ?thesis by (auto simp: binding_ok_def in_port_cut out_port_cut split: if_splits)
qed

lemma cut_assembly_well_formed:
  assumes wf: "well_formed_assembly s a inputs" and ins: "inputs_ok s inputs'" "set inputs \<subseteq> set inputs'"
    and t: "as_terminal a = Some t" "no_node t \<in> K"
    and seeds: "\<And>b. b \<in> set (as_bindings a) \<Longrightarrow> crossing K b \<Longrightarrow> seeded s a inputs' b"
  shows "well_formed_assembly s (cut_assembly a K) inputs'"
proof -
  have nodes: "nodes_ok s (cut_assembly a K)"
    using wf by (auto simp: well_formed_assembly_def nodes_ok_def cut_assembly_def distinct_map_filter)
  obtain p where p: "out_port s a (no_node t) (no_port t) p" "\<not> port_multiple p"
    using wf t(1) by (auto simp: well_formed_assembly_def)
  then have terminal: "out_port s (cut_assembly a K) (no_node t) (no_port t) p" using t(2) by (simp add: out_port_cut)
  then have ne: "as_nodes (cut_assembly a K) \<noteq> []" by (auto simp: out_port_def)
  have "binding_ok s (cut_assembly a K) inputs' b" if "b \<in> set (as_bindings (cut_assembly a K))" for b
  proof -
    from that obtain b0 where b0: "b = rebind K b0" "b0 \<in> set (as_bindings a)" "bd_to_node b0 \<in> K"
      by (auto simp: cut_assembly_def)
    with wf have "binding_ok s a inputs b0" by (simp add: well_formed_assembly_def)
    from binding_ok_cut [OF this ins(2) b0(3)] seeds b0 show ?thesis by blast
  qed
  moreover have "acyclic (node_edges (as_bindings (cut_assembly a K)))"
    using wf node_edges_cut by (auto simp: well_formed_assembly_def intro: acyclic_subset)
  ultimately show ?thesis
    using wf nodes terminal ne p t ins(1)
    by (auto simp: well_formed_assembly_def in_port_cut binding_count_cut) (auto simp: cut_assembly_def)
qed

lemma well_formed_ends:
  assumes "well_formed_assembly s a inputs" "b \<in> set (as_bindings a)"
  shows "bd_to_node b \<in> an_id ` set (as_nodes a)" "bd_input b = [] \<Longrightarrow> bd_from_node b \<in> an_id ` set (as_nodes a)"
proof -
  have "binding_ok s a inputs b" using assms by (simp add: well_formed_assembly_def)
  then show "bd_to_node b \<in> an_id ` set (as_nodes a)" "bd_input b = [] \<Longrightarrow> bd_from_node b \<in> an_id ` set (as_nodes a)"
    by (auto simp: binding_ok_def in_port_def out_port_def intro: rev_image_eqI)
qed

lemma materialize_cut_well_formed:
  assumes "well_formed_assembly s a inputs" "materialize_cut a plan = Inr c"
    and "inputs_ok s inputs'" "set inputs \<subseteq> set inputs'"
    and "\<forall>b \<in> set (as_bindings a). crossing (set (ac_kept_node_ids c)) b \<longrightarrow> seeded s a inputs' b"
  shows "well_formed_assembly s (ac_assembly c) inputs'"
  using assms(2)
proof (cases rule: materialize_cut_cases)
  case (full K)
  have "\<forall>b \<in> set (as_bindings a). binding_ok s a inputs' b"
    using assms(1,4) by (auto simp: well_formed_assembly_def intro: binding_ok_mono)
  with assms(1,3) full(3) show ?thesis by (simp add: well_formed_assembly_def)
next
  case (cut K seeds)
  from cut(1) obtain t where t: "as_terminal a = Some t" "no_node t \<in> K" by (auto simp: resolve_kept_iff)
  have "crossing (set (ac_kept_node_ids c)) b" if "b \<in> set (as_bindings a)" "crossing K b" for b
    using that well_formed_ends [OF assms(1) that(1)] cut(9) by (auto simp: crossing_def)
  with assms(5) have "\<And>b. b \<in> set (as_bindings a) \<Longrightarrow> crossing K b \<Longrightarrow> seeded s a inputs' b" by blast
  with cut(6) cut_assembly_well_formed [OF assms(1,3,4) t] show ?thesis by simp
qed

section \<open>Seeds of a prior run\<close>

lemma seed_input_name_port [simp]: "seed_input_name n p = seed_input_name n q \<longleftrightarrow> p = q"
  by (simp add: seed_input_name_def)

lemma seed_input_name_inj:
  assumes "seed_input_name n p = seed_input_name m q" "CHR ''/'' \<notin> set n" "CHR ''/'' \<notin> set m"
  shows "n = m \<and> p = q"
proof -
  have "n @ CHR ''/'' # p = m @ CHR ''/'' # q" using assms(1) by (simp add: seed_input_name_def)
  with assms(2,3) show ?thesis by (auto simp: append_eq_append_conv2 append_eq_Cons_conv Cons_eq_append_conv)
qed

text \<open>A seed is the first output of its port in the derivation it is taken from.\<close>

definition seed_from :: "string \<Rightarrow> named_artifact list \<Rightarrow> named_artifact \<Rightarrow> bool" where
  "seed_from n vs w \<longleftrightarrow> (\<exists>p v. p \<noteq> [] \<and> find (\<lambda>v. na_name v = p) vs = Some v \<and> na_artifact v \<noteq> None \<and>
     w = \<lparr>na_name = seed_input_name n p, na_artifact = na_artifact v\<rparr>)"

lemma seed_outputs_result:
  assumes "seed_outputs n vs seen out = Inr (seen', out')"
  shows "\<exists>ext. out' = out @ ext \<and> seen' = seen \<union> na_name ` set ext \<and> distinct (map na_name ext) \<and>
    na_name ` set ext \<inter> seen = {} \<and> (\<forall>w \<in> set ext. seed_from n vs w) \<and>
    (\<forall>v \<in> set vs. na_name v \<noteq> [] \<longrightarrow> seed_input_name n (na_name v) \<in> seen')"
  using assms
proof (induction vs arbitrary: seen out)
  case (Cons v vs)
  let ?name = "seed_input_name n (na_name v)"
  have skip: "seed_from n (v # vs) w" if "seed_from n vs w" "na_name v = [] \<or> na_name w \<noteq> ?name" for w
  proof -
    from that(1) obtain p u where w: "p \<noteq> []" "find (\<lambda>v. na_name v = p) vs = Some u" "na_artifact u \<noteq> None"
      "w = \<lparr>na_name = seed_input_name n p, na_artifact = na_artifact u\<rparr>" unfolding seed_from_def by blast
    with that(2) have "na_name v \<noteq> p" by auto
    with w show ?thesis unfolding seed_from_def by (intro exI [of _ p] exI [of _ u]) simp
  qed
  show ?case
  proof (cases "na_name v = [] \<or> ?name \<in> seen")
    case True
    with Cons.prems have "seed_outputs n vs seen out = Inr (seen', out')" by (auto simp: Let_def split: if_splits)
    from Cons.IH [OF this] obtain ext where e: "out' = out @ ext" "seen' = seen \<union> na_name ` set ext"
      "distinct (map na_name ext)" "na_name ` set ext \<inter> seen = {}" "\<forall>w \<in> set ext. seed_from n vs w"
      "\<forall>v \<in> set vs. na_name v \<noteq> [] \<longrightarrow> seed_input_name n (na_name v) \<in> seen'" by blast
    have "seed_from n (v # vs) w" if "w \<in> set ext" for w using that e(4,5) True by (intro skip) auto
    with e True show ?thesis by (intro exI [of _ ext]) auto
  next
    case False
    with Cons.prems obtain r where r: "na_artifact v = Some r"
      and rest: "seed_outputs n vs (insert ?name seen) (out @ [\<lparr>na_name = ?name, na_artifact = Some r\<rparr>]) = Inr (seen', out')"
      by (auto simp: Let_def split: option.splits)
    let ?w = "\<lparr>na_name = ?name, na_artifact = Some r\<rparr> :: named_artifact"
    from Cons.IH [OF rest] obtain ext where e: "out' = (out @ [?w]) @ ext"
      "seen' = insert ?name seen \<union> na_name ` set ext" "distinct (map na_name ext)"
      "na_name ` set ext \<inter> insert ?name seen = {}" "\<forall>w \<in> set ext. seed_from n vs w"
      "\<forall>v \<in> set vs. na_name v \<noteq> [] \<longrightarrow> seed_input_name n (na_name v) \<in> seen'" by blast
    have "seed_from n (v # vs) ?w" using False r by (auto simp: seed_from_def)
    moreover have "seed_from n (v # vs) w" if "w \<in> set ext" for w
    proof (rule skip)
      show "seed_from n vs w" using that e(5) by blast
      have "na_name w \<notin> insert ?name seen" using that e(4) by blast
      then show "na_name v = [] \<or> na_name w \<noteq> ?name" by auto
    qed
    ultimately show ?thesis using e False by (intro exI [of _ "?w # ext"]) auto
  qed
qed auto

lemma seed_nodes_result:
  assumes "seed_nodes rid ds ns seen out = Inr res"
  shows "\<exists>ext. res = out @ ext \<and> distinct (map na_name ext) \<and> na_name ` set ext \<inter> seen = {} \<and>
    (\<forall>w \<in> set ext. \<exists>n d. n \<in> set ns \<and> latest_of ds n = Some d \<and> seed_from n (dv_outputs d) w) \<and>
    (\<forall>n \<in> set ns. \<exists>d. latest_of ds n = Some d \<and> (\<forall>v \<in> set (dv_outputs d). na_name v \<noteq> [] \<longrightarrow>
       seed_input_name n (na_name v) \<in> seen \<union> na_name ` set ext))"
  using assms
proof (induction ns arbitrary: seen out)
  case (Cons n ns)
  then obtain d where d: "latest_of ds n = Some d" by (auto split: option.splits)
  with Cons.prems obtain seen1 out1 where o: "seed_outputs n (dv_outputs d) seen out = Inr (seen1, out1)"
    and rest: "seed_nodes rid ds ns seen1 out1 = Inr res" by (auto split: sum.splits)
  from seed_outputs_result [OF o] obtain e where e: "out1 = out @ e" "seen1 = seen \<union> na_name ` set e"
    "distinct (map na_name e)" "na_name ` set e \<inter> seen = {}" "\<forall>w \<in> set e. seed_from n (dv_outputs d) w"
    "\<forall>v \<in> set (dv_outputs d). na_name v \<noteq> [] \<longrightarrow> seed_input_name n (na_name v) \<in> seen1" by blast
  from Cons.IH [OF rest] obtain f where f: "res = out1 @ f" "distinct (map na_name f)"
    "na_name ` set f \<inter> seen1 = {}"
    "\<forall>w \<in> set f. \<exists>n d. n \<in> set ns \<and> latest_of ds n = Some d \<and> seed_from n (dv_outputs d) w"
    "\<forall>n \<in> set ns. \<exists>d. latest_of ds n = Some d \<and> (\<forall>v \<in> set (dv_outputs d). na_name v \<noteq> [] \<longrightarrow>
       seed_input_name n (na_name v) \<in> seen1 \<union> na_name ` set f)" by blast
  show ?case
  proof (intro exI [of _ "e @ f"] conjI)
    show "res = out @ e @ f" using e f by simp
    show "distinct (map na_name (e @ f))" "na_name ` set (e @ f) \<inter> seen = {}" using e(2-4) f(2,3) by auto
    show "\<forall>w \<in> set (e @ f). \<exists>m d. m \<in> set (n # ns) \<and> latest_of ds m = Some d \<and> seed_from m (dv_outputs d) w"
      using d e(5) f(4) unfolding set_append set_simps by blast
    have "seen \<union> na_name ` set (e @ f) = seen1 \<union> na_name ` set f" using e(2) by auto
    then show "\<forall>m \<in> set (n # ns). \<exists>d. latest_of ds m = Some d \<and> (\<forall>v \<in> set (dv_outputs d). na_name v \<noteq> [] \<longrightarrow>
        seed_input_name m (na_name v) \<in> seen \<union> na_name ` set (e @ f))"
      using d e(6) f(5) by auto
  qed
qed auto

lemma merge_inputs_lookup:
  "map_of (map (\<lambda>i. (na_name i, i)) (merge_inputs base_inputs seeds)) x =
     find (\<lambda>i. na_name i = x) (rev (base_inputs @ seeds))"
  "distinct (map na_name (merge_inputs base_inputs seeds))"
proof -
  let ?rows = "map (\<lambda>na. (na_name na, na)) (base_inputs @ seeds)"
  have keyed: "\<forall>(k, v) \<in> set (bt_of rows). (k, v) \<in> set rows" for rows :: "(string \<times> named_artifact) list"
    using map_of_bt_of [of rows] by (auto simp: bt_wf_distinct map_of_SomeD dest!: map_of_is_SomeI [OF bt_wf_distinct [OF bt_of_wf]])
      (metis map_of_SomeD set_rev)
  have same: "map (\<lambda>i. (na_name i, i)) (merge_inputs base_inputs seeds) = bt_of ?rows"
    using keyed [of ?rows] by (auto simp: merge_inputs_def comp_def intro!: map_idI)
  have "map_of (map (\<lambda>na. (na_name na, na)) vs) x = find (\<lambda>i. na_name i = x) vs" for vs :: "named_artifact list"
    by (induction vs) auto
  then show "map_of (map (\<lambda>i. (na_name i, i)) (merge_inputs base_inputs seeds)) x =
     find (\<lambda>i. na_name i = x) (rev (base_inputs @ seeds))"
    unfolding same map_of_bt_of rev_map .
  have "map na_name (merge_inputs base_inputs seeds) = map fst (bt_of ?rows)"
    unfolding same [symmetric] by (simp add: comp_def)
  then show "distinct (map na_name (merge_inputs base_inputs seeds))" by (simp add: bt_wf_distinct)
qed

lemma seeds_from_run_result:
  assumes "seeds_from_run now s rid cut_nodes ctx = Inr seeds"
  shows "distinct (map na_name seeds) \<and>
    (\<forall>w \<in> set seeds. na_artifact w \<noteq> None \<and> (\<exists>n d. n \<in> set cut_nodes \<and>
       latest_of (filter (\<lambda>d. dv_run_id d = rid) (ks_derivations s)) n = Some d \<and> seed_from n (dv_outputs d) w)) \<and>
    (\<forall>n \<in> set cut_nodes. \<exists>d. latest_of (filter (\<lambda>d. dv_run_id d = rid) (ks_derivations s)) n = Some d \<and>
       (\<forall>v \<in> set (dv_outputs d). na_name v \<noteq> [] \<longrightarrow> seed_input_name n (na_name v) \<in> na_name ` set seeds))"
proof (cases "cut_nodes = []")
  case True
  with assms show ?thesis by (auto simp: seeds_from_run_def split: sum.splits)
next
  case False
  let ?ds = "filter (\<lambda>d. dv_run_id d = rid) (ks_derivations s)"
  from assms False have "seed_nodes rid ?ds (sorted_list_of_set (set cut_nodes)) {} [] = Inr seeds"
    by (auto simp: seeds_from_run_def list_derivations_def split: sum.splits if_splits)
  from seed_nodes_result [OF this] obtain ext where e: "seeds = ext" "distinct (map na_name ext)"
    "\<forall>w \<in> set ext. \<exists>n d. n \<in> set cut_nodes \<and> latest_of ?ds n = Some d \<and> seed_from n (dv_outputs d) w"
    "\<forall>n \<in> set cut_nodes. \<exists>d. latest_of ?ds n = Some d \<and> (\<forall>v \<in> set (dv_outputs d). na_name v \<noteq> [] \<longrightarrow>
       seed_input_name n (na_name v) \<in> na_name ` set ext)" by auto
  moreover have "na_artifact w \<noteq> None" if "w \<in> set ext" for w using e(3) that by (auto simp: seed_from_def)
  ultimately show ?thesis by simp
qed

lemma seeds_win:
  fixes seeds base_inputs :: "named_artifact list"
  assumes "distinct (map na_name seeds)" "w \<in> set seeds"
  shows "find (\<lambda>i. na_name i = na_name w) (rev (base_inputs @ seeds)) = Some w"
proof -
  have "find (\<lambda>i. na_name i = na_name w) (rev seeds) \<noteq> None" using assms(2) by (auto simp: find_None_iff)
  then obtain u where u: "find (\<lambda>i. na_name i = na_name w) (rev seeds) = Some u" by blast
  then have "u = w" using assms by (auto simp: distinct_map inj_on_def dest: find_SomeD)
  have "find P xs = Some v \<Longrightarrow> find P (xs @ ys) = Some v" for P :: "named_artifact \<Rightarrow> bool" and xs ys v
    by (induction xs) auto
  from this [OF u] \<open>u = w\<close> show ?thesis by simp
qed

lemma validate_seeds_iff:
  "validate_seeds_present ac inputs = Inr () \<longleftrightarrow>
     (\<forall>sd \<in> set (ac_required_seeds ac). \<exists>v. find (\<lambda>i. na_name i = ss_input_name sd) (rev inputs) = Some v \<and> na_artifact v \<noteq> None)"
proof -
  have "map_of (map (\<lambda>i. (na_name i, i)) vs) x = find (\<lambda>i. na_name i = x) vs" for vs :: "named_artifact list" and x
    by (induction vs) auto
  then have m: "missing_seed inputs sd = None \<longleftrightarrow>
      (\<exists>v. find (\<lambda>i. na_name i = ss_input_name sd) (rev inputs) = Some v \<and> na_artifact v \<noteq> None)" for sd
    by (auto simp: missing_seed_def rev_map split: option.split)
  have "List.map_filter f xs = [] \<longleftrightarrow> (\<forall>x \<in> set xs. f x = None)" for f :: "seed_spec \<Rightarrow> string option" and xs
    by (induction xs) (auto simp: List.map_filter_simps split: option.split)
  then show ?thesis by (simp add: validate_seeds_present_def Let_def m)
qed

lemma find_distinct_rev:
  assumes "distinct (map na_name vs)"
  shows "find (\<lambda>i. na_name i = x) (rev vs) = find (\<lambda>i. na_name i = x) vs"
  using find_rev_distinct [OF assms, of "\<lambda>_. True" x] by simp

text \<open>
  What merging the seeds gives: under the name of a seed is the first output of that port in the
  latest derivation of the node, and nothing when there is no such output.
\<close>

lemma resumed_seed:
  assumes "seeds_from_run now s rid ns ctx = Inr seeds" "m \<in> set ns" "p \<noteq> []" "\<forall>x \<in> set ns. CHR ''/'' \<notin> set x"
    and "\<forall>i \<in> set base_inputs. \<not> is_seed_input_name (na_name i)"
  shows "(\<exists>w. find (\<lambda>i. na_name i = seed_input_name m p) (merge_inputs base_inputs seeds) = Some w) \<longleftrightarrow>
      (\<exists>d v. latest_of (filter (\<lambda>d. dv_run_id d = rid) (ks_derivations s)) m = Some d \<and>
         find (\<lambda>v. na_name v = p) (dv_outputs d) = Some v)"
    and "find (\<lambda>i. na_name i = seed_input_name m p) (merge_inputs base_inputs seeds) = Some w \<Longrightarrow>
      latest_of (filter (\<lambda>d. dv_run_id d = rid) (ks_derivations s)) m = Some d \<Longrightarrow>
      find (\<lambda>v. na_name v = p) (dv_outputs d) = Some v \<Longrightarrow>
      na_artifact v \<noteq> None \<and> w = \<lparr>na_name = seed_input_name m p, na_artifact = na_artifact v\<rparr>"
proof -
  let ?N = "seed_input_name m p" and ?ds = "filter (\<lambda>d. dv_run_id d = rid) (ks_derivations s)"
  note r = seeds_from_run_result [OF assms(1)]
  have nameN: "is_seed_input_name ?N" by (simp add: is_seed_input_name_def seed_input_name_def)
  have found: "find (\<lambda>i. na_name i = ?N) (merge_inputs base_inputs seeds) = find (\<lambda>i. na_name i = ?N) (rev (base_inputs @ seeds))"
  proof -
    have "map_of (map (\<lambda>i. (na_name i, i)) vs) x = find (\<lambda>i. na_name i = x) vs" for vs :: "named_artifact list" and x
      by (induction vs) auto
    with merge_inputs_lookup(1) [of base_inputs seeds ?N] show ?thesis by simp
  qed
  have there: "\<exists>d v. latest_of ?ds m = Some d \<and> find (\<lambda>v. na_name v = p) (dv_outputs d) = Some v \<and>
      na_artifact v \<noteq> None \<and> w = \<lparr>na_name = ?N, na_artifact = na_artifact v\<rparr>" if w: "w \<in> set seeds" "na_name w = ?N" for w
  proof -
    from r w(1) obtain n d where n: "n \<in> set ns" "latest_of ?ds n = Some d" "seed_from n (dv_outputs d) w" by blast
    from n(3) w(2) obtain q v where q: "find (\<lambda>v. na_name v = q) (dv_outputs d) = Some v" "na_artifact v \<noteq> None"
      "w = \<lparr>na_name = seed_input_name n q, na_artifact = na_artifact v\<rparr>" "seed_input_name n q = ?N"
      unfolding seed_from_def by auto
    from seed_input_name_inj [OF q(4)] n(1) assms(2,4) have "n = m" "q = p" by auto
    with n q show ?thesis by auto
  qed
  have in_seeds: "w \<in> set seeds \<and> na_name w = ?N" if "find (\<lambda>i. na_name i = ?N) (rev (base_inputs @ seeds)) = Some w" for w
    using find_SomeD [OF that] nameN assms(5) by auto
  show 1: "(\<exists>w. find (\<lambda>i. na_name i = ?N) (merge_inputs base_inputs seeds) = Some w) \<longleftrightarrow>
      (\<exists>d v. latest_of ?ds m = Some d \<and> find (\<lambda>v. na_name v = p) (dv_outputs d) = Some v)"
  proof
    assume "\<exists>w. find (\<lambda>i. na_name i = ?N) (merge_inputs base_inputs seeds) = Some w"
    with in_seeds there show "\<exists>d v. latest_of ?ds m = Some d \<and> find (\<lambda>v. na_name v = p) (dv_outputs d) = Some v"
      unfolding found by blast
  next
    assume "\<exists>d v. latest_of ?ds m = Some d \<and> find (\<lambda>v. na_name v = p) (dv_outputs d) = Some v"
    then obtain d v where v: "latest_of ?ds m = Some d" "v \<in> set (dv_outputs d)" "na_name v = p"
      by (auto dest: find_SomeD)
    with r assms(2,3) have "?N \<in> na_name ` set seeds" by fastforce
    then obtain u where "u \<in> set seeds" "na_name u = ?N" by auto
    with seeds_win [of seeds u base_inputs] r show "\<exists>w. find (\<lambda>i. na_name i = ?N) (merge_inputs base_inputs seeds) = Some w"
      unfolding found by auto
  qed
  show "na_artifact v \<noteq> None \<and> w = \<lparr>na_name = ?N, na_artifact = na_artifact v\<rparr>"
    if h: "find (\<lambda>i. na_name i = ?N) (merge_inputs base_inputs seeds) = Some w"
      "latest_of ?ds m = Some d" "find (\<lambda>v. na_name v = p) (dv_outputs d) = Some v"
  proof -
    from in_seeds [OF h(1) [unfolded found]] have "w \<in> set seeds" "na_name w = ?N" by blast+
    from there [OF this] h(2,3) show ?thesis by (metis option.inject)
  qed
qed

end
