(* ===== verification/Presentation.thy ===== *)
theory Presentation
  imports FwBase
begin

text \<open>
  Step presentations (\<open>framework/sdk/rust/src/presentation.rs\<close>): the stages of a step with their
  contract refs, the presentation a module emits with its constructors and builders, the identity
  the host fills in, and the legacy views mapped into presentations.
\<close>

section \<open>Stages and status\<close>

datatype step_stage = StageInit | StageProgress | StageFinal | StageSkipped | StageCached

definition CONTRACT_STEP_INIT :: string where "CONTRACT_STEP_INIT = ''srcport.ui.v1.StepInit''"
definition CONTRACT_STEP_PROGRESS :: string where "CONTRACT_STEP_PROGRESS = ''srcport.ui.v1.StepProgress''"
definition CONTRACT_STEP_FINAL :: string where "CONTRACT_STEP_FINAL = ''srcport.ui.v1.StepFinal''"
definition CONTRACT_STEP_SKIPPED :: string where "CONTRACT_STEP_SKIPPED = ''srcport.ui.v1.StepSkipped''"
definition CONTRACT_STEP_CACHED :: string where "CONTRACT_STEP_CACHED = ''srcport.ui.v1.StepCached''"

fun contract_ref :: "step_stage \<Rightarrow> string" where
  "contract_ref StageInit = CONTRACT_STEP_INIT"
| "contract_ref StageProgress = CONTRACT_STEP_PROGRESS"
| "contract_ref StageFinal = CONTRACT_STEP_FINAL"
| "contract_ref StageSkipped = CONTRACT_STEP_SKIPPED"
| "contract_ref StageCached = CONTRACT_STEP_CACHED"

datatype presentation_status =
  StatusPending | StatusRunning | StatusBlocked | StatusOk | StatusEmpty | StatusFailed

section \<open>Presentations\<close>

record presentation =
  pr_stage :: step_stage
  pr_title :: string
  pr_status :: presentation_status
  pr_detail :: "string option"
  pr_progress :: "f64 option"
  pr_run_id :: string
  pr_work_id :: string
  pr_node_id :: string
  pr_module :: string
  pr_capability :: string
  pr_phase :: "string option"
  pr_highlight_ports :: "string list"
  pr_output_ports :: "string list"
  pr_meta :: "(string \<times> string) list"

definition default_presentation :: presentation where
  "default_presentation =
     \<lparr>pr_stage = StageProgress, pr_title = [], pr_status = StatusRunning, pr_detail = None,
      pr_progress = None, pr_run_id = [], pr_work_id = [], pr_node_id = [], pr_module = [],
      pr_capability = [], pr_phase = None, pr_highlight_ports = [], pr_output_ports = [], pr_meta = []\<rparr>"

definition present_init :: "string \<Rightarrow> presentation" where
  "present_init title = default_presentation\<lparr>pr_stage := StageInit, pr_title := title, pr_status := StatusRunning\<rparr>"

definition present_progress :: "string \<Rightarrow> f64 option \<Rightarrow> presentation" where
  "present_progress title fraction = default_presentation
     \<lparr>pr_stage := StageProgress, pr_title := title, pr_status := StatusRunning, pr_progress := fraction\<rparr>"

definition with_detail :: "string \<Rightarrow> presentation \<Rightarrow> presentation" where
  "with_detail d p = p\<lparr>pr_detail := Some d\<rparr>"

definition with_phase :: "string \<Rightarrow> presentation \<Rightarrow> presentation" where
  "with_phase ph p = p\<lparr>pr_phase := Some ph\<rparr>"

definition final_ok :: "string \<Rightarrow> presentation" where
  "final_ok title = default_presentation
     \<lparr>pr_stage := StageFinal, pr_title := title, pr_status := StatusOk, pr_progress := Some f64_one\<rparr>"

definition final_failed :: "string \<Rightarrow> string \<Rightarrow> presentation" where
  "final_failed title detail = default_presentation
     \<lparr>pr_stage := StageFinal, pr_title := title, pr_status := StatusFailed, pr_detail := Some detail\<rparr>"

definition skipped :: "string \<Rightarrow> string \<Rightarrow> presentation" where
  "skipped title detail = default_presentation
     \<lparr>pr_stage := StageSkipped, pr_title := title, pr_status := StatusEmpty, pr_detail := Some detail,
      pr_progress := Some f64_one\<rparr>"

definition cached :: "string \<Rightarrow> string \<Rightarrow> presentation" where
  "cached title detail = default_presentation
     \<lparr>pr_stage := StageCached, pr_title := title, pr_status := StatusOk, pr_detail := Some detail,
      pr_progress := Some f64_one\<rparr>"

definition or_else :: "string \<Rightarrow> string \<Rightarrow> string" where
  "or_else v w = (if v = [] then w else v)"

definition fill_identity :: "string \<Rightarrow> work_item \<Rightarrow> presentation \<Rightarrow> presentation" where
  "fill_identity rid work p = p
     \<lparr>pr_run_id := or_else (pr_run_id p) rid, pr_work_id := or_else (pr_work_id p) (wi_id work),
      pr_node_id := or_else (pr_node_id p) (wi_node_id work), pr_module := or_else (pr_module p) (wi_module work),
      pr_capability := or_else (pr_capability p) (wi_capability work)\<rparr>"

section \<open>Results and events of a step\<close>

record step_result =
  sr_ok :: bool
  sr_outputs :: "named_artifact list"
  sr_error :: "string option"

record step_event =
  se_stage :: step_stage
  se_presentation :: presentation
  se_artifact_id :: string

section \<open>Legacy views\<close>

datatype processing_status = ProcPending | ProcRunning | ProcBlocked | ProcFailed

record processing_view =
  pv_title :: string
  pv_status :: processing_status
  pv_detail :: "string option"
  pv_progress :: "f64 option"
  pv_run_id :: string
  pv_work_id :: string
  pv_node_id :: string
  pv_module :: string

definition default_processing_view :: processing_view where
  "default_processing_view =
     \<lparr>pv_title = [], pv_status = ProcRunning, pv_detail = None, pv_progress = None, pv_run_id = [],
      pv_work_id = [], pv_node_id = [], pv_module = []\<rparr>"

definition from_processing_view :: "processing_view \<Rightarrow> presentation" where
  "from_processing_view v = default_presentation
     \<lparr>pr_stage := StageInit, pr_title := pv_title v,
      pr_status := (case pv_status v of ProcPending \<Rightarrow> StatusPending | ProcRunning \<Rightarrow> StatusRunning
                    | ProcBlocked \<Rightarrow> StatusBlocked | ProcFailed \<Rightarrow> StatusFailed),
      pr_detail := pv_detail v, pr_progress := pv_progress v, pr_run_id := pv_run_id v,
      pr_work_id := pv_work_id v, pr_node_id := pv_node_id v, pr_module := pv_module v\<rparr>"

datatype result_status = ResOk | ResEmpty | ResFailed

record result_view =
  rv_title :: string
  rv_status :: result_status
  rv_summary :: "string option"
  rv_run_id :: string
  rv_work_id :: string
  rv_node_id :: string
  rv_module :: string
  rv_output_ports :: "string list"

definition default_result_view :: result_view where
  "default_result_view =
     \<lparr>rv_title = [], rv_status = ResOk, rv_summary = None, rv_run_id = [], rv_work_id = [],
      rv_node_id = [], rv_module = [], rv_output_ports = []\<rparr>"

definition from_result_view :: "result_view \<Rightarrow> presentation" where
  "from_result_view v = default_presentation
     \<lparr>pr_stage := StageFinal, pr_title := rv_title v,
      pr_status := (case rv_status v of ResOk \<Rightarrow> StatusOk | ResEmpty \<Rightarrow> StatusEmpty | ResFailed \<Rightarrow> StatusFailed),
      pr_detail := rv_summary v,
      pr_progress := (case rv_status v of ResFailed \<Rightarrow> None | _ \<Rightarrow> Some f64_one),
      pr_run_id := rv_run_id v, pr_work_id := rv_work_id v, pr_node_id := rv_node_id v,
      pr_module := rv_module v, pr_output_ports := rv_output_ports v, pr_highlight_ports := rv_output_ports v\<rparr>"

section \<open>Facts\<close>

lemma contract_ref_inj [simp]: "contract_ref a = contract_ref b \<longleftrightarrow> a = b"
  by (cases a; cases b)
    (simp_all add: CONTRACT_STEP_INIT_def CONTRACT_STEP_PROGRESS_def CONTRACT_STEP_FINAL_def
      CONTRACT_STEP_SKIPPED_def CONTRACT_STEP_CACHED_def)

lemma fill_identity_idem: "fill_identity rid work (fill_identity rid work p) = fill_identity rid work p"
  by (simp add: fill_identity_def or_else_def)

lemma fill_identity_keeps [simp]:
  "pr_stage (fill_identity rid work p) = pr_stage p" "pr_status (fill_identity rid work p) = pr_status p"
  "pr_title (fill_identity rid work p) = pr_title p" "pr_output_ports (fill_identity rid work p) = pr_output_ports p"
  by (simp_all add: fill_identity_def)

lemma fill_identity_named:
  assumes "rid \<noteq> []" "wi_id work \<noteq> []" "wi_node_id work \<noteq> []" "wi_module work \<noteq> []" "wi_capability work \<noteq> []"
  shows "pr_run_id (fill_identity rid work p) \<noteq> []" "pr_work_id (fill_identity rid work p) \<noteq> []"
    "pr_node_id (fill_identity rid work p) \<noteq> []" "pr_module (fill_identity rid work p) \<noteq> []"
    "pr_capability (fill_identity rid work p) \<noteq> []"
  using assms by (simp_all add: fill_identity_def or_else_def)

end
