(* ===== verification/Bus.thy ===== *)
theory Bus
  imports State
begin

text \<open>
  The event bus: \<open>subscribe\<close>, \<open>publish\<close>, and the receiver's end of a subscription. A
  \<open>sync_channel(SUBSCRIBER_BUFFER)\<close> is a queue of at most that many events; \<open>try_send\<close> fails
  when the queue is full or the receiver is gone, and \<open>publish\<close> sheds the subscription whose
  send failed.
\<close>

section \<open>Channels\<close>

definition try_send :: "channel list \<Rightarrow> nat \<Rightarrow> event \<Rightarrow> bool \<times> channel list" where
  "try_send chs tx ev =
     (if length chs \<le> tx then (False, chs)
      else
        let ch = chs ! tx in
        if \<not> ch_receiver ch then (False, chs)
        else if SUBSCRIBER_BUFFER \<le> length (ch_queue ch) then (False, chs)
        else (True, chs[tx := ch\<lparr>ch_queue := ch_queue ch @ [ev]\<rparr>]))"

section \<open>Subscribe and publish\<close>

text \<open>The receiver that \<open>subscribe\<close> returns is the number of its channel.\<close>

definition subscribe :: "kstate \<Rightarrow> subscription \<Rightarrow> nat \<times> kstate" where
  "subscribe s sb =
     (let tx = length (ks_channels s)
      in (tx, s\<lparr>ks_channels := ks_channels s @ [\<lparr>ch_queue = [], ch_receiver = True\<rparr>],
                ks_subs := ks_subs s @ [\<lparr>su_topics = sb_topics sb, su_tx = tx\<rparr>]\<rparr>))"

definition wants :: "sub \<Rightarrow> string \<Rightarrow> bool" where
  "wants sb topic = list_ex (\<lambda>t. t = topic) (su_topics sb)"

text \<open>\<open>state.subs.retain(\<dots>)\<close>: the subscriptions kept, and the channels after the sends.\<close>

fun retain_subs :: "event \<Rightarrow> sub list \<Rightarrow> channel list \<Rightarrow> sub list \<times> channel list" where
  "retain_subs ev [] chs = ([], chs)"
| "retain_subs ev (sb # sbs) chs =
     (if wants sb (ev_topic ev)
      then (case try_send chs (su_tx sb) ev of
              (sent, chs) \<Rightarrow>
                (case retain_subs ev sbs chs of
                   (kept, chs) \<Rightarrow> (if sent then sb # kept else kept, chs)))
      else (case retain_subs ev sbs chs of (kept, chs) \<Rightarrow> (sb # kept, chs)))"

definition publish :: "ext \<Rightarrow> kstate \<Rightarrow> event \<Rightarrow> u64 \<times> kstate" where
  "publish X s ev =
     (let seq = ks_event_seq s + 1;
          ev = ev\<lparr>ev_seq := seq\<rparr>
      in case retain_subs ev (ks_subs s) (ks_channels s) of
           (subs, chs) \<Rightarrow>
             (seq, log_entry X (s\<lparr>ks_event_seq := seq, ks_subs := subs, ks_channels := chs\<rparr>)
                     ''event.published'' (ev_topic ev) (enc_event X ev)))"

section \<open>The receiver\<close>

text \<open>\<open>Receiver::try_recv\<close>: the oldest event, or whether the sender is still there.\<close>

datatype recv_result = Received event | Empty | Disconnected

definition try_recv :: "kstate \<Rightarrow> nat \<Rightarrow> recv_result \<times> kstate" where
  "try_recv s rx =
     (case (if rx < length (ks_channels s) then ch_queue (ks_channels s ! rx) else []) of
        ev # evs \<Rightarrow>
          (Received ev, s\<lparr>ks_channels := (ks_channels s)[rx := (ks_channels s ! rx)\<lparr>ch_queue := evs\<rparr>]\<rparr>)
      | [] \<Rightarrow> (if rx \<in> su_tx ` set (ks_subs s) then Empty else Disconnected, s))"

definition drop_receiver :: "kstate \<Rightarrow> nat \<Rightarrow> kstate" where
  "drop_receiver s rx =
     (if rx < length (ks_channels s)
      then s\<lparr>ks_channels := (ks_channels s)[rx := \<lparr>ch_queue = [], ch_receiver = False\<rparr>]\<rparr>
      else s)"

section \<open>Delivery\<close>

lemma length_try_send [simp]: "length (snd (try_send chs tx ev)) = length chs"
  by (simp add: try_send_def Let_def)

lemma try_send_other: "i \<noteq> tx \<Longrightarrow> snd (try_send chs tx ev) ! i = chs ! i"
  by (simp add: try_send_def Let_def)

text \<open>A subscription can take an event: its receiver is alive and its queue has room.\<close>

definition has_room :: "channel list \<Rightarrow> nat \<Rightarrow> bool" where
  "has_room chs tx \<longleftrightarrow>
     tx < length chs \<and> ch_receiver (chs ! tx) \<and> length (ch_queue (chs ! tx)) < SUBSCRIBER_BUFFER"

lemma fst_try_send: "fst (try_send chs tx ev) \<longleftrightarrow> has_room chs tx"
  by (auto simp: try_send_def has_room_def Let_def)

lemma try_send_self:
  "i < length chs \<Longrightarrow> ch_queue (snd (try_send chs i ev) ! i) =
     ch_queue (chs ! i) @ (if has_room chs i then [ev] else [])"
  by (auto simp: try_send_def has_room_def Let_def)

lemma has_room_other: "i \<noteq> tx \<Longrightarrow> has_room (snd (try_send chs tx ev)) i \<longleftrightarrow> has_room chs i"
  by (simp add: has_room_def try_send_other)

lemma retain_subs_Cons:
  "retain_subs ev (sb # sbs) chs =
     (if wants sb (ev_topic ev)
      then let chs' = snd (try_send chs (su_tx sb) ev)
           in ((if has_room chs (su_tx sb) then [sb] else []) @ fst (retain_subs ev sbs chs'),
               snd (retain_subs ev sbs chs'))
      else (sb # fst (retain_subs ev sbs chs), snd (retain_subs ev sbs chs)))"
  by (simp add: Let_def split_beta fst_try_send)

declare retain_subs.simps(2) [simp del]

lemma length_retain_subs [simp]: "length (snd (retain_subs ev sbs chs)) = length chs"
  by (induction sbs arbitrary: chs) (simp_all add: retain_subs_Cons Let_def)

text \<open>
  With one subscription per channel, each channel is sent to by its own subscription only: the
  event reaches exactly the channels whose subscription named the topic and that have room, and
  exactly the subscriptions that could not take it are shed.
\<close>

lemma retain_subs_kept:
  assumes "distinct (map su_tx sbs)"
  shows "fst (retain_subs ev sbs chs) =
           filter (\<lambda>sb. wants sb (ev_topic ev) \<longrightarrow> has_room chs (su_tx sb)) sbs"
  using assms
proof (induction sbs arbitrary: chs)
  case (Cons sb sbs)
  let ?c = "snd (try_send chs (su_tx sb) ev)"
  from Cons.prems have "\<forall>sb' \<in> set sbs. su_tx sb' \<noteq> su_tx sb" by (auto simp: image_iff)
  then have "filter (\<lambda>sb. wants sb (ev_topic ev) \<longrightarrow> has_room ?c (su_tx sb)) sbs =
      filter (\<lambda>sb. wants sb (ev_topic ev) \<longrightarrow> has_room chs (su_tx sb)) sbs"
    by (intro filter_cong) (auto simp: has_room_other)
  with Cons show ?case by (simp add: retain_subs_Cons Let_def)
qed simp

lemma retain_subs_queue:
  assumes "distinct (map su_tx sbs)" "i < length chs"
  shows "ch_queue (snd (retain_subs ev sbs chs) ! i) =
           ch_queue (chs ! i) @
           (if (\<exists>sb \<in> set sbs. su_tx sb = i \<and> wants sb (ev_topic ev)) \<and> has_room chs i then [ev] else [])"
  using assms
proof (induction sbs arbitrary: chs)
  case (Cons sb sbs)
  let ?c = "snd (try_send chs (su_tx sb) ev)"
  from Cons.prems have d: "\<forall>sb' \<in> set sbs. su_tx sb' \<noteq> su_tx sb" by (auto simp: image_iff)
  show ?case
  proof (cases "wants sb (ev_topic ev)")
    case False
    with Cons show ?thesis by (auto simp: retain_subs_Cons)
  next
    case True
    with Cons.prems d Cons.IH [of ?c] show ?thesis
      by (cases "i = su_tx sb")
        (auto simp: retain_subs_Cons Let_def try_send_self try_send_other has_room_other)
  qed
qed simp

lemma retain_subs_receiver:
  "ch_receiver (snd (retain_subs ev sbs chs) ! i) = ch_receiver (chs ! i)"
proof (induction sbs arbitrary: chs)
  case (Cons sb sbs)
  have "ch_receiver (snd (try_send chs (su_tx sb) ev) ! i) = ch_receiver (chs ! i)"
    by (cases "i < length chs") (auto simp: try_send_def Let_def nth_list_update)
  with Cons show ?case by (simp add: retain_subs_Cons Let_def)
qed simp

section \<open>Frames and invariants\<close>

lemma publish_frame [frame]:
  "ks_modules (snd (publish X s ev)) = ks_modules s"
  "ks_capabilities (snd (publish X s ev)) = ks_capabilities s"
  "ks_contracts (snd (publish X s ev)) = ks_contracts s"
  "ks_artifacts (snd (publish X s ev)) = ks_artifacts s"
  "ks_blobs (snd (publish X s ev)) = ks_blobs s"
  "ks_runs (snd (publish X s ev)) = ks_runs s"
  "ks_derivations (snd (publish X s ev)) = ks_derivations s"
  "ks_idempotency (snd (publish X s ev)) = ks_idempotency s"
  by (simp_all add: publish_def Let_def split_beta frame)

lemma publish_bus:
  "fst (publish X s ev) = ks_event_seq s + 1"
  "ks_event_seq (snd (publish X s ev)) = ks_event_seq s + 1"
  "ks_subs (snd (publish X s ev)) =
     fst (retain_subs (ev\<lparr>ev_seq := ks_event_seq s + 1\<rparr>) (ks_subs s) (ks_channels s))"
  "ks_channels (snd (publish X s ev)) =
     snd (retain_subs (ev\<lparr>ev_seq := ks_event_seq s + 1\<rparr>) (ks_subs s) (ks_channels s))"
  by (simp_all add: publish_def Let_def split_beta frame)

lemma publish_ledger: "ledger_grows X (ks_ledger s) (ks_ledger (snd (publish X s ev)))"
  by (simp add: publish_def Let_def split_beta ledger_grows_log)

text \<open>
  The bus is well formed: one subscription per channel, every channel bounded, and every queue
  holds events in ascending order of their number, none above the last number assigned.
\<close>

definition queue_ok :: "u64 \<Rightarrow> event list \<Rightarrow> bool" where
  "queue_ok seq evs \<longleftrightarrow>
     length evs \<le> SUBSCRIBER_BUFFER \<and> sorted_wrt (\<lambda>a b. ev_seq a < ev_seq b) evs \<and>
     (\<forall>ev \<in> set evs. ev_seq ev \<le> seq)"

definition bus_ok :: "kstate \<Rightarrow> bool" where
  "bus_ok s \<longleftrightarrow>
     distinct (map su_tx (ks_subs s)) \<and>
     (\<forall>sb \<in> set (ks_subs s). su_tx sb < length (ks_channels s)) \<and>
     (\<forall>ch \<in> set (ks_channels s). queue_ok (ks_event_seq s) (ch_queue ch))"

lemma bus_ok_cong:
  "\<lbrakk>ks_subs t = ks_subs s; ks_channels t = ks_channels s; ks_event_seq t = ks_event_seq s\<rbrakk>
    \<Longrightarrow> bus_ok t = bus_ok s"
  by (simp add: bus_ok_def)

lemma subscribe_frame [frame]:
  "ks_modules (snd (subscribe s sb)) = ks_modules s"
  "ks_capabilities (snd (subscribe s sb)) = ks_capabilities s"
  "ks_contracts (snd (subscribe s sb)) = ks_contracts s"
  "ks_artifacts (snd (subscribe s sb)) = ks_artifacts s"
  "ks_blobs (snd (subscribe s sb)) = ks_blobs s"
  "ks_ledger (snd (subscribe s sb)) = ks_ledger s"
  "ks_runs (snd (subscribe s sb)) = ks_runs s"
  "ks_derivations (snd (subscribe s sb)) = ks_derivations s"
  "ks_event_seq (snd (subscribe s sb)) = ks_event_seq s"
  "ks_idempotency (snd (subscribe s sb)) = ks_idempotency s"
  by (simp_all add: subscribe_def Let_def)

lemma receiver_frame [frame]:
  "ks_modules (snd (try_recv s rx)) = ks_modules s" "ks_modules (drop_receiver s rx) = ks_modules s"
  "ks_capabilities (snd (try_recv s rx)) = ks_capabilities s" "ks_capabilities (drop_receiver s rx) = ks_capabilities s"
  "ks_contracts (snd (try_recv s rx)) = ks_contracts s" "ks_contracts (drop_receiver s rx) = ks_contracts s"
  "ks_artifacts (snd (try_recv s rx)) = ks_artifacts s" "ks_artifacts (drop_receiver s rx) = ks_artifacts s"
  "ks_blobs (snd (try_recv s rx)) = ks_blobs s" "ks_blobs (drop_receiver s rx) = ks_blobs s"
  "ks_subs (snd (try_recv s rx)) = ks_subs s" "ks_subs (drop_receiver s rx) = ks_subs s"
  "ks_ledger (snd (try_recv s rx)) = ks_ledger s" "ks_ledger (drop_receiver s rx) = ks_ledger s"
  "ks_runs (snd (try_recv s rx)) = ks_runs s" "ks_runs (drop_receiver s rx) = ks_runs s"
  "ks_derivations (snd (try_recv s rx)) = ks_derivations s" "ks_derivations (drop_receiver s rx) = ks_derivations s"
  "ks_event_seq (snd (try_recv s rx)) = ks_event_seq s" "ks_event_seq (drop_receiver s rx) = ks_event_seq s"
  "ks_idempotency (snd (try_recv s rx)) = ks_idempotency s" "ks_idempotency (drop_receiver s rx) = ks_idempotency s"
  by (auto simp: try_recv_def drop_receiver_def split: list.splits)

lemma subscribe_bus_ok: "bus_ok s \<Longrightarrow> bus_ok (snd (subscribe s sb))"
  by (auto simp: bus_ok_def subscribe_def Let_def queue_ok_def image_iff less_Suc_eq)

lemma queue_ok_tl: "queue_ok seq (ev # evs) \<Longrightarrow> queue_ok seq evs"
  by (simp add: queue_ok_def)

lemma bus_ok_update:
  assumes "bus_ok s" "queue_ok (ks_event_seq s) (ch_queue ch)"
  shows "bus_ok (s\<lparr>ks_channels := (ks_channels s)[rx := ch]\<rparr>)"
  using assms by (auto simp: bus_ok_def dest!: subsetD [OF set_update_subset_insert])

lemma try_recv_bus_ok: "bus_ok s \<Longrightarrow> bus_ok (snd (try_recv s rx))"
proof (cases "if rx < length (ks_channels s) then ch_queue (ks_channels s ! rx) else []")
  case (Cons ev evs)
  assume ok: "bus_ok s"
  from Cons have rx: "rx < length (ks_channels s)" "ch_queue (ks_channels s ! rx) = ev # evs"
    by (simp_all split: if_splits)
  with ok have "queue_ok (ks_event_seq s) (ev # evs)" by (metis bus_ok_def nth_mem)
  with ok rx show ?thesis by (auto simp: try_recv_def intro!: bus_ok_update dest: queue_ok_tl)
qed (simp add: try_recv_def)

lemma drop_receiver_bus_ok: "bus_ok s \<Longrightarrow> bus_ok (drop_receiver s rx)"
  by (auto simp: drop_receiver_def queue_ok_def intro!: bus_ok_update)

text \<open>The event counter is a u64; the order of events needs that it has not wrapped.\<close>

lemma queue_ok_snoc:
  assumes "queue_ok seq evs" "length evs < SUBSCRIBER_BUFFER" "seq < seq + 1"
  shows "queue_ok (seq + 1) (evs @ [ev\<lparr>ev_seq := seq + 1\<rparr>])"
  using assms by (auto simp: queue_ok_def sorted_wrt_append dest: order_le_less_trans)

lemma queue_ok_later: "queue_ok seq evs \<Longrightarrow> seq < seq + 1 \<Longrightarrow> queue_ok (seq + 1) evs"
  by (auto simp: queue_ok_def)

lemma publish_bus_ok:
  assumes "bus_ok s" "ks_event_seq s \<noteq> - 1"
  shows "bus_ok (snd (publish X s ev))"
proof -
  let ?ev = "ev\<lparr>ev_seq := ks_event_seq s + 1\<rparr>"
  let ?r = "retain_subs ?ev (ks_subs s) (ks_channels s)"
  have d: "distinct (map su_tx (ks_subs s))" using assms(1) by (simp add: bus_ok_def)
  have lt: "ks_event_seq s < ks_event_seq s + 1"
    using assms(2) by (rule word_less_succ)
  have "queue_ok (ks_event_seq s + 1) (ch_queue (snd ?r ! i))" if "i < length (ks_channels s)" for i
  proof -
    have "queue_ok (ks_event_seq s) (ch_queue (ks_channels s ! i))"
      using assms(1) that by (simp add: bus_ok_def)
    then show ?thesis
      using retain_subs_queue [OF d that, of ?ev] lt
      by (auto simp: has_room_def intro: queue_ok_snoc queue_ok_later)
  qed
  then have "\<forall>ch \<in> set (snd ?r). queue_ok (ks_event_seq s + 1) (ch_queue ch)"
    by (auto simp: in_set_conv_nth)
  moreover have "distinct (map su_tx (fst ?r))" "\<forall>sb \<in> set (fst ?r). su_tx sb < length (ks_channels s)"
    using assms(1) d by (auto simp: retain_subs_kept distinct_map_filter bus_ok_def)
  ultimately show ?thesis by (simp add: bus_ok_def publish_bus)
qed

end
