(* ===== verification/RunSteps.thy ===== *)
theory RunSteps
  imports Runs
begin

declare map_of_eq_Some_iff [simp del]

text \<open>
  The contract of a run, as a machine over its slot: the steps a unit of work can take (claimed,
  renewed, released, finished, committed) and the ways a run closes. The invariants are proved once
  by rule induction over these steps; then every operation of \<open>Runs\<close> is shown to be a sequence
  of them.
\<close>

section \<open>The machine\<close>

text \<open>The shape of the key of a unit of a node.\<close>

definition unit_key_for :: "string \<Rightarrow> string \<Rightarrow> bool" where
  "unit_key_for node_id key \<longleftrightarrow> key = ''once:'' @ node_id \<or>
     (\<exists>h. length h = 64 \<and> (key = ''key:'' @ node_id @ '':'' @ h \<or> key = ''always:'' @ node_id @ '':'' @ h))"

definition has_room_for :: "run_slot \<Rightarrow> nat \<Rightarrow> bool" where
  "has_room_for slot n \<longleftrightarrow> rs_max_in_flight slot = 0 \<or> length (rs_claimed slot) + n \<le> unat (rs_max_in_flight slot)"

definition slot_nodes :: "run_slot \<Rightarrow> assembly_node set" where
  "slot_nodes slot = (case run_assembly (rs_run slot) of None \<Rightarrow> {} | Some a \<Rightarrow> set (as_nodes a))"

definition running :: "run_slot \<Rightarrow> bool" where
  "running slot \<longleftrightarrow> run_state (rs_run slot) = Running"

definition renew_slot :: "int \<Rightarrow> string \<Rightarrow> claimed_slot \<Rightarrow> run_slot \<Rightarrow> run_slot" where
  "renew_slot until i c slot = slot\<lparr>rs_claimed := AList.update i
     (c\<lparr>cs_lease_until_ms := until, cs_work := (cs_work c)\<lparr>wi_lease_until_unix_ms := until\<rparr>\<rparr>) (rs_claimed slot)\<rparr>"

text \<open>
  A reference to a stored artifact. The steps that bring artifacts into a run are allowed for such
  references only; the stored ids are the parameter \<open>A\<close>.
\<close>

definition ref_in :: "string set \<Rightarrow> named_artifact \<Rightarrow> bool" where
  "ref_in A v \<longleftrightarrow> (\<exists>r. na_artifact v = Some r \<and> aref_id r \<in> A)"

inductive slot_step :: "string set \<Rightarrow> string \<Rightarrow> run_slot \<Rightarrow> run_slot \<Rightarrow> bool" for A rid where
  claim: "running slot \<Longrightarrow> node \<in> slot_nodes slot \<Longrightarrow> unit_key_for (an_id node) key \<Longrightarrow>
    key \<notin> rs_done_units slot \<Longrightarrow> \<not> unit_is_claimed slot key \<Longrightarrow> has_room_for slot 1 \<Longrightarrow> \<forall>v \<in> set inputs. ref_in A v \<Longrightarrow>
    slot_step A rid slot (snd (claim_one now rid slot (node, inputs, key)))"
| renew: "running slot \<Longrightarrow> map_of (rs_claimed slot) i = Some c \<Longrightarrow>
    slot_step A rid slot (renew_slot until i c slot)"
| release: "running slot \<Longrightarrow> map_of (rs_claimed slot) i = Some c \<Longrightarrow> cs_attempt c < rs_max_attempts slot \<Longrightarrow>
    slot_step A rid slot (fail_slot slot i c False)"
| finish: "running slot \<Longrightarrow> map_of (rs_claimed slot) i = Some c \<Longrightarrow>
    slot_step A rid slot (fail_slot slot i c True)"
| committed: "running slot \<Longrightarrow> map_of (rs_claimed slot) i = Some c \<Longrightarrow>
    run_steps (rs_run slot) < run_max_steps (rs_run slot) \<Longrightarrow> \<forall>v \<in> set (dv_outputs d). ref_in A v \<Longrightarrow>
    slot_step A rid slot (fst (commit_slot slot c d))"
| stalled: "running slot \<Longrightarrow> rs_claimed slot = [] \<Longrightarrow> \<not> is_open_closure slot \<Longrightarrow>
    slot_step A rid slot (stall_slot slot)"
| cancelled: "running slot \<Longrightarrow> slot_step A rid slot (cancel_slot slot)"
| injected: "running slot \<Longrightarrow> ref_in A input \<Longrightarrow> slot_step A rid slot (inject_slot slot input)"

abbreviation slot_steps :: "string set \<Rightarrow> string \<Rightarrow> run_slot \<Rightarrow> run_slot \<Rightarrow> bool" where
  "slot_steps A rid \<equiv> (slot_step A rid)\<^sup>*\<^sup>*"

section \<open>What a step does to each field\<close>

text \<open>The state after a commit, by cases on the answer and the steps left.\<close>

lemma commit_slot_fields [simp]:
  "rs_claimed (fst (commit_slot slot c d)) = AList.delete (wi_id (cs_work c)) (rs_claimed slot)"
  "rs_done_units (fst (commit_slot slot c d)) = insert (cs_unit_key c) (rs_done_units slot)"
  "rs_claim_attempts (fst (commit_slot slot c d)) = rs_claim_attempts slot"
  "rs_max_in_flight (fst (commit_slot slot c d)) = rs_max_in_flight slot"
  "rs_default_lease_ms (fst (commit_slot slot c d)) = rs_default_lease_ms slot"
  "rs_max_attempts (fst (commit_slot slot c d)) = rs_max_attempts slot"
  "rs_latest (fst (commit_slot slot c d)) = (rs_latest slot)(wi_node_id (cs_work c) \<mapsto> d)"
  "run_id (rs_run (fst (commit_slot slot c d))) = run_id (rs_run slot)"
  "run_assembly (rs_run (fst (commit_slot slot c d))) = run_assembly (rs_run slot)"
  "run_inputs (rs_run (fst (commit_slot slot c d))) = run_inputs (rs_run slot)"
  "run_policy (rs_run (fst (commit_slot slot c d))) = run_policy (rs_run slot)"
  "run_steps (rs_run (fst (commit_slot slot c d))) = run_steps (rs_run slot) + 1"
  "run_max_steps (rs_run (fst (commit_slot slot c d))) = run_max_steps (rs_run slot)"
  by (simp_all add: commit_slot_def Let_def split_beta split: option.split)

text \<open>The answer that a derivation gives, when its node is the terminal.\<close>

definition commit_answer :: "run_slot \<Rightarrow> claimed_slot \<Rightarrow> derivation \<Rightarrow> artifact_ref option" where
  "commit_answer slot c d =
     (let t = the (as_terminal (the (run_assembly (rs_run slot)))) in
      if no_node t = wi_node_id (cs_work c)
      then Option.bind (find (\<lambda>out. na_name out = no_port t) (dv_outputs d)) na_artifact else None)"

lemma commit_slot_answer:
  "run_answer (rs_run (fst (commit_slot slot c d))) =
     (case commit_answer slot c d of None \<Rightarrow> run_answer (rs_run slot) | Some r \<Rightarrow> Some r)"
  by (simp add: commit_slot_def commit_answer_def Let_def split_beta split: option.split)

lemma commit_slot_state:
  assumes "running slot"
  shows "run_state (rs_run (fst (commit_slot slot c d))) =
     (if commit_answer slot c d \<noteq> None \<and> \<not> is_open_closure slot then Completed
      else if run_max_steps (rs_run slot) \<le> run_steps (rs_run slot) + 1 then Failed
      else Running)"
  using assms
  by (simp add: commit_slot_def commit_answer_def running_def Let_def split_beta split: option.split)

lemma commit_slot_closed:
  "snd (commit_slot slot c d) \<longleftrightarrow>
     commit_answer slot c d \<noteq> None \<and> \<not> is_open_closure slot \<or>
     run_max_steps (rs_run slot) \<le> run_steps (rs_run slot) + 1"
  by (simp add: commit_slot_def commit_answer_def Let_def split_beta split: option.split)

lemma is_open_closure_cong: "run_policy (rs_run a) = run_policy (rs_run b) \<Longrightarrow> is_open_closure a = is_open_closure b"
  by (simp add: is_open_closure_def)

lemma slot_nodes_cong: "run_assembly (rs_run a) = run_assembly (rs_run b) \<Longrightarrow> slot_nodes a = slot_nodes b"
  by (simp add: slot_nodes_def)

lemma fail_slot_fields [simp]:
  "rs_run (fail_slot slot i c t) = rs_run slot"
  "rs_claimed (fail_slot slot i c t) = AList.delete i (rs_claimed slot)"
  "rs_done_units (fail_slot slot i c t) =
     (if t then insert (cs_unit_key c) (rs_done_units slot) else rs_done_units slot)"
  "rs_claim_attempts (fail_slot slot i c t) = rs_claim_attempts slot"
  "rs_max_in_flight (fail_slot slot i c t) = rs_max_in_flight slot"
  "rs_default_lease_ms (fail_slot slot i c t) = rs_default_lease_ms slot"
  "rs_max_attempts (fail_slot slot i c t) = rs_max_attempts slot"
  "rs_latest (fail_slot slot i c t) = rs_latest slot"
  by (simp_all add: fail_slot_def Let_def)

lemma stall_slot_fields [simp]:
  "run_state (rs_run (stall_slot slot)) = Stalled"
  "rs_claimed (stall_slot slot) = rs_claimed slot"
  "rs_done_units (stall_slot slot) = rs_done_units slot"
  "rs_claim_attempts (stall_slot slot) = rs_claim_attempts slot"
  "rs_max_in_flight (stall_slot slot) = rs_max_in_flight slot"
  "rs_default_lease_ms (stall_slot slot) = rs_default_lease_ms slot"
  "rs_max_attempts (stall_slot slot) = rs_max_attempts slot"
  "run_id (rs_run (stall_slot slot)) = run_id (rs_run slot)"
  "run_assembly (rs_run (stall_slot slot)) = run_assembly (rs_run slot)"
  "run_policy (rs_run (stall_slot slot)) = run_policy (rs_run slot)"
  "run_steps (rs_run (stall_slot slot)) = run_steps (rs_run slot)"
  "run_max_steps (rs_run (stall_slot slot)) = run_max_steps (rs_run slot)"
  "run_answer (rs_run (stall_slot slot)) = run_answer (rs_run slot)"
  "run_inputs (rs_run (stall_slot slot)) = run_inputs (rs_run slot)"
  "rs_latest (stall_slot slot) = rs_latest slot"
  by (simp_all add: stall_slot_def)

lemma cancel_slot_fields [simp]:
  "run_state (rs_run (cancel_slot slot)) = Cancelled"
  "rs_claimed (cancel_slot slot) = []"
  "rs_done_units (cancel_slot slot) = rs_done_units slot"
  "rs_claim_attempts (cancel_slot slot) = rs_claim_attempts slot"
  "rs_max_in_flight (cancel_slot slot) = rs_max_in_flight slot"
  "rs_default_lease_ms (cancel_slot slot) = rs_default_lease_ms slot"
  "rs_max_attempts (cancel_slot slot) = rs_max_attempts slot"
  "run_id (rs_run (cancel_slot slot)) = run_id (rs_run slot)"
  "run_assembly (rs_run (cancel_slot slot)) = run_assembly (rs_run slot)"
  "run_policy (rs_run (cancel_slot slot)) = run_policy (rs_run slot)"
  "run_steps (rs_run (cancel_slot slot)) = run_steps (rs_run slot)"
  "run_max_steps (rs_run (cancel_slot slot)) = run_max_steps (rs_run slot)"
  "run_answer (rs_run (cancel_slot slot)) = run_answer (rs_run slot)"
  "run_inputs (rs_run (cancel_slot slot)) = run_inputs (rs_run slot)"
  "rs_latest (cancel_slot slot) = rs_latest slot"
  by (simp_all add: cancel_slot_def)

lemma inject_slot_fields [simp]:
  "run_state (rs_run (inject_slot slot input)) = run_state (rs_run slot)"
  "rs_claimed (inject_slot slot input) = rs_claimed slot"
  "rs_done_units (inject_slot slot input) = rs_done_units slot"
  "rs_claim_attempts (inject_slot slot input) = rs_claim_attempts slot"
  "rs_max_in_flight (inject_slot slot input) = rs_max_in_flight slot"
  "rs_default_lease_ms (inject_slot slot input) = rs_default_lease_ms slot"
  "rs_max_attempts (inject_slot slot input) = rs_max_attempts slot"
  "run_id (rs_run (inject_slot slot input)) = run_id (rs_run slot)"
  "run_assembly (rs_run (inject_slot slot input)) = run_assembly (rs_run slot)"
  "run_policy (rs_run (inject_slot slot input)) = run_policy (rs_run slot)"
  "run_steps (rs_run (inject_slot slot input)) = run_steps (rs_run slot)"
  "run_max_steps (rs_run (inject_slot slot input)) = run_max_steps (rs_run slot)"
  "run_answer (rs_run (inject_slot slot input)) = run_answer (rs_run slot)"
  by (simp_all add: inject_slot_def)

lemma renew_slot_fields [simp]:
  "rs_run (renew_slot u i c slot) = rs_run slot"
  "rs_claimed (renew_slot u i c slot) = AList.update i
     (c\<lparr>cs_lease_until_ms := u, cs_work := (cs_work c)\<lparr>wi_lease_until_unix_ms := u\<rparr>\<rparr>) (rs_claimed slot)"
  "rs_done_units (renew_slot u i c slot) = rs_done_units slot"
  "rs_claim_attempts (renew_slot u i c slot) = rs_claim_attempts slot"
  "rs_max_in_flight (renew_slot u i c slot) = rs_max_in_flight slot"
  "rs_default_lease_ms (renew_slot u i c slot) = rs_default_lease_ms slot"
  "rs_max_attempts (renew_slot u i c slot) = rs_max_attempts slot"
  "rs_latest (renew_slot u i c slot) = rs_latest slot"
  by (simp_all add: renew_slot_def)

text \<open>The claim that \<open>claim_one\<close> makes.\<close>

definition new_claim ::
  "int \<Rightarrow> string \<Rightarrow> run_slot \<Rightarrow> assembly_node \<Rightarrow> named_artifact list \<Rightarrow> string \<Rightarrow> claimed_slot" where
  "new_claim now rid slot node inputs key =
     (let work = fst (claim_one now rid slot (node, inputs, key)) in
      \<lparr>cs_work = work, cs_unit_key = key, cs_lease_until_ms = wi_lease_until_unix_ms work,
       cs_attempt = wi_attempt work\<rparr>)"

definition next_attempt :: "run_slot \<Rightarrow> string \<Rightarrow> u32" where
  "next_attempt slot key = (case rs_claim_attempts slot key of None \<Rightarrow> 0 | Some n \<Rightarrow> n) + 1"

lemma new_claim_fields [simp]:
  "cs_unit_key (new_claim now rid slot node inputs key) = key"
  "cs_attempt (new_claim now rid slot node inputs key) = next_attempt slot key"
  "wi_id (cs_work (new_claim now rid slot node inputs key)) = work_id_of rid (an_id node) key"
  "wi_run_id (cs_work (new_claim now rid slot node inputs key)) = rid"
  "wi_node_id (cs_work (new_claim now rid slot node inputs key)) = an_id node"
  "wi_unit_key (cs_work (new_claim now rid slot node inputs key)) = key"
  "wi_inputs (cs_work (new_claim now rid slot node inputs key)) = inputs"
  "wi_attempt (cs_work (new_claim now rid slot node inputs key)) = next_attempt slot key"
  "wi_lease_until_unix_ms (cs_work (new_claim now rid slot node inputs key)) =
     cs_lease_until_ms (new_claim now rid slot node inputs key)"
  by (simp_all add: new_claim_def claim_one_def next_attempt_def Let_def)

lemma claim_one_slot:
  "snd (claim_one now rid slot (node, inputs, key)) =
     slot\<lparr>rs_claim_attempts := (rs_claim_attempts slot)(key \<mapsto> next_attempt slot key),
          rs_claimed := AList.update (work_id_of rid (an_id node) key)
            (new_claim now rid slot node inputs key) (rs_claimed slot)\<rparr>"
  by (simp add: claim_one_def new_claim_def next_attempt_def Let_def)

section \<open>The invariant of a run\<close>

definition claim_inv :: "string \<Rightarrow> run_slot \<Rightarrow> string \<Rightarrow> claimed_slot \<Rightarrow> bool" where
  "claim_inv rid slot i c \<longleftrightarrow>
     wi_id (cs_work c) = i \<and> wi_run_id (cs_work c) = rid \<and>
     wi_unit_key (cs_work c) = cs_unit_key c \<and> wi_attempt (cs_work c) = cs_attempt c \<and>
     wi_lease_until_unix_ms (cs_work c) = cs_lease_until_ms c \<and>
     cs_unit_key c \<notin> rs_done_units slot \<and>
     (\<exists>node \<in> slot_nodes slot. unit_key_for (an_id node) (cs_unit_key c) \<and>
        wi_node_id (cs_work c) = an_id node \<and> i = work_id_of rid (an_id node) (cs_unit_key c))"

text \<open>Every artifact that the run refers to is stored.\<close>

definition slot_refs :: "string set \<Rightarrow> run_slot \<Rightarrow> bool" where
  "slot_refs A slot \<longleftrightarrow>
     (\<forall>v \<in> set (run_inputs (rs_run slot)). ref_in A v) \<and>
     (\<forall>n d. rs_latest slot n = Some d \<longrightarrow> (\<forall>v \<in> set (dv_outputs d). ref_in A v)) \<and>
     (\<forall>r. run_answer (rs_run slot) = Some r \<longrightarrow> aref_id r \<in> A) \<and>
     (\<forall>i c. map_of (rs_claimed slot) i = Some c \<longrightarrow> (\<forall>v \<in> set (wi_inputs (cs_work c)). ref_in A v))"

definition slot_inv :: "string set \<Rightarrow> string \<Rightarrow> run_slot \<Rightarrow> bool" where
  "slot_inv A rid slot \<longleftrightarrow>
     run_id (rs_run slot) = rid \<and>
     (\<exists>a t. run_assembly (rs_run slot) = Some a \<and> as_terminal a = Some t \<and> distinct (map an_id (as_nodes a))) \<and>
     distinct (map fst (rs_claimed slot)) \<and>
     (\<forall>i c. map_of (rs_claimed slot) i = Some c \<longrightarrow> claim_inv rid slot i c) \<and>
     (\<forall>i j c d. map_of (rs_claimed slot) i = Some c \<longrightarrow> map_of (rs_claimed slot) j = Some d \<longrightarrow>
        cs_unit_key c = cs_unit_key d \<longrightarrow> i = j) \<and>
     has_room_for slot 0 \<and>
     run_steps (rs_run slot) \<le> run_max_steps (rs_run slot) \<and>
     (running slot \<longrightarrow> run_steps (rs_run slot) < run_max_steps (rs_run slot)) \<and>
     (run_state (rs_run slot) = Completed \<longrightarrow> run_answer (rs_run slot) \<noteq> None) \<and>
     (run_state (rs_run slot) = Stalled \<longrightarrow> rs_claimed slot = []) \<and>
     run_state (rs_run slot) \<noteq> RunUnspecified \<and>
     0 < rs_max_attempts slot \<and> slot_refs A slot"

lemma put_input_set: "set (put_input v vs) \<subseteq> insert v (set vs)"
  by (induction vs) auto

lemma slot_refs_same:
  assumes "slot_refs A slot" "run_inputs (rs_run slot') = run_inputs (rs_run slot)"
    and "rs_latest slot' = rs_latest slot" "run_answer (rs_run slot') = run_answer (rs_run slot)"
    and "\<And>i c. map_of (rs_claimed slot') i = Some c \<Longrightarrow>
      \<exists>d. map_of (rs_claimed slot) i = Some d \<and> wi_inputs (cs_work d) = wi_inputs (cs_work c)"
  shows "slot_refs A slot'"
  using assms unfolding slot_refs_def by metis

lemma slot_refs_commit:
  assumes "slot_refs A slot" "\<forall>v \<in> set (dv_outputs d). ref_in A v"
  shows "slot_refs A (fst (commit_slot slot c d))"
proof -
  have "aref_id r \<in> A" if r: "commit_answer slot c d = Some r" for r
  proof -
    from r obtain v where "find (\<lambda>out. na_name out = no_port (the (as_terminal (the (run_assembly (rs_run slot))))))
        (dv_outputs d) = Some v" "na_artifact v = Some r"
      by (auto simp: commit_answer_def Let_def bind_eq_Some_conv split: if_splits)
    moreover from this have "v \<in> set (dv_outputs d)" by (auto simp: find_Some_iff)
    ultimately show ?thesis using assms(2) by (auto simp: ref_in_def)
  qed
  with assms show ?thesis
    by (auto simp: slot_refs_def commit_slot_answer delete_conv' split: option.splits if_splits)
qed

lemma slot_refs_inject:
  assumes "slot_refs A slot" "ref_in A input"
  shows "slot_refs A (inject_slot slot input)"
  using assms put_input_set [of input "run_inputs (rs_run slot)"]
  unfolding slot_refs_def inject_slot_def by auto

lemma unit_is_claimed_iff:
  assumes "distinct (map fst (rs_claimed slot))"
  shows "unit_is_claimed slot key \<longleftrightarrow> (\<exists>i c. map_of (rs_claimed slot) i = Some c \<and> cs_unit_key c = key)"
  using assms by (auto simp: unit_is_claimed_def list_ex_iff map_of_eq_Some_iff)

lemma length_update_le: "length (AList.update k v al) \<le> Suc (length al)"
  by (induction al) auto

lemma length_update: "length (AList.update k v al) = (if k \<in> fst ` set al then length al else Suc (length al))"
  by (induction al) auto

lemma claim_inv_cong:
  assumes "claim_inv rid slot i c" "run_assembly (rs_run slot') = run_assembly (rs_run slot)"
    and "cs_unit_key c \<notin> rs_done_units slot'"
  shows "claim_inv rid slot' i c"
  using assms slot_nodes_cong [OF assms(2)] by (simp add: claim_inv_def)

lemma slot_invD:
  assumes "slot_inv A rid slot"
  shows "run_id (rs_run slot) = rid" "distinct (map fst (rs_claimed slot))"
    "map_of (rs_claimed slot) i = Some c \<Longrightarrow> claim_inv rid slot i c"
    "map_of (rs_claimed slot) i = Some c \<Longrightarrow> map_of (rs_claimed slot) j = Some d \<Longrightarrow>
       cs_unit_key c = cs_unit_key d \<Longrightarrow> i = j"
    "has_room_for slot 0" "run_steps (rs_run slot) \<le> run_max_steps (rs_run slot)"
    "running slot \<Longrightarrow> run_steps (rs_run slot) < run_max_steps (rs_run slot)"
    "run_state (rs_run slot) = Completed \<Longrightarrow> run_answer (rs_run slot) \<noteq> None"
    "run_state (rs_run slot) = Stalled \<Longrightarrow> rs_claimed slot = []"
    "run_state (rs_run slot) \<noteq> RunUnspecified" "0 < rs_max_attempts slot"
    "slot_refs A slot"
  using assms unfolding slot_inv_def by blast+

lemma claim_invD:
  assumes "claim_inv rid slot i c"
  shows "wi_id (cs_work c) = i" "wi_run_id (cs_work c) = rid" "cs_unit_key c \<notin> rs_done_units slot"
    "wi_unit_key (cs_work c) = cs_unit_key c" "wi_attempt (cs_work c) = cs_attempt c"
    "wi_lease_until_unix_ms (cs_work c) = cs_lease_until_ms c"
  using assms by (simp_all add: claim_inv_def)

text \<open>The parts of the invariant that a step which keeps or shortens the claims keeps.\<close>

lemma slot_inv_shrink:
  assumes inv: "slot_inv A rid slot"
    and sub: "\<And>j d. map_of (rs_claimed slot') j = Some d \<Longrightarrow> map_of (rs_claimed slot) j = Some d \<and> cs_unit_key d \<notin> rs_done_units slot'"
    and dist: "distinct (map fst (rs_claimed slot'))" "length (rs_claimed slot') \<le> length (rs_claimed slot)"
    and same: "run_id (rs_run slot') = run_id (rs_run slot)" "run_assembly (rs_run slot') = run_assembly (rs_run slot)"
      "rs_max_in_flight slot' = rs_max_in_flight slot" "rs_max_attempts slot' = rs_max_attempts slot"
    and st: "run_steps (rs_run slot') \<le> run_max_steps (rs_run slot')"
      "running slot' \<longrightarrow> run_steps (rs_run slot') < run_max_steps (rs_run slot')"
      "run_state (rs_run slot') = Completed \<longrightarrow> run_answer (rs_run slot') \<noteq> None"
      "run_state (rs_run slot') = Stalled \<longrightarrow> rs_claimed slot' = []"
      "run_state (rs_run slot') \<noteq> RunUnspecified"
    and refs: "slot_refs A slot'"
  shows "slot_inv A rid slot'"
proof -
  have "claim_inv rid slot' i c" if "map_of (rs_claimed slot') i = Some c" for i c
    using sub [OF that] slot_invD(3) [OF inv] same(2) by (blast intro: claim_inv_cong)
  moreover have "i = j" if "map_of (rs_claimed slot') i = Some c" "map_of (rs_claimed slot') j = Some d"
    "cs_unit_key c = cs_unit_key d" for i j c d
    using sub [OF that(1)] sub [OF that(2)] that(3) slot_invD(4) [OF inv] by blast
  moreover have "has_room_for slot' 0" using slot_invD(5) [OF inv] dist(2) same by (auto simp: has_room_for_def)
  ultimately show ?thesis
    using inv dist(1) same st refs unfolding slot_inv_def by simp
qed

lemma deleted_claims:
  assumes "slot_inv A rid slot" "map_of (rs_claimed slot) i = Some c"
    and "map_of (AList.delete i (rs_claimed slot)) j = Some d"
  shows "map_of (rs_claimed slot) j = Some d" "cs_unit_key d \<notin> insert (cs_unit_key c) (rs_done_units slot)"
proof -
  from assms(3) have j: "j \<noteq> i" "map_of (rs_claimed slot) j = Some d" by (auto simp: delete_conv' split: if_splits)
  then show "map_of (rs_claimed slot) j = Some d" by simp
  from j have "cs_unit_key d \<notin> rs_done_units slot" using claim_invD(3) slot_invD(3) [OF assms(1)] by blast
  moreover from j assms(2) have "cs_unit_key d \<noteq> cs_unit_key c" using slot_invD(4) [OF assms(1)] by blast
  ultimately show "cs_unit_key d \<notin> insert (cs_unit_key c) (rs_done_units slot)" by simp
qed

lemma slot_inv_fail:
  assumes "slot_inv A rid slot" "map_of (rs_claimed slot) i = Some c"
  shows "slot_inv A rid (fail_slot slot i c t)"
  using assms(1)
proof (rule slot_inv_shrink)
  show "distinct (map fst (rs_claimed (fail_slot slot i c t)))"
    using slot_invD(2) [OF assms(1)] by (simp add: distinct_delete)
  show "map_of (rs_claimed slot) j = Some d \<and> cs_unit_key d \<notin> rs_done_units (fail_slot slot i c t)"
    if "map_of (rs_claimed (fail_slot slot i c t)) j = Some d" for j d
    using that deleted_claims [OF assms] by simp
  show "running (fail_slot slot i c t) \<longrightarrow>
      run_steps (rs_run (fail_slot slot i c t)) < run_max_steps (rs_run (fail_slot slot i c t))"
    using slot_invD(7) [OF assms(1)] by (simp add: running_def)
  show "slot_refs A (fail_slot slot i c t)"
    using slot_invD(12) [OF assms(1)] by (rule slot_refs_same) (auto simp: delete_conv' split: if_splits)
qed (use slot_invD [OF assms(1)] in \<open>simp_all add: AList.length_delete_le\<close>)

lemma word_succ_le: "(a::'w::len word) < b \<Longrightarrow> a + 1 \<le> b"
  by (rule inc_le)

lemma slot_inv_commit:
  assumes inv: "slot_inv A rid slot" and r: "running slot" and c: "map_of (rs_claimed slot) i = Some c"
    and steps: "run_steps (rs_run slot) < run_max_steps (rs_run slot)"
    and refs: "\<forall>v \<in> set (dv_outputs d). ref_in A v"
  shows "slot_inv A rid (fst (commit_slot slot c d))"
  using inv
proof (rule slot_inv_shrink)
  have i: "wi_id (cs_work c) = i" using slot_invD(3) [OF inv c] by (rule claim_invD)
  show "map_of (rs_claimed slot) j = Some e \<and> cs_unit_key e \<notin> rs_done_units (fst (commit_slot slot c d))"
    if "map_of (rs_claimed (fst (commit_slot slot c d))) j = Some e" for j e
    using that deleted_claims [OF inv c] by (simp add: i)
  show "distinct (map fst (rs_claimed (fst (commit_slot slot c d))))"
    using slot_invD(2) [OF inv] by (simp add: distinct_delete)
  show "running (fst (commit_slot slot c d)) \<longrightarrow>
      run_steps (rs_run (fst (commit_slot slot c d))) < run_max_steps (rs_run (fst (commit_slot slot c d)))"
    unfolding running_def commit_slot_state [OF r] by (auto split: if_splits)
  show "run_state (rs_run (fst (commit_slot slot c d))) = Completed \<longrightarrow>
      run_answer (rs_run (fst (commit_slot slot c d))) \<noteq> None"
    unfolding commit_slot_state [OF r] commit_slot_answer by (auto split: if_splits option.splits)
  show "slot_refs A (fst (commit_slot slot c d))" using slot_invD(12) [OF inv] refs by (rule slot_refs_commit)
qed (use steps in \<open>auto simp: AList.length_delete_le word_succ_le commit_slot_state [OF r]\<close>)

lemma slot_inv_claim:
  assumes inv: "slot_inv A rid slot" and r: "running slot" and node: "node \<in> slot_nodes slot"
    and key: "unit_key_for (an_id node) key" "key \<notin> rs_done_units slot" "\<not> unit_is_claimed slot key"
    and room: "has_room_for slot 1" and refs: "\<forall>v \<in> set inputs. ref_in A v"
  shows "slot_inv A rid (snd (claim_one now rid slot (node, inputs, key)))" (is "slot_inv A rid ?s")
proof -
  let ?w = "work_id_of rid (an_id node) key" and ?c = "new_claim now rid slot node inputs key"
  have m: "map_of (rs_claimed ?s) = (map_of (rs_claimed slot))(?w \<mapsto> ?c)"
    by (simp add: claim_one_slot update_conv')
  have free: "cs_unit_key c \<noteq> key" if "map_of (rs_claimed slot) i = Some c" for i c
    using that key(3) unit_is_claimed_iff [OF slot_invD(2) [OF inv]] by blast
  have same: "rs_run ?s = rs_run slot" "rs_done_units ?s = rs_done_units slot"
    "rs_max_in_flight ?s = rs_max_in_flight slot" "rs_max_attempts ?s = rs_max_attempts slot"
    by (simp_all add: claim_one_slot)
  have "claim_inv rid ?s ?w ?c"
    using node key slot_nodes_cong [of ?s slot] by (auto simp: claim_inv_def same)
  moreover have "claim_inv rid ?s i c" if "map_of (rs_claimed slot) i = Some c" for i c
    using slot_invD(3) [OF inv that] by (rule claim_inv_cong) (use claim_invD(3) [OF slot_invD(3) [OF inv that]] in \<open>simp_all add: same\<close>)
  ultimately have "\<forall>i c. map_of (rs_claimed ?s) i = Some c \<longrightarrow> claim_inv rid ?s i c"
    unfolding m by auto
  moreover have "\<forall>i j c d. map_of (rs_claimed ?s) i = Some c \<longrightarrow> map_of (rs_claimed ?s) j = Some d \<longrightarrow>
        cs_unit_key c = cs_unit_key d \<longrightarrow> i = j"
    unfolding m using free slot_invD(4) [OF inv] by (auto split: if_splits)
  moreover have "has_room_for ?s 0"
    using room length_update_le [of ?w ?c "rs_claimed slot"] by (auto simp: has_room_for_def claim_one_slot)
  moreover have "distinct (map fst (rs_claimed ?s))"
    using slot_invD(2) [OF inv] by (simp add: claim_one_slot distinct_update)
  moreover have "slot_refs A ?s"
    using slot_invD(12) [OF inv] refs unfolding slot_refs_def m by (auto simp: claim_one_slot)
  ultimately show ?thesis
    using inv r unfolding slot_inv_def running_def same by simp
qed

lemma slot_inv_renew:
  assumes inv: "slot_inv A rid slot" and c: "map_of (rs_claimed slot) i = Some c"
  shows "slot_inv A rid (renew_slot until i c slot)" (is "slot_inv A rid ?s")
proof -
  let ?c = "c\<lparr>cs_lease_until_ms := until, cs_work := (cs_work c)\<lparr>wi_lease_until_unix_ms := until\<rparr>\<rparr>"
  have m: "map_of (rs_claimed ?s) = (map_of (rs_claimed slot))(i \<mapsto> ?c)" by (simp add: update_conv')
  have old: "claim_inv rid ?s j d" if "map_of (rs_claimed slot) j = Some d" for j d
    using slot_invD(3) [OF inv that] by (rule claim_inv_cong) (use claim_invD(3) [OF slot_invD(3) [OF inv that]] in simp_all)
  then have "claim_inv rid ?s i ?c" using c by (simp add: claim_inv_def)
  with old have "\<forall>j d. map_of (rs_claimed ?s) j = Some d \<longrightarrow> claim_inv rid ?s j d" unfolding m by auto
  moreover have "\<forall>i j c d. map_of (rs_claimed ?s) i = Some c \<longrightarrow> map_of (rs_claimed ?s) j = Some d \<longrightarrow>
        cs_unit_key c = cs_unit_key d \<longrightarrow> i = j"
    unfolding m using slot_invD(4) [OF inv] c by (auto split: if_splits)
  moreover have "length (rs_claimed ?s) = length (rs_claimed slot)"
  proof -
    from c have "i \<in> fst ` set (rs_claimed slot)" by (metis domI dom_map_of_conv_image_fst)
    then show ?thesis by (simp add: length_update)
  qed
  moreover have "distinct (map fst (rs_claimed ?s))" using slot_invD(2) [OF inv] by (simp add: distinct_update)
  moreover have "slot_refs A ?s"
    using slot_invD(12) [OF inv] by (rule slot_refs_same) (use c in \<open>auto simp: update_conv' split: if_splits\<close>)
  moreover have "rs_claimed slot \<noteq> []" using c by auto
  ultimately show ?thesis
    using inv unfolding slot_inv_def by (simp add: has_room_for_def running_def)
qed

lemma slot_inv_stall:
  assumes "slot_inv A rid slot" "rs_claimed slot = []"
  shows "slot_inv A rid (stall_slot slot)"
  using assms(1)
  by (rule slot_inv_shrink) (use assms slot_invD [OF assms(1)] in \<open>simp_all add: running_def slot_refs_def\<close>)

lemma slot_inv_cancel:
  assumes "slot_inv A rid slot"
  shows "slot_inv A rid (cancel_slot slot)"
  using assms
  by (rule slot_inv_shrink) (use slot_invD [OF assms] in \<open>simp_all add: running_def slot_refs_def\<close>)

lemma slot_inv_inject:
  assumes "slot_inv A rid slot"
    and "ref_in A input"
  shows "slot_inv A rid (inject_slot slot input)"
  using assms(1)
proof (rule slot_inv_shrink)
  show "map_of (rs_claimed slot) j = Some d \<and> cs_unit_key d \<notin> rs_done_units (inject_slot slot input)"
    if "map_of (rs_claimed (inject_slot slot input)) j = Some d" for j d
    using that slot_invD(3) [OF assms(1)] claim_invD(3) by fastforce
  show "slot_refs A (inject_slot slot input)" using slot_invD(12) [OF assms(1)] assms(2) by (rule slot_refs_inject)
qed (use slot_invD [OF assms(1)] in \<open>simp_all add: running_def\<close>)

text \<open>Every step keeps the invariant.\<close>

lemma slot_step_inv: "slot_step A rid slot slot' \<Longrightarrow> slot_inv A rid slot \<Longrightarrow> slot_inv A rid slot'"
  by (induction rule: slot_step.induct)
    (auto intro: slot_inv_claim slot_inv_renew slot_inv_fail slot_inv_commit slot_inv_stall
      slot_inv_cancel slot_inv_inject simp del: claim_one_slot)

lemma slot_steps_inv: "slot_steps A rid slot slot' \<Longrightarrow> slot_inv A rid slot \<Longrightarrow> slot_inv A rid slot'"
  by (induction rule: rtranclp_induct) (auto intro: slot_step_inv)

section \<open>What steps never do\<close>

text \<open>A closed run takes no step.\<close>

lemma slot_step_running: "slot_step A rid slot slot' \<Longrightarrow> running slot"
  by (induction rule: slot_step.induct) auto

lemma slot_steps_closed: "slot_steps A rid slot slot' \<Longrightarrow> \<not> running slot \<Longrightarrow> slot' = slot"
  by (induction rule: converse_rtranclp_induct) (auto dest: slot_step_running)

text \<open>The frozen parts of a run, and the sets that only grow.\<close>

definition slot_le :: "run_slot \<Rightarrow> run_slot \<Rightarrow> bool" where
  "slot_le slot slot' \<longleftrightarrow>
     run_id (rs_run slot') = run_id (rs_run slot) \<and>
     run_assembly (rs_run slot') = run_assembly (rs_run slot) \<and>
     run_policy (rs_run slot') = run_policy (rs_run slot) \<and>
     run_max_steps (rs_run slot') = run_max_steps (rs_run slot) \<and>
     rs_max_attempts slot' = rs_max_attempts slot \<and>
     rs_max_in_flight slot' = rs_max_in_flight slot \<and>
     rs_default_lease_ms slot' = rs_default_lease_ms slot \<and>
     rs_done_units slot \<subseteq> rs_done_units slot' \<and>
     run_steps (rs_run slot) \<le> run_steps (rs_run slot') \<and>
     (\<not> running slot \<longrightarrow> slot' = slot)"

lemma slot_le_refl [simp]: "slot_le slot slot"
  by (simp add: slot_le_def)

lemma slot_le_trans: "slot_le a b \<Longrightarrow> slot_le b c \<Longrightarrow> slot_le a c"
  by (auto simp: slot_le_def)

lemma slot_step_le: "slot_step A rid slot slot' \<Longrightarrow> slot_le slot slot'"
  by (induction rule: slot_step.induct)
    (auto simp: slot_le_def claim_one_slot word_succ_le less_imp_le
      intro: order_trans [OF less_imp_le [OF word_less_succ]] dest: word_less_succ)

lemma slot_steps_le: "slot_steps A rid slot slot' \<Longrightarrow> slot_le slot slot'"
  by (induction rule: rtranclp_induct) (auto intro: slot_le_trans slot_step_le)

text \<open>
  The states of one unit of work. A unit is done only from a claim and stays done.
\<close>

datatype unit_state = Idle | Claimed | Done

definition unit_state :: "run_slot \<Rightarrow> string \<Rightarrow> unit_state" where
  "unit_state slot key =
     (if key \<in> rs_done_units slot then Done else if unit_is_claimed slot key then Claimed else Idle)"

inductive unit_step :: "unit_state \<Rightarrow> unit_state \<Rightarrow> bool" where
  "unit_step u u"
| "unit_step Idle Claimed"
| "unit_step Claimed Idle"
| "unit_step Claimed Done"

inductive_simps unit_step_simps [simp]: "unit_step Idle u" "unit_step Claimed u" "unit_step Done u"

lemma claimed_unit: "map_of (rs_claimed slot) i = Some c \<Longrightarrow> unit_is_claimed slot (cs_unit_key c)"
  by (force simp: unit_is_claimed_def list_ex_iff dest: map_of_SomeD)

lemma unit_stepI:
  assumes "rs_done_units slot \<subseteq> rs_done_units slot'"
    and "key \<in> rs_done_units slot' \<Longrightarrow> key \<in> rs_done_units slot \<or> unit_is_claimed slot key"
  shows "unit_step (unit_state slot key) (unit_state slot' key)"
  using assms by (auto simp: unit_state_def)

lemma slot_step_unit: "slot_step A rid slot slot' \<Longrightarrow> unit_step (unit_state slot key) (unit_state slot' key)"
  by (induction rule: slot_step.induct; rule unit_stepI) (auto simp: claim_one_slot claimed_unit)

section \<open>Attempts\<close>

text \<open>
  A node id that begins with \<open>key:\<close> or \<open>always:\<close> could make the work id of a ONCE unit equal to
  that of another unit. Without such ids a claim never overwrites another, and no unit is attempted
  more often than \<open>max_attempts\<close>.
\<close>

definition plain_id :: "string \<Rightarrow> bool" where
  "plain_id i \<longleftrightarrow> take 4 i \<noteq> ''key:'' \<and> take 7 i \<noteq> ''always:''"

definition plain_nodes :: "run_slot \<Rightarrow> bool" where
  "plain_nodes slot \<longleftrightarrow> (\<forall>node \<in> slot_nodes slot. plain_id (an_id node))"

lemma work_id_of_unit:
  assumes "unit_key_for n k" "unit_key_for m l" "plain_id n" "plain_id m"
    and "work_id_of rid n k = work_id_of rid m l"
  shows "k = l"
  using assms by (auto simp: unit_key_for_def work_id_of_def plain_id_def)

definition attempts_inv :: "run_slot \<Rightarrow> bool" where
  "attempts_inv slot \<longleftrightarrow>
     (\<forall>k n. rs_claim_attempts slot k = Some n \<longrightarrow>
        n \<le> rs_max_attempts slot \<and> (running slot \<longrightarrow> n = rs_max_attempts slot \<longrightarrow> unit_state slot k \<noteq> Idle)) \<and>
     (\<forall>i c. map_of (rs_claimed slot) i = Some c \<longrightarrow> rs_claim_attempts slot (cs_unit_key c) = Some (cs_attempt c))"

lemma attempts_inv_keep:
  assumes "attempts_inv slot" "rs_claim_attempts slot' = rs_claim_attempts slot"
    and "rs_max_attempts slot' = rs_max_attempts slot"
    and "\<And>i c. map_of (rs_claimed slot') i = Some c \<Longrightarrow>
      \<exists>d. map_of (rs_claimed slot) i = Some d \<and> cs_unit_key d = cs_unit_key c \<and> cs_attempt d = cs_attempt c"
    and "\<And>k n. running slot' \<Longrightarrow> rs_claim_attempts slot k = Some n \<Longrightarrow> n = rs_max_attempts slot \<Longrightarrow>
      running slot \<and> (unit_state slot k \<noteq> Idle \<longrightarrow> unit_state slot' k \<noteq> Idle)"
  shows "attempts_inv slot'"
  using assms unfolding attempts_inv_def by metis

lemma unit_state_not_idle: "unit_state slot k \<noteq> Idle \<longleftrightarrow> k \<in> rs_done_units slot \<or> unit_is_claimed slot k"
  by (simp add: unit_state_def)

lemma claimed_after_delete:
  assumes "distinct (map fst (rs_claimed slot))" "map_of (rs_claimed slot) i = Some c"
    and "rs_claimed slot' = AList.delete i (rs_claimed slot)"
    and "unit_is_claimed slot k" "k \<noteq> cs_unit_key c"
  shows "unit_is_claimed slot' k"
proof -
  from assms(4) obtain j d where j: "map_of (rs_claimed slot) j = Some d" "cs_unit_key d = k"
    by (auto simp: unit_is_claimed_iff [OF assms(1)])
  with assms(2,5) have "j \<noteq> i" by auto
  with j assms(3) have "map_of (rs_claimed slot') j = Some d" by (simp add: delete_conv')
  with j show ?thesis using claimed_unit by blast
qed

lemma claimed_after_update:
  assumes "distinct (map fst (rs_claimed slot))" "rs_claimed slot' = AList.update i e (rs_claimed slot)"
    and "\<And>c. map_of (rs_claimed slot) i = Some c \<Longrightarrow> cs_unit_key c = cs_unit_key e"
    and "unit_is_claimed slot k \<or> k = cs_unit_key e"
  shows "unit_is_claimed slot' k"
proof (cases "k = cs_unit_key e")
  case True
  have "map_of (rs_claimed slot') i = Some e" using assms(2) by (simp add: update_conv')
  with True show ?thesis using claimed_unit by blast
next
  case False
  with assms(4) obtain j d where j: "map_of (rs_claimed slot) j = Some d" "cs_unit_key d = k"
    by (auto simp: unit_is_claimed_iff [OF assms(1)])
  with False assms(3) have "j \<noteq> i" by auto
  with j assms(2) have "map_of (rs_claimed slot') j = Some d" by (simp add: update_conv')
  with j show ?thesis using claimed_unit by blast
qed

lemma attempts_inv_fail:
  assumes inv: "slot_inv A rid slot" "attempts_inv slot" and r: "running slot"
    and c: "map_of (rs_claimed slot) i = Some c" and t: "t \<or> cs_attempt c < rs_max_attempts slot"
  shows "attempts_inv (fail_slot slot i c t)"
  using inv(2)
proof (rule attempts_inv_keep)
  fix k n assume n: "rs_claim_attempts slot k = Some n" "n = rs_max_attempts slot"
  have "rs_claim_attempts slot (cs_unit_key c) = Some (cs_attempt c)"
    using inv(2) c by (simp add: attempts_inv_def)
  with n t have "k = cs_unit_key c \<longrightarrow> t" by auto
  moreover have "unit_is_claimed slot k \<Longrightarrow> k \<noteq> cs_unit_key c \<Longrightarrow> unit_is_claimed (fail_slot slot i c t) k"
    by (rule claimed_after_delete [OF slot_invD(2) [OF inv(1)] c]) simp_all
  ultimately show "running slot \<and> (unit_state slot k \<noteq> Idle \<longrightarrow> unit_state (fail_slot slot i c t) k \<noteq> Idle)"
    using r by (cases "k = cs_unit_key c") (auto simp: unit_state_not_idle)
qed (auto simp: delete_conv' split: if_splits)

lemma attempts_inv_commit:
  assumes inv: "slot_inv A rid slot" "attempts_inv slot" and r: "running slot"
    and c: "map_of (rs_claimed slot) i = Some c"
  shows "attempts_inv (fst (commit_slot slot c d))"
  using inv(2)
proof (rule attempts_inv_keep)
  have i: "wi_id (cs_work c) = i" using slot_invD(3) [OF inv(1) c] by (rule claim_invD)
  show "\<exists>e. map_of (rs_claimed slot) j = Some e \<and> cs_unit_key e = cs_unit_key f \<and> cs_attempt e = cs_attempt f"
    if "map_of (rs_claimed (fst (commit_slot slot c d))) j = Some f" for j f
    using that by (auto simp: delete_conv' split: if_splits)
  show "running slot \<and> (unit_state slot k \<noteq> Idle \<longrightarrow> unit_state (fst (commit_slot slot c d)) k \<noteq> Idle)" for k
    using r claimed_after_delete [OF slot_invD(2) [OF inv(1)] c, of "fst (commit_slot slot c d)" k] i
    by (auto simp: unit_state_not_idle)
qed simp_all

lemma attempts_inv_renew:
  assumes inv: "slot_inv A rid slot" "attempts_inv slot" and r: "running slot"
    and c: "map_of (rs_claimed slot) i = Some c"
  shows "attempts_inv (renew_slot until i c slot)" (is "attempts_inv ?s")
  using inv(2)
proof (rule attempts_inv_keep)
  have "unit_is_claimed ?s k" if "unit_is_claimed slot k" for k
    by (rule claimed_after_update [OF slot_invD(2) [OF inv(1)] renew_slot_fields(2)]) (use that c in auto)
  then show "running slot \<and> (unit_state slot k \<noteq> Idle \<longrightarrow> unit_state ?s k \<noteq> Idle)" for k
    using r by (auto simp: unit_state_not_idle)
  show "\<exists>e. map_of (rs_claimed slot) j = Some e \<and> cs_unit_key e = cs_unit_key f \<and> cs_attempt e = cs_attempt f"
    if "map_of (rs_claimed ?s) j = Some f" for j f
    using that c by (auto simp: update_conv' split: if_splits)
qed simp_all

lemma attempts_inv_claim:
  assumes inv: "slot_inv A rid slot" "attempts_inv slot" and r: "running slot" and plain: "plain_nodes slot"
    and node: "node \<in> slot_nodes slot" "unit_key_for (an_id node) key"
    and free: "key \<notin> rs_done_units slot" "\<not> unit_is_claimed slot key"
  shows "attempts_inv (snd (claim_one now rid slot (node, inputs, key)))" (is "attempts_inv ?s")
proof -
  let ?w = "work_id_of rid (an_id node) key" and ?n = "next_attempt slot key"
  have new: "map_of (rs_claimed slot) ?w = None"
  proof (rule ccontr)
    assume "map_of (rs_claimed slot) ?w \<noteq> None"
    then obtain c where c: "map_of (rs_claimed slot) ?w = Some c" by auto
    with slot_invD(3) [OF inv(1)] obtain m where "m \<in> slot_nodes slot" "unit_key_for (an_id m) (cs_unit_key c)"
      "?w = work_id_of rid (an_id m) (cs_unit_key c)" by (auto simp: claim_inv_def)
    with node plain have "key = cs_unit_key c" by (auto simp: plain_nodes_def intro: work_id_of_unit)
    with c free(2) claimed_unit show False by blast
  qed
  have keep: "unit_is_claimed ?s k" if "unit_is_claimed slot k \<or> k = key" for k
    by (rule claimed_after_update [OF slot_invD(2) [OF inv(1)]])
      (use that new in \<open>auto simp: claim_one_slot\<close>)
  have n: "?n \<le> rs_max_attempts slot"
  proof (cases "rs_claim_attempts slot key")
    case None
    then show ?thesis using inc_le [OF slot_invD(11) [OF inv(1)]] by (simp add: next_attempt_def)
  next
    case (Some n)
    moreover have "unit_state slot key = Idle" using free by (simp add: unit_state_def)
    ultimately have "n \<le> rs_max_attempts slot" "n \<noteq> rs_max_attempts slot"
      using inv(2) r unfolding attempts_inv_def by blast+
    then have "n < rs_max_attempts slot" by simp
    with Some show ?thesis by (simp add: next_attempt_def word_succ_le)
  qed
  have own: "cs_unit_key c \<noteq> key" if "map_of (rs_claimed slot) i = Some c" for i c
    using that free(2) claimed_unit by blast
  show ?thesis
    unfolding attempts_inv_def
  proof (intro conjI allI impI)
    fix k m assume "rs_claim_attempts ?s k = Some m"
    then show "m \<le> rs_max_attempts ?s" using n inv(2) by (auto simp: claim_one_slot attempts_inv_def split: if_splits)
  next
    fix k m assume "rs_claim_attempts ?s k = Some m" "m = rs_max_attempts ?s"
    then have "k = key \<or> unit_state slot k \<noteq> Idle"
      using inv(2) r by (auto simp: claim_one_slot attempts_inv_def split: if_splits)
    then show "unit_state ?s k \<noteq> Idle" using keep by (auto simp: unit_state_not_idle claim_one_slot)
  next
    fix i c assume "map_of (rs_claimed ?s) i = Some c"
    then show "rs_claim_attempts ?s (cs_unit_key c) = Some (cs_attempt c)"
      using inv(2) own by (auto simp: claim_one_slot update_conv' attempts_inv_def split: if_splits)
  qed
qed

lemma attempts_inv_closed:
  assumes "attempts_inv slot" "\<not> running slot'" "rs_claim_attempts slot' = rs_claim_attempts slot"
    and "rs_max_attempts slot' = rs_max_attempts slot" "rs_claimed slot' = rs_claimed slot \<or> rs_claimed slot' = []"
  shows "attempts_inv slot'"
  using assms unfolding attempts_inv_def by auto

lemma slot_step_attempts:
  assumes "slot_step A rid slot slot'" "slot_inv A rid slot" "plain_nodes slot" "attempts_inv slot"
  shows "attempts_inv slot'"
  using assms
proof (induction rule: slot_step.induct)
  case (injected slot input)
  show ?case
    by (rule attempts_inv_keep [OF injected.prems(3)])
      (use injected in \<open>auto simp: running_def unit_state_def unit_is_claimed_def\<close>)
qed (auto intro: attempts_inv_claim attempts_inv_renew attempts_inv_fail attempts_inv_commit
    attempts_inv_closed simp: running_def)

lemma slot_steps_attempts:
  assumes "slot_steps A rid slot slot'" "slot_inv A rid slot" "plain_nodes slot" "attempts_inv slot"
  shows "attempts_inv slot'"
  using assms(1)
proof (induction rule: rtranclp_induct)
  case base
  show ?case by (rule assms(4))
next
  case (step y z)
  have "plain_nodes y"
    using assms(3) slot_steps_le [OF step(1)] slot_nodes_cong [of y slot] by (simp add: plain_nodes_def slot_le_def)
  then show ?case
    using step slot_steps_inv [OF step(1) assms(2)] slot_step_attempts by blast
qed

section \<open>The operations are sequences of steps\<close>

lemma reap_claim_fail:
  "reap_claim (i, c) slot = fail_slot slot i c (rs_max_attempts slot \<le> cs_attempt c)"
  by (simp add: reap_claim_def fail_slot_def Let_def)

lemma reap_claim_step:
  assumes "running slot" "map_of (rs_claimed slot) i = Some c"
  shows "slot_step A rid slot (reap_claim (i, c) slot)"
  using slot_step.finish [OF assms] slot_step.release [OF assms]
  by (cases "rs_max_attempts slot \<le> cs_attempt c") (simp_all add: reap_claim_fail)

lemma reap_claims_steps:
  assumes "running slot" "distinct (map fst ics)"
    and "\<forall>(i, c) \<in> set ics. map_of (rs_claimed slot) i = Some c"
  shows "slot_steps A rid slot (fold reap_claim ics slot)"
  using assms
proof (induction ics arbitrary: slot)
  case (Cons ic ics)
  obtain i c where ic: "ic = (i, c)" by (cases ic)
  let ?s = "reap_claim (i, c) slot"
  have step: "slot_step A rid slot ?s" using Cons.prems ic by (auto intro: reap_claim_step)
  have r: "running ?s" using Cons.prems(1) by (simp add: running_def reap_claim_fail)
  have m: "\<forall>(j, d) \<in> set ics. map_of (rs_claimed ?s) j = Some d"
    using Cons.prems ic by (force simp: reap_claim_fail delete_conv')
  have "slot_steps A rid ?s (fold reap_claim ics ?s)"
    using Cons.prems(2) by (intro Cons.IH r m) simp
  with step show ?case by (simp add: ic)
qed simp

lemma expired_claims_map:
  "map fst (expired_claims X now slot) =
     filter (\<lambda>i. \<exists>c. map_of (rs_claimed slot) i = Some c \<and> expired now c) (hash_order X (map fst (rs_claimed slot)))"
proof -
  have "map fst (List.map_filter (\<lambda>i. case m i of None \<Rightarrow> None | Some c \<Rightarrow> if expired now c then Some (i, c) else None) is) =
    filter (\<lambda>i. \<exists>c. m i = Some c \<and> expired now c) is" for m :: "string \<rightharpoonup> claimed_slot" and "is"
    by (induction "is") (auto simp: List.map_filter_simps split: option.splits)
  then show ?thesis by (simp add: expired_claims_def)
qed

lemma expired_claims_set:
  assumes "order_permutes X"
  shows "set (expired_claims X now slot) = {(i, c). map_of (rs_claimed slot) i = Some c \<and> expired now c}"
proof -
  have "set (List.map_filter (\<lambda>i. case m i of None \<Rightarrow> None | Some c \<Rightarrow> if expired now c then Some (i, c) else None) is) =
    {(i, c). i \<in> set is \<and> m i = Some c \<and> expired now c}" for m :: "string \<rightharpoonup> claimed_slot" and "is"
    by (induction "is") (auto simp: List.map_filter_simps split: option.splits if_splits)
  moreover have "i \<in> fst ` set (rs_claimed slot)" if "map_of (rs_claimed slot) i = Some c" for i c
    using that by (metis domI dom_map_of_conv_image_fst)
  ultimately show ?thesis by (auto simp: expired_claims_def order_permutes_set [OF assms])
qed

lemma expired_claims_distinct:
  assumes "order_permutes X" "distinct (map fst (rs_claimed slot))"
  shows "distinct (map fst (expired_claims X now slot))"
proof -
  have "mset (hash_order X (map fst (rs_claimed slot))) = mset (map fst (rs_claimed slot))"
    using assms(1) by (simp add: order_permutes_def)
  then have "distinct (hash_order X (map fst (rs_claimed slot)))"
    using assms(2) by (metis mset_eq_imp_distinct_iff)
  then show ?thesis by (simp add: expired_claims_map)
qed

lemma reap_slot_steps:
  assumes "order_permutes X" "slot_inv A rid slot" "running slot"
  shows "slot_steps A rid slot (reap_slot X now slot)"
  unfolding reap_slot_def
  using assms expired_claims_distinct [OF assms(1) slot_invD(2) [OF assms(2)]]
  by (intro reap_claims_steps) (auto simp: expired_claims_set)

lemma renew_all_steps:
  "running slot \<Longrightarrow> slot_steps A rid slot (snd (snd (renew_all until is slot)))"
proof (induction "is" arbitrary: slot)
  case (Cons i "is")
  show ?case
  proof (cases "map_of (rs_claimed slot) i")
    case None
    with Cons show ?thesis by (simp add: split_beta)
  next
    case (Some c)
    have "slot_step A rid slot (renew_slot until i c slot)" using Cons.prems Some by (rule slot_step.renew)
    moreover have "slot_steps A rid (renew_slot until i c slot) (snd (snd (renew_all until is (renew_slot until i c slot))))"
      using Cons by (simp add: running_def)
    ultimately show ?thesis
      using Some by (simp add: split_beta renew_slot_def [symmetric])
  qed
qed simp

subsection \<open>Claiming\<close>

lemma work_unit_key_form:
  assumes "digest_32 X" "work_unit_key X slot node cap f inputs = Some key"
  shows "unit_key_for (an_id node) key"
  using assms
  by (auto simp: work_unit_key_def unit_key_for_def input_key_def delivery_fingerprint_def Let_def length_hex
      digest_32_def split: firing.splits option.splits)

lemma unit_key_node:
  assumes "unit_key_for n k" "unit_key_for m k"
  shows "n = m"
  using assms by (auto simp: unit_key_for_def append_eq_append_conv2 append_eq_Cons_conv Cons_eq_append_conv)

definition cands_ok :: "string set \<Rightarrow> run_slot \<Rightarrow> (assembly_node \<times> named_artifact list \<times> string) list \<Rightarrow> bool" where
  "cands_ok A slot cands \<longleftrightarrow> distinct (map (\<lambda>(n, ins, k). k) cands) \<and>
     (\<forall>(n, ins, k) \<in> set cands. n \<in> slot_nodes slot \<and> unit_key_for (an_id n) k \<and>
        k \<notin> rs_done_units slot \<and> \<not> unit_is_claimed slot k \<and> (\<forall>v \<in> set ins. ref_in A v))"

lemma set_updateD: "jd \<in> set (AList.update k v al) \<Longrightarrow> jd = (k, v) \<or> jd \<in> set al"
  by (induction al) (auto split: if_splits)

lemma claim_one_claimed:
  assumes "unit_is_claimed (snd (claim_one now rid slot (node, inputs, key))) k"
  shows "k = key \<or> unit_is_claimed slot k"
proof -
  from assms obtain i c where "(i, c) \<in> set (AList.update (work_id_of rid (an_id node) key)
      (new_claim now rid slot node inputs key) (rs_claimed slot))" "cs_unit_key c = k"
    by (auto simp: unit_is_claimed_def list_ex_iff claim_one_slot)
  then show ?thesis by (auto simp: unit_is_claimed_def list_ex_iff dest!: set_updateD)
qed

lemma claim_units_steps:
  assumes "running slot" "cands_ok A slot cands" "has_room_for slot (length cands)"
  shows "slot_steps A rid slot (snd (claim_units now rid slot cands))"
  using assms
proof (induction cands arbitrary: slot)
  case (Cons cand cands)
  obtain node inputs key where cand: "cand = (node, inputs, key)" by (metis prod_cases3)
  let ?s = "snd (claim_one now rid slot (node, inputs, key))"
  have same: "rs_run ?s = rs_run slot" "rs_done_units ?s = rs_done_units slot" "rs_max_in_flight ?s = rs_max_in_flight slot"
    by (simp_all add: claim_one_slot)
  have step: "slot_step A rid slot ?s"
    using Cons.prems cand by (intro slot_step.claim) (auto simp: cands_ok_def has_room_for_def)
  have "slot_nodes ?s = slot_nodes slot" by (rule slot_nodes_cong) (simp add: same)
  then have ok: "cands_ok A ?s cands"
    using Cons.prems(2) cand claim_one_claimed [of now rid slot node inputs key]
    unfolding cands_ok_def same by (fastforce simp: image_iff)
  have room: "has_room_for ?s (length cands)"
    using Cons.prems(3) length_update_le [of "work_id_of rid (an_id node) key" "new_claim now rid slot node inputs key" "rs_claimed slot"]
    by (auto simp: has_room_for_def claim_one_slot)
  have "slot_steps A rid ?s (snd (claim_units now rid ?s cands))"
    using Cons.prems(1) by (intro Cons.IH ok room) (simp add: running_def same)
  with step show ?case by (simp add: cand split_beta Let_def)
qed simp

lemma cands_ok_take: "cands_ok A slot cands \<Longrightarrow> cands_ok A slot (take n cands)"
  unfolding cands_ok_def take_map [symmetric] using set_take_subset [of n cands] by (meson distinct_take subsetD)

lemma ready_unit_Some:
  assumes "ready_unit X s slot node = Some (inputs, key)"
  obtains cap where "resolve_inputs slot node = Some inputs" "capability_for_node s node = Inr cap"
    "work_unit_key X slot node cap (effective_firing slot node cap) inputs = Some key"
    "key \<notin> rs_done_units slot" "\<not> unit_is_claimed slot key"
  using assms by (auto simp: ready_unit_def split: option.splits sum.splits if_splits)

lemma distinct_map_filter_by:
  assumes "distinct (map g ns)"
    and "\<And>n m y z. f n = Some y \<Longrightarrow> f m = Some z \<Longrightarrow> k y = k z \<Longrightarrow> g n = g m"
  shows "distinct (map k (List.map_filter f ns))"
  using assms(1)
proof (induction ns)
  case (Cons n ns)
  show ?case
  proof (cases "f n")
    case (Some y)
    have "k y \<notin> k ` set (List.map_filter f ns)"
    proof
      assume "k y \<in> k ` set (List.map_filter f ns)"
      then obtain m z where m: "m \<in> set ns" "f m = Some z" "k y = k z" by (auto simp: List.map_filter_def)
      with Some assms(2) have "g n = g m" by blast
      with Cons.prems m(1) show False by auto
    qed
    with Some Cons show ?thesis by (simp add: List.map_filter_simps)
  qed (use Cons in \<open>simp add: List.map_filter_simps\<close>)
qed (simp add: List.map_filter_simps)

lemma ready_candidates_set:
  "set (ready_candidates X s slot req a) =
     {(n, ins, k). n \<in> set (as_nodes a) \<and> node_matches_claim_filter req n \<and> ready_unit X s slot n = Some (ins, k)}"
  by (force simp: ready_candidates_def List.map_filter_def)

lemma found_ref:
  assumes "Option.bind (find p vs) na_artifact = Some r" "\<forall>v \<in> set vs. ref_in A v"
  shows "aref_id r \<in> A"
proof -
  from assms(1) obtain w where w: "find p vs = Some w" "na_artifact w = Some r" by (auto simp: bind_eq_Some_conv)
  then have "w \<in> set vs" by (auto simp: find_Some_iff)
  with assms(2) have "ref_in A w" by blast
  with w(2) show ?thesis by (simp add: ref_in_def)
qed

lemma bound_source_ref:
  assumes "slot_refs A slot" "bound_source slot b = Some r"
  shows "aref_id r \<in> A"
proof (cases "bd_input b = []")
  case False
  with assms(2) have f: "Option.bind (find (\<lambda>i. na_name i = bd_input b) (run_inputs (rs_run slot))) na_artifact = Some r"
    by (simp add: bound_source_def)
  show ?thesis by (rule found_ref [OF f]) (use assms(1) in \<open>simp add: slot_refs_def\<close>)
next
  case True
  with assms(2) obtain d where d: "rs_latest slot (bd_from_node b) = Some d"
    and f: "Option.bind (find (\<lambda>out. na_name out = bd_from_port b) (dv_outputs d)) na_artifact = Some r"
    by (auto simp: bound_source_def bind_eq_Some_conv)
  have "\<forall>v \<in> set (dv_outputs d). ref_in A v" using assms(1) d by (simp add: slot_refs_def)
  with f show ?thesis by (rule found_ref)
qed

lemma resolve_inputs_refs:
  assumes "slot_refs A slot" "resolve_inputs slot node = Some inputs" "v \<in> set inputs"
  shows "ref_in A v"
proof -
  let ?f = "\<lambda>b. map_option (\<lambda>r. \<lparr>na_name = bd_to_port b, na_artifact = Some r\<rparr>) (bound_source slot b)"
  from assms(2) obtain bs where bs: "those (map ?f bs) = Some inputs"
    by (auto simp: resolve_inputs_def split: option.splits)
  have "Some v \<in> set (map Some inputs)" using assms(3) by simp
  then have "Some v \<in> set (map ?f bs)" by (simp only: bs [unfolded those_Some])
  then obtain b where "Some v = ?f b" by auto
  then obtain r where r: "bound_source slot b = Some r" "v = \<lparr>na_name = bd_to_port b, na_artifact = Some r\<rparr>"
    by (cases "bound_source slot b") simp_all
  from bound_source_ref [OF assms(1) r(1)] show ?thesis by (simp add: ref_in_def r(2))
qed

lemma ready_candidates_ok:
  assumes "digest_32 X" "slot_inv A rid slot" "run_assembly (rs_run slot) = Some a"
  shows "cands_ok A slot (ready_candidates X s slot req a)"
proof -
  have key: "unit_key_for (an_id n) k \<and> k \<notin> rs_done_units slot \<and> \<not> unit_is_claimed slot k \<and>
      (\<forall>v \<in> set ins. ref_in A v)"
    if "ready_unit X s slot n = Some (ins, k)" for n ins k
    using that by (rule ready_unit_Some)
      (auto intro: work_unit_key_form [OF assms(1)] resolve_inputs_refs [OF slot_invD(12) [OF assms(2)]])
  have "distinct (map an_id (filter (node_matches_claim_filter req) (as_nodes a)))"
    using assms(2,3) by (auto simp: slot_inv_def intro: distinct_map_filter)
  then have "distinct (map (\<lambda>(n, ins, k). k) (ready_candidates X s slot req a))"
    unfolding ready_candidates_def
  proof (rule distinct_map_filter_by)
    fix n m y z
    let ?f = "\<lambda>node. map_option (\<lambda>(inputs, unit_key). (node, inputs, unit_key)) (ready_unit X s slot node)"
    assume "?f n = Some y" "?f m = Some z" and k: "(\<lambda>(n, ins, k). k) y = (\<lambda>(n, ins, k). k) z"
    then obtain ins k ins' where "ready_unit X s slot n = Some (ins, k)" "ready_unit X s slot m = Some (ins', k)"
      by auto
    then show "an_id n = an_id m" using key unit_key_node by blast
  qed
  moreover have "slot_nodes slot = set (as_nodes a)" using assms(3) by (simp add: slot_nodes_def)
  ultimately show ?thesis
    using key unfolding cands_ok_def ready_candidates_set by auto
qed

text \<open>The slots that the in-flight capacity leaves are really free.\<close>

lemma capacity_room:
  assumes "slot_inv A rid slot" "n \<le> in_flight_capacity slot"
  shows "has_room_for slot n"
proof (cases "rs_max_in_flight slot = 0")
  case False
  let ?m = "rs_max_in_flight slot" and ?l = "length (rs_claimed slot)"
  have l: "?l \<le> unat ?m" using slot_invD(5) [OF assms(1)] False by (simp add: has_room_for_def)
  moreover have "unat ?m < 2 ^ LENGTH(64)" by (rule unsigned_less)
  ultimately have "?l < 2 ^ 64" by simp
  then have u: "unat (of_nat ?l :: u64) = ?l" by (simp add: unat_of_nat)
  then have "(of_nat ?l :: u64) \<le> ?m" using l by (simp add: word_le_nat_alt)
  then have "unat (u64_saturating_sub ?m (of_nat ?l)) = unat ?m - ?l"
    using u by (simp add: u64_saturating_sub_def unat_sub)
  then show ?thesis using assms(2) l False by (simp add: in_flight_capacity_def has_room_for_def)
qed (simp add: has_room_for_def)

section \<open>What an operation on runs does to the state\<close>

abbreviation stored :: "kstate \<Rightarrow> string set" where
  "stored s \<equiv> dom (ks_artifacts s)"

definition fresh_slot :: "string set \<Rightarrow> string \<Rightarrow> run_slot \<Rightarrow> bool" where
  "fresh_slot A rid slot \<longleftrightarrow> slot_inv A rid slot \<and> running slot \<and> rs_claimed slot = [] \<and>
     rs_done_units slot = {} \<and> rs_claim_attempts slot = Map.empty \<and> run_steps (rs_run slot) = 0"

definition runs_rel :: "string set \<Rightarrow> kstate \<Rightarrow> kstate \<Rightarrow> bool" where
  "runs_rel A s s' \<longleftrightarrow> (\<forall>rid.
     (case ks_runs s rid of
        None \<Rightarrow> ks_runs s' rid = None \<or>
          (\<exists>slot0 slot'. fresh_slot A rid slot0 \<and> slot_steps A rid slot0 slot' \<and> ks_runs s' rid = Some slot')
      | Some slot \<Rightarrow> \<exists>slot'. slot_steps A rid slot slot' \<and> ks_runs s' rid = Some slot'))"

definition runs_inv :: "kstate \<Rightarrow> bool" where
  "runs_inv s \<longleftrightarrow> (\<forall>rid slot. ks_runs s rid = Some slot \<longrightarrow> slot_inv (stored s) rid slot)"

definition steps_of :: "kstate \<Rightarrow> string \<Rightarrow> nat" where
  "steps_of s rid = (case ks_runs s rid of None \<Rightarrow> 0 | Some slot \<Rightarrow> unat (run_steps (rs_run slot)))"

definition counted :: "string set \<Rightarrow> kstate \<Rightarrow> kstate \<Rightarrow> bool" where
  "counted A s s' \<longleftrightarrow> (\<exists>new. ks_derivations s' = ks_derivations s @ new \<and>
     (\<forall>d \<in> set new. \<forall>v \<in> set (dv_inputs d @ dv_outputs d). ref_in A v) \<and>
     (\<forall>rid. steps_of s' rid = steps_of s rid + length (filter (\<lambda>d. dv_run_id d = rid) new)))"

definition run_frame :: "kstate \<Rightarrow> kstate \<Rightarrow> bool" where
  "run_frame s s' \<longleftrightarrow> s' = s\<lparr>ks_runs := ks_runs s', ks_ledger := ks_ledger s',
     ks_derivations := ks_derivations s', ks_idempotency := ks_idempotency s'\<rparr>"

definition run_op :: "ext \<Rightarrow> kstate \<Rightarrow> kstate \<Rightarrow> bool" where
  "run_op X s s' \<longleftrightarrow> run_frame s s' \<and> ledger_grows X (ks_ledger s) (ks_ledger s') \<and> runs_rel (stored s) s s' \<and>
     counted (stored s) s s'"

lemma runs_rel_refl [simp]: "runs_rel A s s"
  by (auto simp: runs_rel_def split: option.split)

lemma runs_rel_cong: "ks_runs t = ks_runs s' \<Longrightarrow> runs_rel A s t = runs_rel A s s'"
  by (simp add: runs_rel_def cong: option.case_cong)

lemma runs_rel_trans:
  assumes "runs_rel A s t" "runs_rel A t u"
  shows "runs_rel A s u"
  unfolding runs_rel_def
proof
  fix rid
  have st: "case ks_runs s rid of
      None \<Rightarrow> ks_runs t rid = None \<or>
        (\<exists>slot0 slot'. fresh_slot A rid slot0 \<and> slot_steps A rid slot0 slot' \<and> ks_runs t rid = Some slot')
    | Some slot \<Rightarrow> \<exists>slot'. slot_steps A rid slot slot' \<and> ks_runs t rid = Some slot'"
    using assms(1) by (simp add: runs_rel_def)
  have tu: "case ks_runs t rid of
      None \<Rightarrow> ks_runs u rid = None \<or>
        (\<exists>slot0 slot'. fresh_slot A rid slot0 \<and> slot_steps A rid slot0 slot' \<and> ks_runs u rid = Some slot')
    | Some slot \<Rightarrow> \<exists>slot'. slot_steps A rid slot slot' \<and> ks_runs u rid = Some slot'"
    using assms(2) by (simp add: runs_rel_def)
  from st tu show "case ks_runs s rid of
      None \<Rightarrow> ks_runs u rid = None \<or>
        (\<exists>slot0 slot'. fresh_slot A rid slot0 \<and> slot_steps A rid slot0 slot' \<and> ks_runs u rid = Some slot')
    | Some slot \<Rightarrow> \<exists>slot'. slot_steps A rid slot slot' \<and> ks_runs u rid = Some slot'"
    by (auto split: option.splits intro: rtranclp_trans)
qed

lemma counted_refl [simp]: "counted A s s"
  by (simp add: counted_def)

lemma counted_cong:
  "ks_runs t = ks_runs s' \<Longrightarrow> ks_derivations t = ks_derivations s' \<Longrightarrow> counted A s t = counted A s s'"
  by (simp add: counted_def steps_of_def)

lemma counted_trans: "counted A s t \<Longrightarrow> counted A t u \<Longrightarrow> counted A s u"
proof -
  assume "counted A s t" "counted A t u"
  then obtain new newer where
    new: "ks_derivations t = ks_derivations s @ new" "\<forall>d \<in> set new. \<forall>v \<in> set (dv_inputs d @ dv_outputs d). ref_in A v"
      "\<forall>rid. steps_of t rid = steps_of s rid + length (filter (\<lambda>d. dv_run_id d = rid) new)"
    and newer: "ks_derivations u = ks_derivations t @ newer" "\<forall>d \<in> set newer. \<forall>v \<in> set (dv_inputs d @ dv_outputs d). ref_in A v"
      "\<forall>rid. steps_of u rid = steps_of t rid + length (filter (\<lambda>d. dv_run_id d = rid) newer)"
    unfolding counted_def by blast
  have "ks_derivations u = ks_derivations s @ (new @ newer)" using new(1) newer(1) by simp
  moreover have "\<forall>d \<in> set (new @ newer). \<forall>v \<in> set (dv_inputs d @ dv_outputs d). ref_in A v"
    using new(2) newer(2) by auto
  moreover have "\<forall>rid. steps_of u rid = steps_of s rid + length (filter (\<lambda>d. dv_run_id d = rid) (new @ newer))"
    using new(3) newer(3) by simp
  ultimately show ?thesis unfolding counted_def by blast
qed

lemma run_frame_trans: "run_frame s t \<Longrightarrow> run_frame t u \<Longrightarrow> run_frame s u"
  unfolding run_frame_def by (cases s; cases t; cases u) simp

lemma run_frame_artifacts: "run_frame s s' \<Longrightarrow> ks_artifacts s' = ks_artifacts s"
  unfolding run_frame_def by (cases s; cases s') simp

lemma run_op_refl [simp]: "run_op X s s"
  by (simp add: run_op_def run_frame_def)

lemma run_op_trans: "run_op X s t \<Longrightarrow> run_op X t u \<Longrightarrow> run_op X s u"
  unfolding run_op_def
  using run_frame_artifacts [of s t] by (metis run_frame_trans ledger_grows_trans runs_rel_trans counted_trans)

text \<open>The building blocks of the operations.\<close>

lemma run_op_log: "run_op X s (log_entry X s k sj d)"
  by (simp add: run_op_def frame ledger_grows_log cong: runs_rel_cong counted_cong)
    (simp add: run_frame_def append_locked_def Let_def)

lemma log_all_Cons: "log_all X (e # es) s = log_all X es (log_entry X s (fst e) (fst (snd e)) (snd (snd e)))"
  by (simp add: log_all_def split_beta)

lemma log_all_runs [simp]: "ks_runs (log_all X es s) = ks_runs s"
  by (induction es arbitrary: s) (simp_all add: log_all_Cons frame, simp add: log_all_def)

lemma run_op_log_all: "run_op X s (log_all X es s)"
proof (induction es arbitrary: s)
  case (Cons e es)
  show ?case unfolding log_all_Cons by (rule run_op_trans [OF run_op_log Cons])
qed (simp add: log_all_def)

lemma run_op_idempotent: "run_op X s (idempotent_put s opn ctx v)"
  by (simp add: run_op_def frame cong: runs_rel_cong counted_cong)
    (simp add: run_frame_def idempotent_put_def split: option.split)

lemma run_op_set:
  assumes "ks_runs s rid = Some slot" "slot_steps (stored s) rid slot slot'"
    and "run_steps (rs_run slot') = run_steps (rs_run slot)"
  shows "run_op X s (set_slot s rid slot')"
  using assms
  by (auto simp: run_op_def run_frame_def runs_rel_def counted_def steps_of_def set_slot_def split: option.split)

lemma run_op_new:
  assumes "ks_runs s rid = None" "fresh_slot (stored s) rid slot"
  shows "run_op X s (set_slot s rid slot)"
  using assms
  by (auto simp: run_op_def run_frame_def runs_rel_def counted_def steps_of_def set_slot_def fresh_slot_def
      split: option.split)

lemma run_op_derive:
  assumes "ks_runs s rid = Some slot" "slot_steps (stored s) rid slot slot'" "dv_run_id d = rid"
    and "\<forall>v \<in> set (dv_inputs d @ dv_outputs d). ref_in (stored s) v"
    and "unat (run_steps (rs_run slot')) = unat (run_steps (rs_run slot)) + 1"
  shows "run_op X s ((set_slot s rid slot')\<lparr>ks_derivations := ks_derivations s @ [d]\<rparr>)"
  using assms
  by (auto simp: run_op_def run_frame_def runs_rel_def counted_def steps_of_def set_slot_def split: option.split)

lemma run_op_inv:
  assumes "run_op X s s'" "runs_inv s"
  shows "runs_inv s'"
  unfolding runs_inv_def
proof (intro allI impI)
  fix rid slot' assume s': "ks_runs s' rid = Some slot'"
  have rel: "runs_rel (stored s) s s'" using assms(1) by (simp add: run_op_def)
  have arts: "ks_artifacts s' = ks_artifacts s" using assms(1) by (auto simp: run_op_def intro: run_frame_artifacts)
  have "slot_inv (stored s) rid slot'"
  proof (cases "ks_runs s rid")
    case None
    with rel s' show ?thesis
      unfolding runs_rel_def by (auto simp: fresh_slot_def dest!: spec [of _ rid] intro: slot_steps_inv)
  next
    case (Some slot)
    with assms(2) have "slot_inv (stored s) rid slot" by (simp add: runs_inv_def)
    with Some rel s' show ?thesis
      unfolding runs_rel_def by (auto dest!: spec [of _ rid] intro: slot_steps_inv)
  qed
  then show "slot_inv (stored s') rid slot'" by (simp add: arts)
qed

section \<open>Every operation on runs\<close>

lemma reap_slot_run [simp]: "rs_run (reap_slot X now slot) = rs_run slot"
proof -
  have "rs_run (fold reap_claim ics slot) = rs_run slot" for ics
    by (induction ics arbitrary: slot) (auto simp: reap_claim_fail)
  then show ?thesis by (simp add: reap_slot_def)
qed

lemma reap_expired_runs:
  "ks_runs s rid = Some slot \<Longrightarrow>
     ks_runs (reap_expired_locked X now s rid) = (ks_runs s)(rid \<mapsto> reap_slot X now slot)"
  by (simp add: reap_expired_locked_def set_slot_def)

lemma run_op_reap:
  assumes "order_permutes X" "runs_inv s" "ks_runs s rid = Some slot" "running slot"
  shows "run_op X s (reap_expired_locked X now s rid)"
proof -
  have "slot_steps (stored s) rid slot (reap_slot X now slot)"
    using assms by (intro reap_slot_steps) (auto simp: runs_inv_def)
  then have "run_op X s (set_slot s rid (reap_slot X now slot))" using assms(3) by (intro run_op_set) simp_all
  then show ?thesis using assms(3) run_op_log_all run_op_trans by (fastforce simp: reap_expired_locked_def)
qed

lemma set_slot_runs [simp]: "ks_runs (set_slot s rid slot) = (ks_runs s)(rid \<mapsto> slot)"
  by (simp add: set_slot_def)

lemma set_slot_twice [simp]: "set_slot (set_slot s rid slot) rid slot' = set_slot s rid slot'"
  by (simp add: set_slot_def)

lemma run_op_set_log:
  assumes "run_op X s0 s" "ks_runs s rid = Some slot" "slot_steps (stored s) rid slot slot'"
    and "run_steps (rs_run slot') = run_steps (rs_run slot)"
  shows "run_op X s0 (log_entry X (set_slot s rid slot') k sj d)"
  using run_op_trans [OF assms(1) run_op_trans [OF run_op_set [OF assms(2-4)] run_op_log]] .

lemma run_op_stall:
  assumes "run_op X s0 s" "ks_runs s rid = Some slot" "running slot" "rs_claimed slot = []" "\<not> is_open_closure slot"
  shows "run_op X s0 (stall_run X s rid slot)"
  unfolding stall_run_def Let_def
  using assms by (intro run_op_set_log) (auto intro: slot_step.stalled)

lemma claim_units_run [simp]: "rs_run (snd (claim_units now rid slot cands)) = rs_run slot"
  by (induction cands arbitrary: slot) (auto simp: split_beta Let_def claim_one_slot)

lemma claim_items_run [simp]: "rs_run (snd (claim_items X now s slot req)) = rs_run slot"
  by (simp add: claim_items_def Let_def)

lemma claim_items_steps:
  assumes "digest_32 X" "slot_inv A (cr_run_id req) slot" "running slot"
  shows "slot_steps A (cr_run_id req) slot (snd (claim_items X now s slot req))"
proof -
  let ?a = "the (run_assembly (rs_run slot))" and ?w = "claim_want slot req"
  let ?c = "take ?w (ready_candidates X s slot req ?a)"
  have a: "run_assembly (rs_run slot) = Some ?a" using assms(2) by (auto simp: slot_inv_def)
  have "cands_ok A slot ?c" by (intro cands_ok_take ready_candidates_ok [OF assms(1,2) a])
  moreover have "has_room_for slot ?w" by (rule capacity_room [OF assms(2)]) (simp add: claim_want_def)
  then have "has_room_for slot (length ?c)" by (auto simp: has_room_for_def)
  ultimately show ?thesis using assms(3) by (simp add: claim_items_def Let_def claim_units_steps)
qed

text \<open>The state after reaping, for the operations that reap first.\<close>

lemma reaped_state:
  assumes "order_permutes X" "runs_inv s" "ks_runs s rid = Some slot" "running slot"
  shows "run_op X s (reap_expired_locked X now s rid)"
    "ks_runs (reap_expired_locked X now s rid) rid = Some (reap_slot X now slot)"
    "slot_inv (stored s) rid (reap_slot X now slot)" "running (reap_slot X now slot)"
    "stored (reap_expired_locked X now s rid) = stored s"
proof -
  show op: "run_op X s (reap_expired_locked X now s rid)" using assms by (rule run_op_reap)
  show k: "ks_runs (reap_expired_locked X now s rid) rid = Some (reap_slot X now slot)"
    using assms(3) by (simp add: reap_expired_runs)
  show same: "stored (reap_expired_locked X now s rid) = stored s" using op run_frame_artifacts [of s] by (simp only: run_op_def)
  show "slot_inv (stored s) rid (reap_slot X now slot)" using run_op_inv [OF op assms(2)] k same by (simp add: runs_inv_def)
  show "running (reap_slot X now slot)" using assms(4) by (simp add: running_def)
qed

lemma claim_ready_op:
  assumes X: "order_permutes X" "digest_32 X" and inv: "runs_inv s"
  shows "run_op X s (snd (claim_ready X now s req))"
proof (cases "\<exists>slot0. ks_runs s (cr_run_id req) = Some slot0 \<and> running slot0")
  case False
  then show ?thesis by (auto simp: claim_ready_def running_def split: option.split)
next
  case True
  then obtain slot0 where slot0: "ks_runs s (cr_run_id req) = Some slot0" "running slot0" by blast
  let ?rid = "cr_run_id req"
  let ?s1 = "reap_expired_locked X now s ?rid" and ?slot1 = "reap_slot X now slot0"
  note reaped = reaped_state [OF X(1) inv slot0, of now]
  obtain items slot2 where r: "claim_items X now ?s1 ?slot1 req = (items, slot2)" by (metis surj_pair)
  define s2 where "s2 = log_all X (map (\<lambda>w. (''work.claimed'', wi_id w, enc_work_item X (ledger_work_item w))) items)
    (set_slot ?s1 ?rid slot2)"
  have steps: "slot_steps (stored ?s1) ?rid ?slot1 slot2"
    using claim_items_steps [OF X(2) reaped(3,4), of now ?s1] r reaped(5) by simp
  have run: "rs_run slot2 = rs_run ?slot1" using claim_items_run [of X now ?s1 ?slot1 req] r by simp
  have "run_op X s (set_slot ?s1 ?rid slot2)"
    by (rule run_op_trans [OF reaped(1) run_op_set [OF reaped(2) steps]]) (simp add: run)
  then have s2: "run_op X s s2" unfolding s2_def by (rule run_op_trans [OF _ run_op_log_all])
  have "running slot2" using reaped(4) run by (simp add: running_def)
  then have "run_op X s (stall_run X s2 ?rid slot2)" if "rs_claimed slot2 = []" "\<not> is_open_closure slot2"
    using s2 that by (intro run_op_stall) (simp_all add: s2_def)
  moreover have "snd (claim_ready X now s req) =
    (if items = [] \<and> \<not> assembly_any_ready X s2 slot2 \<and> rs_claimed slot2 = [] \<and> \<not> is_open_closure slot2
     then stall_run X s2 ?rid slot2 else s2)"
    using slot0 reaped(2) r unfolding s2_def by (simp add: claim_ready_def running_def Let_def split del: if_split)
  ultimately show ?thesis using s2 by simp
qed

lemma renew_all_run [simp]: "rs_run (snd (snd (renew_all until is slot))) = rs_run slot"
  by (induction "is" arbitrary: slot) (auto simp: split_beta split: option.split)

lemma heartbeat_op:
  assumes X: "order_permutes X" and inv: "runs_inv s"
  shows "run_op X s (snd (heartbeat X now s req))"
proof (cases "\<exists>slot0. ks_runs s (hr_run_id req) = Some slot0 \<and> running slot0")
  case False
  then show ?thesis by (auto simp: heartbeat_def running_def split: option.split)
next
  case True
  then obtain slot where slot: "ks_runs s (hr_run_id req) = Some slot" "running slot" by blast
  let ?until = "i64_saturating_add now (u64_as_i64 (if hr_extend_lease_ms req = 0 then rs_default_lease_ms slot else hr_extend_lease_ms req))"
  let ?slot1 = "snd (snd (renew_all ?until (hr_work_ids req) slot))"
  let ?s1 = "set_slot s (hr_run_id req) ?slot1"
  have s1: "run_op X s ?s1" using slot by (intro run_op_set) (auto intro: renew_all_steps)
  have "running ?slot1" using slot(2) by (simp add: running_def)
  then have "run_op X ?s1 (reap_expired_locked X now ?s1 (hr_run_id req))"
    by (intro run_op_reap X run_op_inv [OF s1 inv]) simp_all
  with s1 have "run_op X s (reap_expired_locked X now ?s1 (hr_run_id req))" by (rule run_op_trans)
  then show ?thesis using slot by (simp add: heartbeat_def running_def Let_def split_beta)
qed

lemma fail_work_op:
  assumes X: "order_permutes X" and inv: "runs_inv s"
  shows "run_op X s (snd (fail_work X now s req))"
proof (cases "\<exists>slot0. ks_runs s (fwr_run_id req) = Some slot0 \<and> running slot0")
  case False
  then show ?thesis by (auto simp: fail_work_def running_def split: option.split)
next
  case True
  then obtain slot where slot: "ks_runs s (fwr_run_id req) = Some slot" "running slot" by blast
  let ?rid = "fwr_run_id req" and ?slot1 = "reap_slot X now slot"
  let ?s1 = "reap_expired_locked X now s ?rid"
  note reaped = reaped_state [OF X inv slot, of now]
  show ?thesis
  proof (cases "map_of (rs_claimed ?slot1) (fwr_work_id req)")
    case None
    then show ?thesis using slot reaped by (simp add: fail_work_def running_def Let_def)
  next
    case (Some c)
    define t where "t = (fwr_terminal req \<or> rs_max_attempts ?slot1 \<le> cs_attempt c)"
    let ?slot2 = "fail_slot ?slot1 (fwr_work_id req) c t"
    have step: "slot_step (stored ?s1) ?rid ?slot1 ?slot2"
      using slot_step.finish [OF reaped(4) Some] slot_step.release [OF reaped(4) Some]
      by (cases t) (auto simp: t_def)
    have s2: "run_op X s (log_entry X (set_slot ?s1 ?rid ?slot2) k sj d)" for k sj d
      by (rule run_op_set_log [OF reaped(1,2)]) (use step in auto)
    have "running ?slot2" using reaped(4) by (simp add: running_def)
    then have stall: "run_op X s (stall_run X (log_entry X (set_slot ?s1 ?rid ?slot2) k sj d) ?rid ?slot2)"
      if "\<not> is_open_closure ?slot2" "rs_claimed ?slot2 = []" for k sj d
      using that by (intro run_op_stall s2) (simp_all add: frame)
    show ?thesis
      using slot reaped(2) Some s2 stall
      by (simp add: fail_work_def running_def Let_def t_def [symmetric])
  qed
qed

lemma cancel_run_op:
  shows "run_op X s (snd (cancel_run X s rid))"
proof (cases "\<exists>slot. ks_runs s rid = Some slot \<and> running slot")
  case False
  then show ?thesis by (auto simp: cancel_run_def running_def split: option.split)
next
  case True
  then obtain slot where slot: "ks_runs s rid = Some slot" "running slot" by blast
  then have "slot_steps (stored s) rid slot (cancel_slot slot)" by (auto intro: slot_step.cancelled)
  then have "run_op X s (log_entry X (set_slot s rid (cancel_slot slot)) k sj d)" for k sj d
    using slot by (intro run_op_set_log [OF run_op_refl]) simp_all
  then show ?thesis using slot by (simp add: cancel_run_def running_def Let_def)
qed

lemma inject_input_op: "run_op X s (snd (inject_input_ctx X now s req ctx))"
proof -
  have "run_op X s (log_entry X (set_slot s rid (inject_slot slot input)) k sj d)"
    if "ks_runs s rid = Some slot" "run_state (rs_run slot) = Running" "na_artifact input = Some r"
      "ks_artifacts s (aref_id r) = Some a" for rid slot input r a k sj d
  proof -
    have "slot_step (stored s) rid slot (inject_slot slot input)"
      using that(2-4) by (intro slot_step.injected) (auto simp: running_def ref_in_def)
    then show ?thesis by (intro run_op_set_log [OF run_op_refl that(1)]) auto
  qed
  then show ?thesis
    by (auto simp: inject_input_ctx_def Let_def split: sum.split option.split)
qed

subsection \<open>Starting\<close>

lemma limit_or_pos [simp]: "d \<noteq> 0 \<Longrightarrow> limit_or d v \<noteq> 0"
  by (simp add: limit_or_def Let_def split: option.split)

lemma new_slot_fresh:
  assumes "well_formed_assembly s a (rr_inputs req)" "max_steps \<noteq> 0"
  shows "fresh_slot (stored s) (rr_id req) (new_slot req (new_run req a max_steps))" (is "fresh_slot _ _ ?s")
proof -
  have "\<forall>v \<in> set (rr_inputs req). ref_in (stored s) v"
    using assms(1) unfolding well_formed_assembly_def inputs_ok_def input_ok_def ref_in_def by (blast intro: domI)
  then have "slot_refs (stored s) ?s" by (simp add: slot_refs_def new_slot_def new_run_def)
  then have "slot_inv (stored s) (rr_id req) ?s"
    using assms
    by (auto simp: slot_inv_def new_slot_def new_run_def well_formed_assembly_def nodes_ok_def has_room_for_def
        running_def word_gt_0 DEFAULT_MAX_ATTEMPTS_def)
  then show ?thesis by (simp add: fresh_slot_def new_slot_def new_run_def running_def)
qed

lemma start_run_op:
  assumes "order_permutes X"
  shows "run_op X s (snd (start_run_ctx X now s req ctx))"
proof -
  have "run_op X s (idempotent_put (log_entry X (set_slot s (run_id (new_run req a m)) (new_slot req (new_run req a m))) k sj d)
      ''start_run'' ctx v)"
    if "validate_assembly X s a (rr_inputs req) = Inr ()" "m \<noteq> 0" "ks_runs s (rr_id req) = None" for a m k sj d v
  proof -
    have "fresh_slot (stored s) (rr_id req) (new_slot req (new_run req a m))"
      using that validate_assembly_iff [OF assms] new_slot_fresh by blast
    then have "run_op X s (set_slot s (rr_id req) (new_slot req (new_run req a m)))"
      using that(3) by (intro run_op_new)
    from run_op_trans [OF run_op_trans [OF this run_op_log] run_op_idempotent]
    show ?thesis by (simp add: new_run_def)
  qed
  then show ?thesis
    by (simp add: start_run_ctx_def Let_def split: sum.split option.split idempotent_result.split)
qed

subsection \<open>Commit\<close>

lemma commit_steps_count:
  assumes "run_steps (rs_run slot) < run_max_steps (rs_run slot)"
  shows "unat (run_steps (rs_run (fst (commit_slot slot c d)))) = unat (run_steps (rs_run slot)) + 1"
proof -
  from assms have "run_steps (rs_run slot) \<noteq> -1" by (metis word_n1_ge leD)
  then show ?thesis by (simp add: unat_succ)
qed

text \<open>The slot that a commit leaves, with the stall check.\<close>

definition committed_slot :: "ext \<Rightarrow> kstate \<Rightarrow> run_slot \<Rightarrow> claimed_slot \<Rightarrow> derivation \<Rightarrow> run_slot" where
  "committed_slot X s slot c d =
     (case commit_slot slot c d of (slot1, closed) \<Rightarrow>
        if \<not> closed \<and> \<not> is_open_closure slot1 \<and> rs_claimed slot1 = [] \<and>
           \<not> assembly_any_ready X (set_slot s (wi_run_id (cs_work c)) slot1) slot1
        then stall_slot slot1 else slot1)"

lemma apply_commit_eq:
  fixes X outputs
  assumes "ks_runs s (wi_run_id (cs_work c)) = Some slot"
  defines "d \<equiv> make_derivation X (cs_work c) outputs"
  defines "slot' \<equiv> committed_slot X s slot c d"
  shows "apply_commit X s c outputs ctx =
     (rs_run slot',
      idempotent_put (log_entry X (log_entry X
        ((set_slot s (wi_run_id (cs_work c)) slot')\<lparr>ks_derivations := ks_derivations s @ [d]\<rparr>)
        ''derivation.committed'' (dv_id d) (enc_derivation X d))
        (commit_kind (run_state (rs_run slot'))) (run_id (rs_run slot')) (enc_run X (rs_run slot')))
        ''commit'' ctx (IdemRun (rs_run slot')))"
  using assms(1)
  by (simp add: apply_commit_def d_def slot'_def committed_slot_def Let_def split_beta set_slot_def)

lemma committed_slot_steps:
  assumes "running slot" "map_of (rs_claimed slot) i = Some c"
    and "run_steps (rs_run slot) < run_max_steps (rs_run slot)" "\<forall>v \<in> set (dv_outputs d). ref_in A v"
  shows "slot_steps A rid slot (committed_slot X s slot c d)"
    "unat (run_steps (rs_run (committed_slot X s slot c d))) = unat (run_steps (rs_run slot)) + 1"
proof -
  obtain slot1 closed where r: "commit_slot slot c d = (slot1, closed)" by (metis surj_pair)
  have step: "slot_step A rid slot slot1" using slot_step.committed [OF assms, of rid] r by simp
  have "slot_step A rid slot1 (stall_slot slot1)" if "\<not> closed" "\<not> is_open_closure slot1" "rs_claimed slot1 = []"
  proof (rule slot_step.stalled)
    show "running slot1" using that(1) r commit_slot_closed [of slot c d] commit_slot_state [OF assms(1), of c d]
      by (auto simp: running_def)
  qed (use that in simp_all)
  with step show "slot_steps A rid slot (committed_slot X s slot c d)"
    using r by (auto simp: committed_slot_def)
  show "unat (run_steps (rs_run (committed_slot X s slot c d))) = unat (run_steps (rs_run slot)) + 1"
    using commit_steps_count [OF assms(3), of c d] r by (simp add: committed_slot_def)
qed

lemma make_derivation_fields [simp]:
  "dv_run_id (make_derivation X w outputs) = wi_run_id w"
  "dv_node_id (make_derivation X w outputs) = wi_node_id w"
  "dv_outputs (make_derivation X w outputs) = outputs"
  "dv_inputs (make_derivation X w outputs) = wi_inputs w"
  by (simp_all add: make_derivation_def Let_def)

lemma validate_outputs_refs:
  assumes "validate_outputs s cap outputs = Inr ()"
  shows "\<forall>v \<in> set outputs. ref_in (stored s) v"
  using assms
  by (fastforce simp: validate_outputs_def case_sum_Inr check_output_def case_option_Inr ref_in_def split: if_splits)

lemma commit_op:
  assumes X: "order_permutes X" and inv: "runs_inv s"
  shows "run_op X s (snd (commit_ctx X now s submitted ctx))"
proof (cases "\<exists>slot0. ks_runs s (dv_run_id submitted) = Some slot0 \<and> running slot0")
  case False
  then show ?thesis
    by (auto simp: commit_ctx_def running_def split: option.split sum.split idempotent_result.split)
next
  case True
  then obtain slot0 where slot0: "ks_runs s (dv_run_id submitted) = Some slot0" "running slot0" by blast
  let ?rid = "dv_run_id submitted" and ?slot = "reap_slot X now slot0"
  let ?s1 = "reap_expired_locked X now s ?rid"
  note reaped = reaped_state [OF X inv slot0, of now]
  have applied: "run_op X s (snd (apply_commit X ?s1 c outputs ctx))"
    if c: "map_of (rs_claimed ?slot) i = Some c" and refs: "\<forall>v \<in> set outputs. ref_in (stored s) v" and st: "run_steps (rs_run slot0) < run_max_steps (rs_run slot0)" for i c outputs
  proof -
    have rid: "wi_run_id (cs_work c) = ?rid" using slot_invD(3) [OF reaped(3) c] by (rule claim_invD)
    then have k: "ks_runs ?s1 (wi_run_id (cs_work c)) = Some ?slot" using reaped(2) by simp
    let ?d = "make_derivation X (cs_work c) outputs"
    let ?slot' = "committed_slot X ?s1 ?slot c ?d"
    have st': "run_steps (rs_run ?slot) < run_max_steps (rs_run ?slot)" using st by simp
    have outs: "\<forall>v \<in> set (dv_outputs ?d). ref_in (stored ?s1) v" using refs reaped(5) by simp
    have ins: "\<forall>v \<in> set (dv_inputs ?d). ref_in (stored ?s1) v"
      using slot_invD(12) [OF reaped(3)] c reaped(5) by (auto simp: slot_refs_def)
    have "run_op X ?s1 ((set_slot ?s1 ?rid ?slot')\<lparr>ks_derivations := ks_derivations ?s1 @ [?d]\<rparr>)"
      by (rule run_op_derive [OF reaped(2) committed_slot_steps(1) [OF reaped(4) c st' outs] _ _
          committed_slot_steps(2) [OF reaped(4) c st' outs]]) (use outs ins in \<open>auto simp: rid\<close>)
    from run_op_trans [OF run_op_trans [OF run_op_trans [OF run_op_trans [OF reaped(1) this] run_op_log]
          run_op_log] run_op_idempotent]
    show ?thesis unfolding apply_commit_eq [OF k] by (simp add: rid)
  qed
  show ?thesis
  proof (cases "map_of (rs_claimed ?slot) (dv_work_id submitted)")
    case None
    then show ?thesis using slot0 reaped(1,2)
      by (simp add: commit_ctx_def running_def Let_def split: option.split sum.split idempotent_result.split)
  next
    case (Some c)
    have "run_op X s (snd (case apply_commit X ?s1 c outputs ctx of (run, s2) \<Rightarrow> (Inr run :: kernel_error + run, s2)))"
      if "\<not> run_max_steps (rs_run slot0) \<le> run_steps (rs_run slot0)" "validate_outputs ?s1 cap outputs = Inr ()" for cap outputs
      using applied [OF Some] that validate_outputs_refs [OF that(2)] reaped(5) by (simp add: split_beta)
    with Some show ?thesis using slot0 reaped(1,2)
      by (simp add: commit_ctx_def running_def Let_def split: option.split sum.split idempotent_result.split)
  qed
qed

end
