(* ===== verification/Kernel.thy ===== *)
theory Kernel
  imports Registry Store Bus RunSteps
begin

text \<open>
  The kernel as a whole: the dispatch of \<open>impl KernelApi for MemoryKernel\<close> with its deadline
  checks, the inherent calls beside it, and the machine whose steps are the calls. What holds in
  every reachable state and what every call preserves is proved here from the component lemmas.
\<close>

section \<open>Calls and responses\<close>

datatype kernel_op =
  OpRegister module_manifest request_context
| OpTransition transition_request request_context
| OpPutArtifact artifact request_context
| OpGetArtifact artifact_ref request_context
| OpPutBlob put_blob_request request_context
| OpGetBlob get_blob_request request_context
| OpHasBlob has_blob_request request_context
| OpPutContract contract request_context
| OpPublish event request_context
| OpAppend append_request request_context
| OpSnapshot request_context
| OpStartRun run_request request_context
| OpInjectInput inject_input_request request_context
| OpClaimReady claim_request request_context
| OpHeartbeat heartbeat_request request_context
| OpFailWork fail_work_request request_context
| OpCommit derivation request_context
| OpGetRun string request_context
| OpCancelRun string request_context
| OpListDerivations string request_context
| OpSubscribe subscription
| OpTryRecv nat
| OpDropReceiver nat
| OpPutArtifactWithBlob string string bytes string

datatype response =
  RError kernel_error
| RLifecycle int
| RArtifactRef artifact_ref
| RArtifact artifact
| RBlobRef blob_ref
| RBlobData blob_data
| RHasBlob has_blob_response
| RContract contract
| RSeq u64
| REntry ledger_entry
| RSnapshot registry_snapshot
| RRun run
| RItems "work_item list"
| RHeartbeat heartbeat_response
| RDerivations "derivation list"
| RReceiver nat
| RReceived recv_result
| RStored artifact_ref blob_ref
| RDone

definition respond :: "('a \<Rightarrow> response) \<Rightarrow> 'a outcome \<Rightarrow> response \<times> kstate" where
  "respond f out = (case out of (Inl e, s) \<Rightarrow> (RError e, s) | (Inr v, s) \<Rightarrow> (f v, s))"

text \<open>\<open>check_deadline(ctx)?\<close> before the call.\<close>

definition guarded :: "int \<Rightarrow> request_context \<Rightarrow> kstate \<Rightarrow> (response \<times> kstate) \<Rightarrow> response \<times> kstate" where
  "guarded now ctx s call = (case check_deadline now ctx of Inl e \<Rightarrow> (RError e, s) | Inr _ \<Rightarrow> call)"

definition append_req :: "ext \<Rightarrow> kstate \<Rightarrow> append_request \<Rightarrow> ledger_entry \<times> kstate" where
  "append_req X s req = append_locked X s (aq_kind req) (aq_subject req) (aq_detail req)"

definition ledger :: "kstate \<Rightarrow> ledger_entry list" where
  "ledger s = ks_ledger s"

definition verify_ledger :: "ext \<Rightarrow> kstate \<Rightarrow> bool" where
  "verify_ledger X s = verify_chain X (ks_ledger s)"

fun kernel_call :: "ext \<Rightarrow> artifact_store_policy \<Rightarrow> int \<Rightarrow> kstate \<Rightarrow> kernel_op \<Rightarrow> response \<times> kstate" where
  "kernel_call X pol now s (OpRegister m ctx) = map_prod RLifecycle id (register_ctx X s m ctx)"
| "kernel_call X pol now s (OpTransition req ctx) = respond RLifecycle (transition_req X now s req ctx)"
| "kernel_call X pol now s (OpPutArtifact a ctx) = respond RArtifactRef (put_artifact_ctx X pol now s a ctx)"
| "kernel_call X pol now s (OpGetArtifact r ctx) = guarded now ctx s (respond RArtifact (get_artifact s r, s))"
| "kernel_call X pol now s (OpPutBlob req ctx) = respond RBlobRef (put_blob X pol s req)"
| "kernel_call X pol now s (OpGetBlob req ctx) = guarded now ctx s (respond RBlobData (get_blob X s req, s))"
| "kernel_call X pol now s (OpHasBlob req ctx) = (RHasBlob (has_blob s req), s)"
| "kernel_call X pol now s (OpPutContract c ctx) = guarded now ctx s (respond RContract (put_contract X s c))"
| "kernel_call X pol now s (OpPublish ev ctx) = map_prod RSeq id (publish X s ev)"
| "kernel_call X pol now s (OpAppend req ctx) = map_prod REntry id (append_req X s req)"
| "kernel_call X pol now s (OpSnapshot ctx) = (RSnapshot (snapshot X pol s), s)"
| "kernel_call X pol now s (OpStartRun req ctx) = respond RRun (start_run_ctx X now s req ctx)"
| "kernel_call X pol now s (OpInjectInput req ctx) = respond RRun (inject_input_ctx X now s req ctx)"
| "kernel_call X pol now s (OpClaimReady req ctx) = guarded now ctx s (respond RItems (claim_ready X now s req))"
| "kernel_call X pol now s (OpHeartbeat req ctx) = guarded now ctx s (respond RHeartbeat (heartbeat X now s req))"
| "kernel_call X pol now s (OpFailWork req ctx) = guarded now ctx s (respond RRun (fail_work X now s req))"
| "kernel_call X pol now s (OpCommit d ctx) = respond RRun (commit_ctx X now s d ctx)"
| "kernel_call X pol now s (OpGetRun rid ctx) = guarded now ctx s (respond RRun (get_run s rid))"
| "kernel_call X pol now s (OpCancelRun rid ctx) = guarded now ctx s (respond RRun (cancel_run X s rid))"
| "kernel_call X pol now s (OpListDerivations rid ctx) =
     guarded now ctx s (respond RDerivations (list_derivations s rid))"
| "kernel_call X pol now s (OpSubscribe sb) = map_prod RReceiver id (subscribe s sb)"
| "kernel_call X pol now s (OpTryRecv rx) = map_prod RReceived id (try_recv s rx)"
| "kernel_call X pol now s (OpDropReceiver rx) = (RDone, drop_receiver s rx)"
| "kernel_call X pol now s (OpPutArtifactWithBlob c ns data who) =
     respond (\<lambda>(a, b). RStored a b) (put_artifact_with_blob X pol now s c ns data who)"

text \<open>The context of a call; the inherent calls at the end have none.\<close>

definition op_context :: "kernel_op \<Rightarrow> request_context option" where
  "op_context opn = (case opn of
     OpRegister _ ctx \<Rightarrow> Some ctx | OpTransition _ ctx \<Rightarrow> Some ctx | OpPutArtifact _ ctx \<Rightarrow> Some ctx
   | OpGetArtifact _ ctx \<Rightarrow> Some ctx | OpPutBlob _ ctx \<Rightarrow> Some ctx | OpGetBlob _ ctx \<Rightarrow> Some ctx
   | OpHasBlob _ ctx \<Rightarrow> Some ctx | OpPutContract _ ctx \<Rightarrow> Some ctx | OpPublish _ ctx \<Rightarrow> Some ctx
   | OpAppend _ ctx \<Rightarrow> Some ctx | OpSnapshot ctx \<Rightarrow> Some ctx | OpStartRun _ ctx \<Rightarrow> Some ctx
   | OpInjectInput _ ctx \<Rightarrow> Some ctx | OpClaimReady _ ctx \<Rightarrow> Some ctx | OpHeartbeat _ ctx \<Rightarrow> Some ctx
   | OpFailWork _ ctx \<Rightarrow> Some ctx | OpCommit _ ctx \<Rightarrow> Some ctx | OpGetRun _ ctx \<Rightarrow> Some ctx
   | OpCancelRun _ ctx \<Rightarrow> Some ctx | OpListDerivations _ ctx \<Rightarrow> Some ctx
   | OpSubscribe _ \<Rightarrow> None | OpTryRecv _ \<Rightarrow> None | OpDropReceiver _ \<Rightarrow> None | OpPutArtifactWithBlob _ _ _ _ \<Rightarrow> None)"

text \<open>The calls of the trait \<open>KernelApi\<close> that return a \<open>Result\<close>.\<close>

definition returns_result :: "kernel_op \<Rightarrow> bool" where
  "returns_result opn = (case opn of
     OpTransition _ _ \<Rightarrow> True | OpPutArtifact _ _ \<Rightarrow> True | OpGetArtifact _ _ \<Rightarrow> True | OpPutBlob _ _ \<Rightarrow> True
   | OpGetBlob _ _ \<Rightarrow> True | OpPutContract _ _ \<Rightarrow> True | OpStartRun _ _ \<Rightarrow> True | OpInjectInput _ _ \<Rightarrow> True
   | OpClaimReady _ _ \<Rightarrow> True | OpHeartbeat _ _ \<Rightarrow> True | OpFailWork _ _ \<Rightarrow> True | OpCommit _ _ \<Rightarrow> True
   | OpGetRun _ _ \<Rightarrow> True | OpCancelRun _ _ \<Rightarrow> True | OpListDerivations _ _ \<Rightarrow> True | _ \<Rightarrow> False)"

section \<open>The machine\<close>

definition kernel_step :: "ext \<Rightarrow> artifact_store_policy \<Rightarrow> kstate \<Rightarrow> kstate \<Rightarrow> bool" where
  "kernel_step X pol s s' \<longleftrightarrow> (\<exists>now opn. s' = snd (kernel_call X pol now s opn))"

inductive reachable :: "ext \<Rightarrow> artifact_store_policy \<Rightarrow> kstate \<Rightarrow> bool" for X pol where
  init: "reachable X pol init_state"
| call: "reachable X pol s \<Longrightarrow> reachable X pol (snd (kernel_call X pol now s opn))"

text \<open>The code outside the repository behaves as documented.\<close>

definition documented :: "ext \<Rightarrow> bool" where
  "documented X \<longleftrightarrow> digest_32 X \<and> order_permutes X"

text \<open>A machine with an invariant, and an order that its steps follow.\<close>

locale machine =
  fixes start :: "'s" and step :: "'s \<Rightarrow> 's \<Rightarrow> bool" and inv :: "'s \<Rightarrow> bool" and le :: "'s \<Rightarrow> 's \<Rightarrow> bool"
  assumes inv_start: "inv start"
    and inv_step: "inv s \<Longrightarrow> step s t \<Longrightarrow> inv t"
    and le_step: "inv s \<Longrightarrow> step s t \<Longrightarrow> le s t"
    and le_refl: "le s s"
    and le_trans: "le s t \<Longrightarrow> le t u \<Longrightarrow> le s u"
begin

lemma inv_steps: "step\<^sup>*\<^sup>* s t \<Longrightarrow> inv s \<Longrightarrow> inv t"
  by (induction rule: rtranclp_induct) (auto intro: inv_step)

lemma inv_reached: "step\<^sup>*\<^sup>* start t \<Longrightarrow> inv t"
  using inv_steps inv_start by blast

lemma le_steps: "step\<^sup>*\<^sup>* s t \<Longrightarrow> inv s \<Longrightarrow> le s t"
proof (induction rule: rtranclp_induct)
  case base
  show ?case by (rule le_refl)
next
  case (step t u)
  then show ?case using inv_steps le_step le_trans by blast
qed

lemma le_start: "step\<^sup>*\<^sup>* start t \<Longrightarrow> le start t"
  by (rule le_steps [OF _ inv_start])

end

lemma reachable_steps: "reachable X pol s \<longleftrightarrow> (kernel_step X pol)\<^sup>*\<^sup>* init_state s"
proof
  assume "reachable X pol s"
  then show "(kernel_step X pol)\<^sup>*\<^sup>* init_state s"
    by (induction rule: reachable.induct) (auto simp: kernel_step_def intro: rtranclp.rtrancl_into_rtrancl)
next
  assume "(kernel_step X pol)\<^sup>*\<^sup>* init_state s"
  then show "reachable X pol s"
    by (induction rule: rtranclp_induct) (auto simp: kernel_step_def intro: reachable.intros)
qed

section \<open>The invariant of the kernel\<close>

definition derivations_ok :: "kstate \<Rightarrow> bool" where
  "derivations_ok s \<longleftrightarrow>
     (\<forall>rid. length (filter (\<lambda>d. dv_run_id d = rid) (ks_derivations s)) = steps_of s rid) \<and>
     (\<forall>d \<in> set (ks_derivations s). \<forall>v \<in> set (dv_inputs d @ dv_outputs d). ref_in (stored s) v)"

definition kernel_inv :: "ext \<Rightarrow> artifact_store_policy \<Rightarrow> kstate \<Rightarrow> bool" where
  "kernel_inv X pol s \<longleftrightarrow> verify_chain X (ks_ledger s) \<and> blobs_ok X s \<and> artifacts_ok X pol s \<and>
     contracts_ok X s \<and> runs_inv s \<and> derivations_ok s"

text \<open>What a call may do to the state.\<close>

definition runs_le :: "kstate \<Rightarrow> kstate \<Rightarrow> bool" where
  "runs_le s s' \<longleftrightarrow> (\<forall>rid slot. ks_runs s rid = Some slot \<longrightarrow> (\<exists>slot'. ks_runs s' rid = Some slot' \<and> slot_le slot slot'))"

definition keeps :: "('k \<rightharpoonup> 'v) \<Rightarrow> ('k \<rightharpoonup> 'v) \<Rightarrow> bool" where
  "keeps m m' \<longleftrightarrow> (\<forall>k v. m k = Some v \<longrightarrow> m' k = Some v)"

definition modules_le :: "kstate \<Rightarrow> kstate \<Rightarrow> bool" where
  "modules_le s s' \<longleftrightarrow> length (ks_modules s) \<le> length (ks_modules s') \<and>
     (\<forall>i < length (ks_modules s). ms_manifest (ks_modules s' ! i) = ms_manifest (ks_modules s ! i) \<and>
        ms_lifecycle (ks_modules s ! i) \<le> ms_lifecycle (ks_modules s' ! i))"

definition kernel_le :: "ext \<Rightarrow> kstate \<Rightarrow> kstate \<Rightarrow> bool" where
  "kernel_le X s s' \<longleftrightarrow> ledger_grows X (ks_ledger s) (ks_ledger s') \<and>
     keeps (ks_artifacts s) (ks_artifacts s') \<and> keeps (ks_blobs s) (ks_blobs s') \<and>
     contracts_grow s s' \<and> modules_le s s' \<and>
     (\<exists>new. ks_derivations s' = ks_derivations s @ new) \<and> runs_le s s'"

section \<open>Every call keeps the invariant and follows the order\<close>

lemma ref_in_mono: "ref_in A v \<Longrightarrow> A \<subseteq> B \<Longrightarrow> ref_in B v"
  by (auto simp: ref_in_def)

lemma slot_inv_mono:
  assumes "slot_inv A rid slot" "A \<subseteq> B"
  shows "slot_inv B rid slot"
proof -
  have "slot_refs B slot"
    using slot_invD(12) [OF assms(1)] assms(2) unfolding slot_refs_def by (meson ref_in_mono subsetD)
  with assms(1) show ?thesis unfolding slot_inv_def by blast
qed

lemma run_frame_fields:
  assumes "run_frame s s'"
  shows "ks_modules s' = ks_modules s" "ks_capabilities s' = ks_capabilities s" "ks_contracts s' = ks_contracts s"
    "ks_artifacts s' = ks_artifacts s" "ks_blobs s' = ks_blobs s" "ks_subs s' = ks_subs s"
    "ks_event_seq s' = ks_event_seq s" "ks_channels s' = ks_channels s"
  using assms unfolding run_frame_def by (cases s; cases s'; simp)+

lemma keeps_refl [simp]: "keeps m m"
  by (simp add: keeps_def)

lemma keeps_trans: "keeps a b \<Longrightarrow> keeps b c \<Longrightarrow> keeps a c"
  by (simp add: keeps_def)

lemma keeps_dom: "keeps m m' \<Longrightarrow> dom m \<subseteq> dom m'"
  by (auto simp: keeps_def)

lemma modules_le_refl [simp]: "ks_modules s' = ks_modules s \<Longrightarrow> modules_le s s'"
  by (simp add: modules_le_def)

lemma modules_le_trans: "modules_le s t \<Longrightarrow> modules_le t u \<Longrightarrow> modules_le s u"
  unfolding modules_le_def by (auto intro: order_trans)

lemma runs_le_refl [simp]: "ks_runs s' = ks_runs s \<Longrightarrow> runs_le s s'"
  by (simp add: runs_le_def)

lemma runs_le_trans: "runs_le s t \<Longrightarrow> runs_le t u \<Longrightarrow> runs_le s u"
  unfolding runs_le_def by (meson slot_le_trans)

lemma kernel_le_refl [simp]: "kernel_le X s s"
  by (simp add: kernel_le_def)

lemma kernel_le_trans: "kernel_le X s t \<Longrightarrow> kernel_le X t u \<Longrightarrow> kernel_le X s u"
  unfolding kernel_le_def
  by (auto intro: ledger_grows_trans keeps_trans contracts_grow_trans modules_le_trans runs_le_trans)

lemma runs_rel_le: "runs_rel A s s' \<Longrightarrow> runs_le s s'"
  unfolding runs_rel_def runs_le_def using slot_steps_le by (fastforce split: option.splits)

definition good_step :: "ext \<Rightarrow> artifact_store_policy \<Rightarrow> kstate \<Rightarrow> kstate \<Rightarrow> bool" where
  "good_step X pol s s' \<longleftrightarrow> kernel_inv X pol s' \<and> kernel_le X s s'"

lemma good_step_refl [simp]: "kernel_inv X pol s \<Longrightarrow> good_step X pol s s"
  by (simp add: good_step_def)

lemma run_op_good:
  assumes "run_op X s s'" "kernel_inv X pol s"
  shows "good_step X pol s s'"
proof -
  have op: "run_frame s s'" "ledger_grows X (ks_ledger s) (ks_ledger s')" "runs_rel (stored s) s s'" "counted (stored s) s s'"
    using assms(1) by (simp_all add: run_op_def)
  note f = run_frame_fields [OF op(1)]
  have "runs_inv s'" using run_op_inv [OF assms(1)] assms(2) by (simp add: kernel_inv_def)
  moreover have "verify_chain X (ks_ledger s')" using ledger_grows_verify [OF op(2)] assms(2) by (simp add: kernel_inv_def)
  moreover have "blobs_ok X s'" "contracts_ok X s'" "artifacts_ok X pol s'"
    using assms(2) f by (simp_all add: kernel_inv_def blobs_ok_def contracts_ok_def artifacts_ok_def artifact_ok_def ref_resolves_def)
  moreover obtain new where new: "ks_derivations s' = ks_derivations s @ new"
      "\<forall>d \<in> set new. \<forall>v \<in> set (dv_inputs d @ dv_outputs d). ref_in (stored s) v"
      "\<forall>rid. steps_of s' rid = steps_of s rid + length (filter (\<lambda>d. dv_run_id d = rid) new)"
    using op(4) unfolding counted_def by blast
  then have "derivations_ok s'" using assms(2) by (auto simp: kernel_inv_def derivations_ok_def f)
  ultimately have "kernel_inv X pol s'" by (simp add: kernel_inv_def)
  moreover have "kernel_le X s s'" using op(2) f new(1) runs_rel_le [OF op(3)] by (simp add: kernel_le_def)
  ultimately show ?thesis by (simp add: good_step_def)
qed

lemma other_op_good:
  assumes "kernel_inv X pol s" "ks_runs s' = ks_runs s" "ks_derivations s' = ks_derivations s"
    and "ledger_grows X (ks_ledger s) (ks_ledger s')"
    and "keeps (ks_artifacts s) (ks_artifacts s')" "keeps (ks_blobs s) (ks_blobs s')"
    and "contracts_grow s s'" "modules_le s s'" "blobs_ok X s'" "artifacts_ok X pol s'" "contracts_ok X s'"
  shows "good_step X pol s s'"
proof -
  have sub: "stored s \<subseteq> stored s'" using assms(5) by (rule keeps_dom)
  have "runs_inv s'" using assms(1,2) slot_inv_mono [OF _ sub] by (simp add: kernel_inv_def runs_inv_def)
  moreover have "derivations_ok s'"
    using assms(1-3) ref_in_mono [OF _ sub] by (auto simp: kernel_inv_def derivations_ok_def steps_of_def)
  moreover have "verify_chain X (ks_ledger s')" using ledger_grows_verify [OF assms(4)] assms(1) by (simp add: kernel_inv_def)
  ultimately show ?thesis using assms by (simp add: good_step_def kernel_inv_def kernel_le_def)
qed

text \<open>A call that touches neither stores nor contracts nor modules nor runs.\<close>

lemma quiet_op_good:
  assumes "kernel_inv X pol s" "ks_runs s' = ks_runs s" "ks_derivations s' = ks_derivations s"
    and "ledger_grows X (ks_ledger s) (ks_ledger s')" "ks_artifacts s' = ks_artifacts s" "ks_blobs s' = ks_blobs s"
    and "ks_contracts s' = ks_contracts s" "ks_modules s' = ks_modules s"
  shows "good_step X pol s s'"
proof (rule other_op_good [OF assms(1-4)])
  show "blobs_ok X s'" "artifacts_ok X pol s'" "contracts_ok X s'"
    using assms by (simp_all add: kernel_inv_def blobs_ok_def contracts_ok_def artifacts_ok_def artifact_ok_def ref_resolves_def)
qed (use assms in simp_all)

lemma kernel_invD:
  assumes "kernel_inv X pol s"
  shows "verify_chain X (ks_ledger s)" "blobs_ok X s" "artifacts_ok X pol s" "contracts_ok X s" "runs_inv s" "derivations_ok s"
  using assms by (simp_all add: kernel_inv_def)

lemma put_blob_good:
  assumes "kernel_inv X pol s"
  shows "good_step X pol s (snd (put_blob X pol s req))"
  by (rule other_op_good [OF assms])
    (use kernel_invD [OF assms] in \<open>simp_all add: frame put_blob_ledger put_blob_ok put_blob_artifacts_ok
      contracts_ok_def keeps_def put_blob_keeps\<close>)

lemma put_artifact_good:
  assumes "kernel_inv X pol s"
  shows "good_step X pol s (snd (put_artifact_ctx X pol now s a ctx))"
  by (rule other_op_good [OF assms])
    (use kernel_invD [OF assms] in \<open>simp_all add: frame put_artifact_ledger put_artifact_ok
      contracts_ok_def blobs_ok_def keeps_def put_artifact_keeps\<close>)

lemma put_artifact_with_blob_good:
  assumes "kernel_inv X pol s"
  shows "good_step X pol s (snd (put_artifact_with_blob X pol now s c ns data who))"
proof -
  obtain r1 s1 where 1: "put_blob X pol s \<lparr>pbr_namespace = ns, pbr_data = data\<rparr> = (r1, s1)" by (metis surj_pair)
  have g1: "good_step X pol s s1" using put_blob_good [OF assms] 1 by (metis snd_conv)
  then have i1: "kernel_inv X pol s1" by (simp add: good_step_def)
  have g2: "good_step X pol s (snd (put_artifact X pol now s1 a))" for a
    using put_artifact_good [OF i1, of now a default_context] g1
    by (auto simp: put_artifact_def good_step_def intro: kernel_le_trans)
  show ?thesis
    using g1 g2 1 by (simp add: put_artifact_with_blob_def Let_def split: sum.split prod.split) (metis snd_conv)
qed

lemma put_contract_good:
  assumes "kernel_inv X pol s"
  shows "good_step X pol s (snd (put_contract X s c))"
  by (rule other_op_good [OF assms])
    (use kernel_invD [OF assms] in \<open>simp_all add: frame put_contract_ledger put_contract_ok put_contract_grow
      blobs_ok_def artifacts_ok_def artifact_ok_def ref_resolves_def\<close>)

lemma register_good:
  assumes "kernel_inv X pol s"
  shows "good_step X pol s (snd (register_ctx X s m ctx))"
  by (rule other_op_good [OF assms])
    (use kernel_invD [OF assms] in \<open>simp_all add: frame register_ledger register_contracts_ok register_contracts_grow
      modules_le_def register_modules nth_append blobs_ok_def artifacts_ok_def artifact_ok_def ref_resolves_def\<close>)

lemma transition_good:
  assumes "kernel_inv X pol s"
  shows "good_step X pol s (snd (transition_req X now s req ctx))"
proof (rule other_op_good [OF assms])
  show "modules_le s (snd (transition_req X now s req ctx))"
    unfolding modules_le_def
  proof (intro conjI allI impI)
    show "length (ks_modules s) \<le> length (ks_modules (snd (transition_req X now s req ctx)))"
      using transition_modules(1) [of 0 s X now req ctx] by (cases "ks_modules s") auto
    fix i assume i: "i < length (ks_modules s)"
    note t = transition_modules [OF i, of X now req ctx]
    show "ms_manifest (ks_modules (snd (transition_req X now s req ctx)) ! i) = ms_manifest (ks_modules s ! i)"
      by (rule t(2))
    show "ms_lifecycle (ks_modules s ! i) \<le> ms_lifecycle (ks_modules (snd (transition_req X now s req ctx)) ! i)"
      using t(3) by (auto simp: less_eq_lifecycle_def)
  qed
qed (use kernel_invD [OF assms] in \<open>simp_all add: frame transition_ledger contracts_ok_def blobs_ok_def
    artifacts_ok_def artifact_ok_def ref_resolves_def\<close>)

text \<open>Every call.\<close>

lemma respond_snd [simp]: "snd (respond f out) = snd out"
  by (simp add: respond_def split: prod.split sum.split)

lemma guarded_good:
  assumes "kernel_inv X pol s" "good_step X pol s (snd call)"
  shows "good_step X pol s (snd (guarded now ctx s call))"
  using assms by (simp add: guarded_def split: sum.split)

lemma kernel_call_good:
  assumes X: "documented X" and inv: "kernel_inv X pol s"
  shows "good_step X pol s (snd (kernel_call X pol now s opn))"
proof -
  have perm: "order_permutes X" and dig: "digest_32 X" using X by (simp_all add: documented_def)
  note ri = kernel_invD(5) [OF inv]
  show ?thesis
  proof (cases opn)
    case (OpStartRun req ctx)
    then show ?thesis using run_op_good [OF start_run_op [OF perm] inv] by simp
  next
    case (OpInjectInput req ctx)
    then show ?thesis using run_op_good [OF inject_input_op inv] by simp
  next
    case (OpClaimReady req ctx)
    then show ?thesis using run_op_good [OF claim_ready_op [OF perm dig ri] inv] inv by (simp add: guarded_good)
  next
    case (OpHeartbeat req ctx)
    then show ?thesis using run_op_good [OF heartbeat_op [OF perm ri] inv] inv by (simp add: guarded_good)
  next
    case (OpFailWork req ctx)
    then show ?thesis using run_op_good [OF fail_work_op [OF perm ri] inv] inv by (simp add: guarded_good)
  next
    case (OpCommit d ctx)
    then show ?thesis using run_op_good [OF commit_op [OF perm ri] inv] by simp
  next
    case (OpCancelRun rid ctx)
    then show ?thesis using run_op_good [OF cancel_run_op inv] inv by (simp add: guarded_good)
  next
    case (OpGetRun rid ctx)
    have "snd (get_run s rid) = s" by (simp add: get_run_def split: option.split)
    with OpGetRun inv show ?thesis by (simp add: guarded_good)
  next
    case (OpListDerivations rid ctx)
    have "snd (list_derivations s rid) = s" by (simp add: list_derivations_def)
    with OpListDerivations inv show ?thesis by (simp add: guarded_good)
  qed (use inv in \<open>simp_all add: guarded_good register_good transition_good put_artifact_good put_blob_good
      put_contract_good put_artifact_with_blob_good\<close>,
    (rule quiet_op_good [OF inv]; simp add: frame publish_ledger append_req_def log_entry_ledger ledger_grows.more
      subscribe_frame receiver_frame)+)
qed

lemma init_inv: "kernel_inv X pol init_state"
  by (simp add: kernel_inv_def init_state_def verify_chain_def blobs_ok_def artifacts_ok_def contracts_ok_def
      runs_inv_def derivations_ok_def steps_of_def)

interpretation km: machine init_state "kernel_step X pol" "\<lambda>s. documented X \<longrightarrow> kernel_inv X pol s"
  "\<lambda>s t. documented X \<longrightarrow> kernel_le X s t" for X pol
proof
  show "documented X \<longrightarrow> kernel_inv X pol init_state" by (simp add: init_inv)
  show "documented X \<longrightarrow> kernel_inv X pol t" if "documented X \<longrightarrow> kernel_inv X pol s" "kernel_step X pol s t" for s t
    using that kernel_call_good by (fastforce simp: kernel_step_def good_step_def)
  show "documented X \<longrightarrow> kernel_le X s t" if "documented X \<longrightarrow> kernel_inv X pol s" "kernel_step X pol s t" for s t
    using that kernel_call_good by (fastforce simp: kernel_step_def good_step_def)
  show "documented X \<longrightarrow> kernel_le X s s" for s by simp
  show "documented X \<longrightarrow> kernel_le X s u"
    if "documented X \<longrightarrow> kernel_le X s t" "documented X \<longrightarrow> kernel_le X t u" for s t u
    using that kernel_le_trans by blast
qed

lemma reachable_inv: "documented X \<Longrightarrow> reachable X pol s \<Longrightarrow> kernel_inv X pol s"
  using km.inv_reached [of X pol s] by (simp add: reachable_steps)

lemma reachable_le:
  assumes "documented X" "reachable X pol s" "(kernel_step X pol)\<^sup>*\<^sup>* s t"
  shows "kernel_le X s t"
  using km.le_steps [OF assms(3)] reachable_inv [OF assms(1,2)] assms(1) by blast

lemma reachable_slot:
  assumes "documented X" "reachable X pol s" "ks_runs s rid = Some slot"
  shows "slot_inv (stored s) rid slot"
  using kernel_invD(5) [OF reachable_inv [OF assms(1,2)]] assms(3) by (simp add: runs_inv_def)

text \<open>One call, from a reachable state.\<close>

lemma reachable_call_le:
  assumes "documented X" "reachable X pol s"
  shows "kernel_le X s (snd (kernel_call X pol now s opn))"
  using kernel_call_good [OF assms(1) reachable_inv [OF assms]] by (simp add: good_step_def)

section \<open>Run calls and the other calls\<close>

definition run_call :: "kernel_op \<Rightarrow> bool" where
  "run_call opn = (case opn of
     OpStartRun _ _ \<Rightarrow> True | OpInjectInput _ _ \<Rightarrow> True | OpClaimReady _ _ \<Rightarrow> True | OpHeartbeat _ _ \<Rightarrow> True
   | OpFailWork _ _ \<Rightarrow> True | OpCommit _ _ \<Rightarrow> True | OpCancelRun _ _ \<Rightarrow> True | _ \<Rightarrow> False)"

lemma guarded_run_op: "run_op X s (snd call) \<Longrightarrow> run_op X s (snd (guarded now ctx s call))"
  by (simp add: guarded_def split: sum.split)

lemma run_call_op:
  assumes "documented X" "kernel_inv X pol s" "run_call opn"
  shows "run_op X s (snd (kernel_call X pol now s opn))"
  using assms kernel_invD(5) [OF assms(2)]
  by (cases opn) (simp_all add: run_call_def documented_def start_run_op inject_input_op claim_ready_op
      heartbeat_op fail_work_op commit_op cancel_run_op guarded_run_op)

lemma guarded_same: "ks_runs (snd call) = ks_runs s \<Longrightarrow> ks_runs (snd (guarded now ctx s call)) = ks_runs s"
  by (simp add: guarded_def split: sum.split)

lemma other_call_runs:
  assumes "\<not> run_call opn"
  shows "ks_runs (snd (kernel_call X pol now s opn)) = ks_runs s"
proof (cases opn)
  case (OpGetRun rid ctx)
  then show ?thesis by (simp add: guarded_same get_run_def split: option.split)
next
  case (OpListDerivations rid ctx)
  then show ?thesis by (simp add: guarded_same list_derivations_def)
next
  case (OpPutArtifactWithBlob c ns data who)
  have "ks_runs (snd (put_artifact_with_blob X pol now s c ns data who)) = ks_runs s"
    using put_blob_frame(6) [of X pol s "\<lparr>pbr_namespace = ns, pbr_data = data\<rparr>"]
      put_artifact_frame(6) [of X pol now]
    by (auto simp: put_artifact_with_blob_def put_artifact_def Let_def split: sum.split prod.split) (metis snd_conv)+
  with OpPutArtifactWithBlob show ?thesis by simp
qed (use assms in \<open>simp_all add: run_call_def guarded_same frame append_req_def\<close>)

text \<open>The runs after a call, seen as steps of the machine of each run.\<close>

lemma kernel_call_runs_rel:
  assumes "documented X" "kernel_inv X pol s"
  shows "runs_rel (stored s) s (snd (kernel_call X pol now s opn))"
proof (cases "run_call opn")
  case True
  then show ?thesis using run_call_op [OF assms] by (simp add: run_op_def)
next
  case False
  then show ?thesis using runs_rel_cong [of "snd (kernel_call X pol now s opn)" s] by (simp add: other_call_runs)
qed

section \<open>Attempts and the event bus\<close>

definition attempts_ok :: "kstate \<Rightarrow> bool" where
  "attempts_ok s \<longleftrightarrow> (\<forall>rid slot. ks_runs s rid = Some slot \<longrightarrow> plain_nodes slot \<longrightarrow> attempts_inv slot)"

lemma fresh_attempts: "fresh_slot A rid slot \<Longrightarrow> attempts_inv slot"
  by (simp add: fresh_slot_def attempts_inv_def)

lemma plain_nodes_back: "slot_steps A rid slot slot' \<Longrightarrow> plain_nodes slot' \<Longrightarrow> plain_nodes slot"
  using slot_steps_le [of A rid slot slot'] slot_nodes_cong [of slot' slot] by (simp add: plain_nodes_def slot_le_def)

lemma kernel_call_attempts:
  assumes "documented X" "kernel_inv X pol s" "attempts_ok s"
  shows "attempts_ok (snd (kernel_call X pol now s opn))"
  unfolding attempts_ok_def
proof (intro allI impI)
  fix rid slot' assume s': "ks_runs (snd (kernel_call X pol now s opn)) rid = Some slot'" and plain: "plain_nodes slot'"
  note rel = kernel_call_runs_rel [OF assms(1,2), of now opn, unfolded runs_rel_def, rule_format, of rid]
  show "attempts_inv slot'"
  proof (cases "ks_runs s rid")
    case None
    with rel s' obtain slot0 where "fresh_slot (stored s) rid slot0" "slot_steps (stored s) rid slot0 slot'" by auto
    then show ?thesis using plain plain_nodes_back fresh_attempts slot_steps_attempts fresh_slot_def by blast
  next
    case (Some slot)
    with rel s' have st: "slot_steps (stored s) rid slot slot'" by auto
    have "slot_inv (stored s) rid slot" using Some kernel_invD(5) [OF assms(2)] by (simp add: runs_inv_def)
    moreover have "plain_nodes slot" using st plain by (rule plain_nodes_back)
    moreover from this have "attempts_inv slot" using assms(3) Some by (simp add: attempts_ok_def)
    ultimately show ?thesis using st slot_steps_attempts by blast
  qed
qed

lemma init_attempts: "attempts_ok init_state"
  by (simp add: attempts_ok_def init_state_def)

lemma init_bus: "bus_ok init_state"
  by (simp add: bus_ok_def init_state_def)

interpretation am: machine init_state "kernel_step X pol" "\<lambda>s. documented X \<longrightarrow> kernel_inv X pol s \<and> attempts_ok s"
  "\<lambda>s t. True" for X pol
proof
  show "documented X \<longrightarrow> kernel_inv X pol init_state \<and> attempts_ok init_state"
    by (simp add: init_inv init_attempts)
  show "documented X \<longrightarrow> kernel_inv X pol t \<and> attempts_ok t"
    if "documented X \<longrightarrow> kernel_inv X pol s \<and> attempts_ok s" "kernel_step X pol s t" for s t
    using that kernel_call_good kernel_call_attempts by (fastforce simp: kernel_step_def good_step_def)
qed simp_all

lemma reachable_attempts: "documented X \<Longrightarrow> reachable X pol s \<Longrightarrow> attempts_ok s"
  using am.inv_reached [of X pol s] by (simp add: reachable_steps)

text \<open>The calls made before the event counter, a u64, has wrapped.\<close>

definition unwrapped_step :: "ext \<Rightarrow> artifact_store_policy \<Rightarrow> kstate \<Rightarrow> kstate \<Rightarrow> bool" where
  "unwrapped_step X pol s t \<longleftrightarrow> kernel_step X pol s t \<and> ks_event_seq s \<noteq> - 1"

lemma guarded_bus: "bus_ok s \<Longrightarrow> bus_ok (snd call) \<Longrightarrow> bus_ok (snd (guarded now ctx s call))"
  by (simp add: guarded_def split: sum.split)

lemma kernel_call_bus:
  assumes "documented X" "kernel_inv X pol s" "bus_ok s" "ks_event_seq s \<noteq> - 1"
  shows "bus_ok (snd (kernel_call X pol now s opn))"
proof (cases "run_call opn")
  case True
  then have "run_frame s (snd (kernel_call X pol now s opn))" using run_call_op [OF assms(1,2)] by (simp add: run_op_def)
  then show ?thesis using assms(3) run_frame_fields by (simp add: bus_ok_def)
next
  case False
  show ?thesis
  proof (cases opn)
    case (OpPutArtifactWithBlob c ns data who)
    have blob: "bus_ok (snd (put_blob X pol s req))" for req using assms(3) by (simp add: bus_ok_def frame)
    have "bus_ok (snd (put_artifact X pol now t a))" if "bus_ok t" for t a
      using that by (simp add: put_artifact_def bus_ok_def frame)
    then have "bus_ok (snd (put_artifact_with_blob X pol now s c ns data who))"
      using blob [of "\<lparr>pbr_namespace = ns, pbr_data = data\<rparr>"]
      by (auto simp: put_artifact_with_blob_def Let_def split: sum.split prod.split) (metis snd_conv)+
    with OpPutArtifactWithBlob show ?thesis by simp
  next
    case (OpRegister m ctx)
    with assms(3) show ?thesis by (simp add: bus_ok_def frame)
  next
    case (OpTransition req ctx)
    with assms(3) show ?thesis by (simp add: bus_ok_def frame)
  next
    case (OpPutArtifact a ctx)
    with assms(3) show ?thesis by (simp add: bus_ok_def frame)
  next
    case (OpPutBlob req ctx)
    with assms(3) show ?thesis by (simp add: bus_ok_def frame)
  next
    case (OpPutContract c ctx)
    have "bus_ok (snd (put_contract X s c))" using assms(3) by (simp add: bus_ok_def frame)
    with OpPutContract assms(3) show ?thesis by (simp add: guarded_bus)
  next
    case (OpAppend req ctx)
    with assms(3) show ?thesis by (simp add: bus_ok_def frame append_req_def)
  next
    case (OpGetRun rid ctx)
    have "snd (get_run s rid) = s" by (simp add: get_run_def split: option.split)
    with OpGetRun assms(3) show ?thesis by (simp add: guarded_bus)
  next
    case (OpListDerivations rid ctx)
    have "snd (list_derivations s rid) = s" by (simp add: list_derivations_def)
    with OpListDerivations assms(3) show ?thesis by (simp add: guarded_bus)
  qed (use assms False in \<open>simp_all add: run_call_def guarded_bus publish_bus_ok subscribe_bus_ok try_recv_bus_ok
      drop_receiver_bus_ok\<close>)
qed

interpretation bm: machine init_state "unwrapped_step X pol" "\<lambda>s. documented X \<longrightarrow> kernel_inv X pol s \<and> bus_ok s"
  "\<lambda>s t. True" for X pol
proof
  show "documented X \<longrightarrow> kernel_inv X pol init_state \<and> bus_ok init_state"
    by (simp add: init_inv init_bus)
  show "documented X \<longrightarrow> kernel_inv X pol t \<and> bus_ok t"
    if "documented X \<longrightarrow> kernel_inv X pol s \<and> bus_ok s" "unwrapped_step X pol s t" for s t
    using that kernel_call_good kernel_call_bus by (fastforce simp: unwrapped_step_def kernel_step_def good_step_def)
qed simp_all

lemma unwrapped_bus:
  "documented X \<Longrightarrow> (unwrapped_step X pol)\<^sup>*\<^sup>* init_state s \<Longrightarrow> bus_ok s"
  using bm.inv_reached [of X pol s] by simp

end
