(* ===== verification/Host.thy ===== *)
theory Host
  imports Cut Presentation Kernel
begin

text \<open>
  The framework host (\<open>framework/sdk/rust/src/lib.rs\<close>) over the kernel of this development: the
  plugin surface, the state of the host, and its operations. An operation takes the host and returns
  its result with the new host, so that an error leaves behind what was done before it, as the
  source does with \<open>?\<close>.

  What the host calls outside the repository is in the record \<open>host_env\<close>: the code the kernel
  calls, the wall clock, the equality of JSON values and the JSON encodings of \<open>serde_json\<close>. The
  plugins are the caller's code: a plugin is a record of functions. A plugin may keep state behind a
  lock, so each of its functions also takes the number of the call; the same number picks the
  reading of the clock. A panic of a plugin is not modelled.
\<close>

section \<open>Plugin surface\<close>

record port_body =
  pb_port :: string
  pb_traits :: "(string \<times> bytes) list"
  pb_entity_id :: string

definition port_with_trait :: "string \<Rightarrow> string \<Rightarrow> bytes \<Rightarrow> port_body" where
  "port_with_trait port c body = \<lparr>pb_port = port, pb_traits = bt_insert c body [], pb_entity_id = []\<rparr>"

definition port_with_traits :: "string \<Rightarrow> (string \<times> bytes) list \<Rightarrow> port_body" where
  "port_with_traits port pairs = \<lparr>pb_port = port, pb_traits = bt_of pairs, pb_entity_id = []\<rparr>"

definition port_with_entity_id :: "string \<Rightarrow> port_body \<Rightarrow> port_body" where
  "port_with_entity_id i p = p\<lparr>pb_entity_id := i\<rparr>"

record step_context =
  sx_run_id :: string
  sx_work :: work_item
  sx_inputs :: "string \<rightharpoonup> artifact"
  sx_progress :: "presentation list"

definition emit_progress :: "presentation \<Rightarrow> step_context \<Rightarrow> step_context" where
  "emit_progress p step =
     (let p = p\<lparr>pr_stage := StageProgress\<rparr>;
          p = (if pr_status p = StatusPending then p\<lparr>pr_status := StatusRunning\<rparr> else p);
          p = fill_identity (sx_run_id step) (sx_work step) p
      in step\<lparr>sx_progress := sx_progress step @ [p]\<rparr>)"

definition progress_count :: "step_context \<Rightarrow> nat" where
  "progress_count step = length (sx_progress step)"

definition take_progress :: "step_context \<Rightarrow> presentation list \<times> step_context" where
  "take_progress step = (sx_progress step, step\<lparr>sx_progress := []\<rparr>)"

record plugin =
  pl_manifest :: module_manifest
  pl_module_digest :: "nat \<Rightarrow> string option"
  pl_execute :: "nat \<Rightarrow> step_context \<Rightarrow> (framework_error + port_body list) \<times> step_context"
  pl_on_init :: "nat \<Rightarrow> step_context \<Rightarrow> presentation option"
  pl_on_final :: "nat \<Rightarrow> step_context \<Rightarrow> step_result \<Rightarrow> presentation option"
  pl_storage_schema :: "table_schema option"
  pl_on_store :: "nat \<Rightarrow> step_context \<Rightarrow> step_result \<Rightarrow> store_write option"

text \<open>The provided methods of the trait, over the legacy hooks.\<close>

definition default_on_init :: "(work_item \<Rightarrow> processing_view option) \<Rightarrow> step_context \<Rightarrow> presentation option" where
  "default_on_init processing_ui step = map_option from_processing_view (processing_ui (sx_work step))"

definition default_on_final ::
  "(work_item \<Rightarrow> named_artifact list \<Rightarrow> result_view option) \<Rightarrow> step_context \<Rightarrow> step_result \<Rightarrow> presentation option" where
  "default_on_final result_ui step result =
     (if sr_ok result then map_option from_result_view (result_ui (sx_work step) (sr_outputs result)) else None)"

section \<open>The host\<close>

datatype ui_persist = LocalOnly | Artifacts

record host =
  h_kernel :: kstate
  h_plugins :: "(string \<times> plugin) list"
  h_ctx :: request_context
  h_ui_persist :: ui_persist
  h_step_events :: "step_event list"
  h_run_policies :: "string \<rightharpoonup> framework_policy"
  h_storage :: "memory_storage option"
  h_storage_schemas :: "(string \<times> table_schema) list"
  h_run_tables :: "string \<rightharpoonup> string list"
  h_memo :: "memory_memo option"
  h_execute_count :: u64
  h_memo_hit_count :: u64
  h_tick :: nat

record host_env =
  he_ext :: ext
  he_pol :: artifact_store_policy
  he_clock :: "nat \<Rightarrow> int"
  he_json_eq :: "json \<Rightarrow> json \<Rightarrow> bool"
  he_ports_json :: "string list \<Rightarrow> json"
  he_ui_json :: "presentation \<Rightarrow> string + bytes"

type_synonym 'a hres = "(framework_error + 'a) \<times> host"

definition new_host :: "kstate \<Rightarrow> host" where
  "new_host k =
     \<lparr>h_kernel = k, h_plugins = [], h_ctx = default_context\<lparr>cx_caller := ''srcport-framework''\<rparr>,
      h_ui_persist = LocalOnly, h_step_events = [], h_run_policies = Map.empty, h_storage = None,
      h_storage_schemas = [], h_run_tables = Map.empty, h_memo = None, h_execute_count = 0,
      h_memo_hit_count = 0, h_tick = 0\<rparr>"

definition host_with_context :: "request_context \<Rightarrow> host \<Rightarrow> host" where
  "host_with_context ctx h = h\<lparr>h_ctx := ctx\<rparr>"

definition host_with_ui_persist :: "ui_persist \<Rightarrow> host \<Rightarrow> host" where
  "host_with_ui_persist mode h = h\<lparr>h_ui_persist := mode\<rparr>"

definition host_with_storage :: "memory_storage \<Rightarrow> host \<Rightarrow> host" where
  "host_with_storage b h = h\<lparr>h_storage := Some b\<rparr>"

definition host_with_memo :: "memory_memo \<Rightarrow> host \<Rightarrow> host" where
  "host_with_memo m h = h\<lparr>h_memo := Some m\<rparr>"

definition take_step_events :: "host \<Rightarrow> step_event list \<times> host" where
  "take_step_events h = (h_step_events h, h\<lparr>h_step_events := []\<rparr>)"

section \<open>Sequencing\<close>

text \<open>\<open>?\<close>: go on with the value, or return the error with the host as it is.\<close>

definition hbind :: "'a hres \<Rightarrow> ('a \<Rightarrow> host \<Rightarrow> 'b hres) \<Rightarrow> 'b hres" where
  "hbind r f = (case r of (Inl e, h) \<Rightarrow> (Inl e, h) | (Inr v, h) \<Rightarrow> f v h)"

fun hmap :: "('a \<Rightarrow> host \<Rightarrow> 'b hres) \<Rightarrow> 'a list \<Rightarrow> host \<Rightarrow> 'b list hres" where
  "hmap f [] h = (Inr [], h)"
| "hmap f (x # xs) h = hbind (f x h) (\<lambda>y h. hbind (hmap f xs h) (\<lambda>ys h. (Inr (y # ys), h)))"

definition hstep :: "host \<Rightarrow> host" where
  "hstep h = h\<lparr>h_tick := Suc (h_tick h)\<rparr>"

text \<open>One call of the kernel, at the time of the clock.\<close>

definition kapi :: "host_env \<Rightarrow> host \<Rightarrow> kernel_op \<Rightarrow> (response \<Rightarrow> 'a) \<Rightarrow> 'a hres" where
  "kapi V h opn get =
     (case kernel_call (he_ext V) (he_pol V) (he_clock V (h_tick h)) (h_kernel h) opn of
        (r, k) \<Rightarrow> (case r of RError e \<Rightarrow> Inl (KernelErr e) | _ \<Rightarrow> Inr (get r),
                   (hstep h)\<lparr>h_kernel := k\<rparr>))"

definition as_run :: "response \<Rightarrow> run" where "as_run r = (case r of RRun x \<Rightarrow> x)"
definition as_ref :: "response \<Rightarrow> artifact_ref" where "as_ref r = (case r of RArtifactRef x \<Rightarrow> x)"
definition as_artifact :: "response \<Rightarrow> artifact" where "as_artifact r = (case r of RArtifact x \<Rightarrow> x)"
definition as_items :: "response \<Rightarrow> work_item list" where "as_items r = (case r of RItems x \<Rightarrow> x)"
definition as_derivations :: "response \<Rightarrow> derivation list" where "as_derivations r = (case r of RDerivations x \<Rightarrow> x)"

section \<open>Plugins and presentations\<close>

definition register_plugin :: "host_env \<Rightarrow> host \<Rightarrow> plugin \<Rightarrow> unit hres" where
  "register_plugin V h p =
     (let name = mm_name (pl_manifest p) in
      if name = [] then (Inl (InvalidUse ''plugin manifest.name must be non-empty''), h)
      else if map_of (h_plugins h) name \<noteq> None
      then (Inl (InvalidUse (''plugin already registered: '' @ name)), h)
      else if (case pl_storage_schema p of None \<Rightarrow> False | Some schema \<Rightarrow> ts_name schema = [])
      then (Inl (InvalidUse (''plugin '' @ name @ '' storage_schema.name must be non-empty'')), h)
      else let h = (case pl_storage_schema p of None \<Rightarrow> h
                    | Some schema \<Rightarrow> h\<lparr>h_storage_schemas := AList.update name schema (h_storage_schemas h)\<rparr>);
               h = snd (kapi V h (OpRegister (pl_manifest p) (h_ctx h)) (\<lambda>_. ()))
           in (Inr (), h\<lparr>h_plugins := AList.update name p (h_plugins h)\<rparr>))"

definition maybe_put_ui :: "host_env \<Rightarrow> host \<Rightarrow> string \<Rightarrow> string \<Rightarrow> presentation \<Rightarrow> string hres" where
  "maybe_put_ui V h module contract view =
     (if h_ui_persist h \<noteq> Artifacts then (Inr [], h)
      else case he_ui_json V view of
        Inl e \<Rightarrow> (Inl (InvalidUse (''serialize presentation: '' @ e)), h)
      | Inr body \<Rightarrow>
          hbind (kapi V h (OpPutArtifact ((artifact_with_trait contract body)\<lparr>art_produced_by := module\<rparr>) (h_ctx h)) as_ref)
            (\<lambda>r h. (Inr (aref_id r), h)))"

definition emit_presentation :: "host_env \<Rightarrow> string \<Rightarrow> presentation \<Rightarrow> host \<Rightarrow> unit hres" where
  "emit_presentation V module p h =
     hbind (maybe_put_ui V h module (contract_ref (pr_stage p)) p)
       (\<lambda>artifact_id h. (Inr (), h\<lparr>h_step_events := h_step_events h @
          [\<lparr>se_stage = pr_stage p, se_presentation = p, se_artifact_id = artifact_id\<rparr>]\<rparr>))"

definition emit_all :: "host_env \<Rightarrow> string \<Rightarrow> presentation list \<Rightarrow> host \<Rightarrow> unit hres" where
  "emit_all V module ps h = hbind (hmap (emit_presentation V module) ps h) (\<lambda>_ h. (Inr (), h))"

text \<open>The presentation of a node that a cut skips.\<close>

definition skip_presentation :: "string \<Rightarrow> assembly_cut \<Rightarrow> skipped_node \<Rightarrow> presentation" where
  "skip_presentation rid ac sk =
     (let seeds = filter (\<lambda>sd. ss_from_node sd = sk_node_id sk) (ac_required_seeds ac);
          detail = (if seeds \<noteq> []
                    then ''skipped (seeded ports: '' @ join_with '', '' (map ss_from_port seeds) @ ''); cut from run''
                    else ''skipped (no outputs required by kept nodes)'');
          p = skipped (''Skip '' @ sk_node_id sk) detail
      in p\<lparr>pr_run_id := rid, pr_node_id := sk_node_id sk, pr_module := sk_module sk,
           pr_capability := sk_capability sk,
           pr_meta := fold (\<lambda>sd m. bt_insert (''seed:'' @ ss_from_port sd) (ss_input_name sd) m) seeds
                        (bt_insert ''cut'' ''true'' (pr_meta p))\<rparr>)"

definition emit_skip_events :: "host_env \<Rightarrow> string \<Rightarrow> assembly_cut \<Rightarrow> host \<Rightarrow> unit hres" where
  "emit_skip_events V rid ac h =
     hbind (hmap (\<lambda>sk. emit_presentation V (sk_module sk) (skip_presentation rid ac sk)) (ac_skipped ac) h)
       (\<lambda>_ h. (Inr (), h))"

end
