(* ===== verification/Drive.thy ===== *)
theory Drive
  imports Host
begin

text \<open>
  The work of the framework host (\<open>framework/sdk/rust/src/lib.rs\<close>): the storage of a run, the
  memo, one unit of work from its claim to its commit, the claim waves, and the loop that drives a
  run. The loop may go on for ever, so driving returns an option: \<open>None\<close> is not returning.
\<close>

section \<open>Storage of a run\<close>

definition run_plan :: "host \<Rightarrow> string \<Rightarrow> storage_plan option" where
  "run_plan h rid = map_option fp_storage (h_run_policies h rid)"

text \<open>The tables of a run, in the order in which they are ensured.\<close>

definition run_tables :: "host_env \<Rightarrow> host \<Rightarrow> string \<Rightarrow> storage_plan \<Rightarrow> qualified_table list" where
  "run_tables V h rid plan =
     (if module_tables plan
      then map (\<lambda>m. qualify_table (sp_mode plan) rid m (the (map_of (h_storage_schemas h) m)))
             (hash_order (he_ext V) (map fst (h_storage_schemas h)))
      else []) @
     (if sp_step_log plan then [step_log_qualified (sp_mode plan) rid] else [])"

definition ensure_run_storage :: "host_env \<Rightarrow> string \<Rightarrow> framework_policy \<Rightarrow> host \<Rightarrow> unit hres" where
  "ensure_run_storage V rid policy h =
     (if \<not> storage_enabled (fp_storage policy) then (Inr (), h)
      else case h_storage h of
        None \<Rightarrow> (Inl (InvalidUse ''storage enabled without backend''), h)
      | Some backend \<Rightarrow>
          (case ensure_all ensure_table backend (run_tables V h rid (fp_storage policy)) of
             (Inl e, backend) \<Rightarrow> (Inl e, h\<lparr>h_storage := Some backend\<rparr>)
           | (Inr physical, backend) \<Rightarrow>
               (Inr (), h\<lparr>h_storage := Some backend,
                  h_run_tables := (if physical = [] then h_run_tables h
                                   else (h_run_tables h)(rid \<mapsto> physical))\<rparr>)))"

text \<open>The rows a module wants to store after a step.\<close>

definition store_module_rows ::
  "host_env \<Rightarrow> string \<Rightarrow> string \<Rightarrow> framework_policy \<Rightarrow> step_context \<Rightarrow> step_result \<Rightarrow> host \<Rightarrow> unit hres" where
  "store_module_rows V rid module policy step result h =
     (case map_of (h_storage_schemas h) module of
        None \<Rightarrow> (Inr (), h)
      | Some schema \<Rightarrow>
          (case map_of (h_plugins h) module of
             None \<Rightarrow> (Inl (NoPlugin module), h)
           | Some p \<Rightarrow>
               (case pl_on_store p (h_tick h) step result of
                  None \<Rightarrow> (Inr (), hstep h)
                | Some w \<Rightarrow>
                    if sw_rows w = [] then (Inr (), hstep h)
                    else let mode = unwrap_or (sw_mode w) (ts_write_mode schema);
                             q = qualify_table (sp_mode (fp_storage policy)) rid module schema;
                             rows = map (inject_identity rid (wi_id (sx_work step)) (wi_node_id (sx_work step)) module)
                                      (sw_rows w)
                         in case h_storage h of
                              None \<Rightarrow> (Inl (InvalidUse ''storage missing at write''), hstep h)
                            | Some backend \<Rightarrow>
                                (case write_rows (he_json_eq V) backend (qt_physical_name q) mode rows
                                        (ts_primary_key schema) rid of
                                   Inl e \<Rightarrow> (Inl e, hstep h)
                                 | Inr backend \<Rightarrow> (Inr (), (hstep h)\<lparr>h_storage := Some backend\<rparr>)))))"

definition step_log_row :: "host_env \<Rightarrow> string \<Rightarrow> string \<Rightarrow> step_context \<Rightarrow> step_result \<Rightarrow> store_row" where
  "step_log_row V rid module step result =
     store_row ([(''run_id'', TextVal rid), (''work_id'', TextVal (wi_id (sx_work step))),
        (''node_id'', TextVal (wi_node_id (sx_work step))), (''module'', TextVal module),
        (''capability'', TextVal (wi_capability (sx_work step))), (''ok'', BooleanVal (sr_ok result))] @
       (case sr_error result of None \<Rightarrow> [] | Some err \<Rightarrow> [(''error'', TextVal err)]) @
       [(''output_ports'', JsonVal (he_ports_json V (map na_name (sr_outputs result))))])"

definition store_step_log ::
  "host_env \<Rightarrow> string \<Rightarrow> string \<Rightarrow> framework_policy \<Rightarrow> step_context \<Rightarrow> step_result \<Rightarrow> host \<Rightarrow> unit hres" where
  "store_step_log V rid module policy step result h =
     (case h_storage h of
        None \<Rightarrow> (Inl (InvalidUse ''storage missing at step_log write''), h)
      | Some backend \<Rightarrow>
          (let q = step_log_qualified (sp_mode (fp_storage policy)) rid in
           case ensure_table backend q of
             Inl e \<Rightarrow> (Inl e, h)
           | Inr backend \<Rightarrow>
               (case write_rows (he_json_eq V) backend (qt_physical_name q) AppendRows
                       [step_log_row V rid module step result] [] rid of
                  Inl e \<Rightarrow> (Inl e, h\<lparr>h_storage := Some backend\<rparr>)
                | Inr backend \<Rightarrow> (Inr (), h\<lparr>h_storage := Some backend\<rparr>))))"

definition apply_step_storage ::
  "host_env \<Rightarrow> string \<Rightarrow> string \<Rightarrow> step_context \<Rightarrow> step_result \<Rightarrow> host \<Rightarrow> unit hres" where
  "apply_step_storage V rid module step result h =
     (case h_run_policies h rid of
        None \<Rightarrow> (Inr (), h)
      | Some policy \<Rightarrow>
          if \<not> storage_enabled (fp_storage policy) then (Inr (), h)
          else hbind (if module_tables (fp_storage policy)
                      then store_module_rows V rid module policy step result h else (Inr (), h))
                 (\<lambda>_ h. if sp_step_log (fp_storage policy) then store_step_log V rid module policy step result h
                        else (Inr (), h)))"

text \<open>The tables of the run are dropped only under \<open>PerRun\<close> with \<open>DropOnEnd\<close>.\<close>

definition drops_tables :: "host \<Rightarrow> string \<Rightarrow> bool" where
  "drops_tables h rid =
     (case run_plan h rid of None \<Rightarrow> False | Some plan \<Rightarrow> sp_retention plan = DropOnEnd \<and> sp_mode plan = PerRun)"

definition finish_run_storage :: "string \<Rightarrow> host \<Rightarrow> host" where
  "finish_run_storage rid h =
     h\<lparr>h_storage := (if drops_tables h rid
                     then (case h_run_tables h rid of None \<Rightarrow> h_storage h
                           | Some tables \<Rightarrow> map_option (\<lambda>b. fold (\<lambda>t b. drop_table b t) tables b) (h_storage h))
                     else h_storage h),
       h_run_tables := (h_run_tables h)(rid := None),
       h_run_policies := (h_run_policies h)(rid := None)\<rparr>"


section \<open>Memo\<close>

text \<open>The digest of a module, read on each claim; an empty one makes the unit uncacheable.\<close>

definition module_digest_of :: "host \<Rightarrow> string \<Rightarrow> string option" where
  "module_digest_of h module =
     Option.bind (Option.bind (map_of (h_plugins h) module) (\<lambda>p. pl_module_digest p (h_tick h)))
       (\<lambda>d. if d = [] then None else Some d)"

definition work_memo_key :: "host_env \<Rightarrow> string \<Rightarrow> work_item \<Rightarrow> string \<Rightarrow> string" where
  "work_memo_key V module work digest =
     memo_key (he_ext V) module (wi_module_version work) digest (wi_capability work) (input_fingerprint_map work)"

definition memo_applies :: "host \<Rightarrow> string \<Rightarrow> string \<Rightarrow> bool" where
  "memo_applies h rid node_id =
     (case h_run_policies h rid of None \<Rightarrow> False
      | Some policy \<Rightarrow> mp_enabled (fp_memo policy) \<and> allows (mp_nodes (fp_memo policy)) node_id)"

text \<open>Every output of a record is still in the kernel.\<close>

fun all_stored :: "host_env \<Rightarrow> named_artifact list \<Rightarrow> host \<Rightarrow> bool \<times> host" where
  "all_stored V [] h = (True, h)"
| "all_stored V (na # nas) h =
     (case na_artifact na of
        None \<Rightarrow> (False, h)
      | Some r \<Rightarrow>
          (case kapi V h (OpGetArtifact r (h_ctx h)) as_artifact of
             (Inl _, h) \<Rightarrow> (False, h)
           | (Inr _, h) \<Rightarrow> all_stored V nas h))"

definition try_memo_hit ::
  "host_env \<Rightarrow> string \<Rightarrow> string \<Rightarrow> work_item \<Rightarrow> host \<Rightarrow> (string \<times> named_artifact list \<times> string) option hres" where
  "try_memo_hit V rid module work h =
     (if \<not> memo_applies h rid (wi_node_id work) then (Inr None, h)
      else case module_digest_of h module of
        None \<Rightarrow> (Inr None, hstep h)
      | Some digest \<Rightarrow>
          (case h_memo h of
             None \<Rightarrow> (Inr None, hstep h)
           | Some store \<Rightarrow>
               (let key = work_memo_key V module work digest in
                case memo_get store key of
                  None \<Rightarrow> (Inr None, hstep h)
                | Some record \<Rightarrow>
                    (let named = record_to_named_outputs record in
                     case all_stored V named (hstep h) of
                       (stored_all, h1) \<Rightarrow>
                         if \<not> stored_all \<or> named = [] \<and> mr_outputs record \<noteq> [] then (Inr None, h1)
                         else (Inr (Some (key, named, mr_source_run_id record)), h1)))))"

definition store_memo_after_success ::
  "host_env \<Rightarrow> string \<Rightarrow> string \<Rightarrow> work_item \<Rightarrow> named_artifact list \<Rightarrow> host \<Rightarrow> unit hres" where
  "store_memo_after_success V rid module work outputs h =
     (if \<not> memo_applies h rid (wi_node_id work) then (Inr (), h)
      else case module_digest_of h module of
        None \<Rightarrow> (Inr (), hstep h)
      | Some digest \<Rightarrow>
          (case h_memo h of
             None \<Rightarrow> (Inr (), hstep h)
           | Some store \<Rightarrow>
               (Inr (), (hstep h)\<lparr>h_memo := Some (memo_put store
                  (build_record (work_memo_key V module work digest) work digest outputs rid))\<rparr>)))"

section \<open>Committing and failing a step\<close>

definition submitted :: "string \<Rightarrow> work_item \<Rightarrow> named_artifact list \<Rightarrow> derivation" where
  "submitted rid work outputs =
     \<lparr>dv_id = [], dv_run_id = rid, dv_work_id = wi_id work, dv_node_id = wi_node_id work, dv_module = [],
      dv_module_version = [], dv_capability = [], dv_inputs = [], dv_outputs = outputs\<rparr>"

definition port_artifact :: "string \<Rightarrow> port_body \<Rightarrow> artifact" where
  "port_artifact module out =
     \<lparr>art_id = [], art_meta = [], art_produced_by = module,
      art_traits = bt_of (map (\<lambda>(c, body). (c, \<lparr>tr_body = body, tr_object = None\<rparr>)) (pb_traits out)),
      art_entity_id = pb_entity_id out, art_supersedes = []\<rparr>"

definition named_ref :: "string \<Rightarrow> artifact_ref \<Rightarrow> named_artifact" where
  "named_ref name r = \<lparr>na_name = name, na_artifact = Some r\<rparr>"

definition put_output :: "host_env \<Rightarrow> string \<Rightarrow> port_body \<Rightarrow> host \<Rightarrow> named_artifact hres" where
  "put_output V module out h =
     hbind (kapi V h (OpPutArtifact (port_artifact module out) (h_ctx h)) as_ref)
       (\<lambda>r h. (Inr (named_ref (pb_port out) r), h))"

definition final_identity :: "string \<Rightarrow> work_item \<Rightarrow> string list \<Rightarrow> presentation \<Rightarrow> presentation" where
  "final_identity rid work ports p =
     (let p = fill_identity rid work (p\<lparr>pr_stage := StageFinal\<rparr>)
      in if pr_output_ports p = [] then p\<lparr>pr_output_ports := ports\<rparr> else p)"

definition emit_final :: "host_env \<Rightarrow> string \<Rightarrow> string \<Rightarrow> work_item \<Rightarrow> step_context \<Rightarrow> step_result \<Rightarrow> host \<Rightarrow> unit hres" where
  "emit_final V rid module work step result h =
     (case map_of (h_plugins h) module of
        None \<Rightarrow> (Inl (NoPlugin module), h)
      | Some p \<Rightarrow>
          (case pl_on_final p (h_tick h) step result of
             None \<Rightarrow> (Inr (), hstep h)
           | Some view \<Rightarrow>
               emit_presentation V module (final_identity rid work (map na_name (sr_outputs result)) view) (hstep h)))"

definition commit_step_success ::
  "host_env \<Rightarrow> string \<Rightarrow> string \<Rightarrow> work_item \<Rightarrow> step_context \<Rightarrow> port_body list \<Rightarrow> host \<Rightarrow> unit hres" where
  "commit_step_success V rid module work step outs h =
     hbind (hmap (put_output V module) outs h) (\<lambda>outputs h.
     let result = \<lparr>sr_ok = True, sr_outputs = outputs, sr_error = None\<rparr> in
     hbind (emit_final V rid module work step result h) (\<lambda>_ h.
     hbind (kapi V h (OpCommit (submitted rid work outputs) (h_ctx h)) as_run) (\<lambda>_ h.
     hbind (store_memo_after_success V rid module work outputs h) (\<lambda>_ h.
     apply_step_storage V rid module step result h))))"

text \<open>The errors of the presentation, the storage and \<open>FailWork\<close> are dropped.\<close>

definition fail_step ::
  "host_env \<Rightarrow> string \<Rightarrow> string \<Rightarrow> work_item \<Rightarrow> step_context \<Rightarrow> framework_error \<Rightarrow> host \<Rightarrow> unit hres" where
  "fail_step V rid module work step e h =
     (let msg = framework_error_to_string e;
          result = \<lparr>sr_ok = False, sr_outputs = [], sr_error = Some msg\<rparr>
      in case map_of (h_plugins h) module of
           None \<Rightarrow> (Inl (NoPlugin module), h)
         | Some p \<Rightarrow>
             (let view = (case pl_on_final p (h_tick h) step result of
                            None \<Rightarrow> final_failed ''Step failed'' msg | Some v \<Rightarrow> v);
                  view = fill_identity rid work (view\<lparr>pr_stage := StageFinal, pr_status := StatusFailed\<rparr>);
                  h = snd (emit_presentation V module view (hstep h));
                  h = snd (apply_step_storage V rid module step result h);
                  h = snd (kapi V h (OpFailWork \<lparr>fwr_run_id = rid, fwr_work_id = wi_id work, fwr_reason = msg,
                        fwr_terminal = False\<rparr> (h_ctx h)) as_run)
              in (Inl (StepFailed msg), h)))"

definition cached_presentation ::
  "string \<Rightarrow> work_item \<Rightarrow> string \<Rightarrow> named_artifact list \<Rightarrow> string \<Rightarrow> presentation" where
  "cached_presentation rid work key outputs source_run =
     (let p = fill_identity rid work (cached (''Cached '' @ wi_node_id work) (''memo hit; outputs from run '' @ source_run))
      in p\<lparr>pr_output_ports := map na_name outputs,
           pr_meta := bt_insert ''memo_source_run'' source_run (bt_insert ''memo_key'' key
                        (bt_insert ''memo'' ''hit'' (pr_meta p)))\<rparr>)"

definition commit_memo_hit ::
  "host_env \<Rightarrow> string \<Rightarrow> string \<Rightarrow> work_item \<Rightarrow> step_context \<Rightarrow> string \<Rightarrow> named_artifact list \<Rightarrow> string \<Rightarrow>
   host \<Rightarrow> bool hres" where
  "commit_memo_hit V rid module work step key outputs source_run h =
     hbind (emit_presentation V module (cached_presentation rid work key outputs source_run) h) (\<lambda>_ h.
     hbind (kapi V h (OpCommit (submitted rid work outputs) (h_ctx h)) as_run) (\<lambda>_ h.
     hbind (apply_step_storage V rid module step \<lparr>sr_ok = True, sr_outputs = outputs, sr_error = None\<rparr>
              (h\<lparr>h_memo_hit_count := u64_saturating_add (h_memo_hit_count h) 1\<rparr>)) (\<lambda>_ h.
     (Inr True, h))))"


section \<open>One unit of work\<close>

fun load_inputs :: "host_env \<Rightarrow> named_artifact list \<Rightarrow> (string \<rightharpoonup> artifact) \<Rightarrow> host \<Rightarrow> (string \<rightharpoonup> artifact) hres" where
  "load_inputs V [] inputs h = (Inr inputs, h)"
| "load_inputs V (na # nas) inputs h =
     (case na_artifact na of
        None \<Rightarrow> load_inputs V nas inputs h
      | Some r \<Rightarrow> hbind (kapi V h (OpGetArtifact r (h_ctx h)) as_artifact)
          (\<lambda>art h. load_inputs V nas (inputs(na_name na \<mapsto> art)) h))"

definition load_step :: "host_env \<Rightarrow> string \<Rightarrow> work_item \<Rightarrow> host \<Rightarrow> step_context hres" where
  "load_step V rid work h =
     hbind (load_inputs V (wi_inputs work) Map.empty h)
       (\<lambda>inputs h. (Inr \<lparr>sx_run_id = rid, sx_work = work, sx_inputs = inputs, sx_progress = []\<rparr>, h))"

definition emit_init :: "host_env \<Rightarrow> string \<Rightarrow> work_item \<Rightarrow> presentation option \<Rightarrow> host \<Rightarrow> unit hres" where
  "emit_init V rid work view h =
     (case view of None \<Rightarrow> (Inr (), h)
      | Some p \<Rightarrow> emit_presentation V (wi_module work) (fill_identity rid work (p\<lparr>pr_stage := StageInit\<rparr>)) h)"

text \<open>What follows the run of a plugin: its progress, then the commit or the failure.\<close>

definition settle_step ::
  "host_env \<Rightarrow> string \<Rightarrow> work_item \<Rightarrow> step_context \<Rightarrow> presentation list \<Rightarrow> framework_error + port_body list \<Rightarrow>
   host \<Rightarrow> unit hres" where
  "settle_step V rid work step progress result h =
     hbind (emit_all V (wi_module work) progress h) (\<lambda>_ h.
     case result of
       Inr outs \<Rightarrow> commit_step_success V rid (wi_module work) work step outs h
     | Inl e \<Rightarrow> fail_step V rid (wi_module work) work step e h)"

definition counted_execute :: "host \<Rightarrow> host" where
  "counted_execute h = h\<lparr>h_execute_count := u64_saturating_add (h_execute_count h) 1\<rparr>"

definition finish_work_unit :: "host_env \<Rightarrow> string \<Rightarrow> work_item \<Rightarrow> host \<Rightarrow> unit hres" where
  "finish_work_unit V rid work h =
     hbind (load_step V rid work h) (\<lambda>step h.
     hbind (try_memo_hit V rid (wi_module work) work h) (\<lambda>hit h.
     case hit of
       Some (key, outputs, source_run) \<Rightarrow>
         hbind (commit_memo_hit V rid (wi_module work) work step key outputs source_run h) (\<lambda>_ h. (Inr (), h))
     | None \<Rightarrow>
         (case map_of (h_plugins h) (wi_module work) of
            None \<Rightarrow> (Inl (NoPlugin (wi_module work)), h)
          | Some p \<Rightarrow>
              hbind (emit_init V rid work (pl_on_init p (h_tick h) step) (hstep h)) (\<lambda>_ h.
              case pl_execute p (h_tick h) step of
                (result, step1) \<Rightarrow>
                  (case take_progress step1 of
                     (progress, step2) \<Rightarrow>
                       settle_step V rid work step2 progress result (counted_execute (hstep h)))))))"

text \<open>
  Units in parallel: the memo hits are committed as they come and the other units deferred; then
  every deferred unit is executed, each on a thread of its own (a plugin has the step only, never
  the kernel or the host, so the order of the threads shows in the plugins' answers alone); then
  the outcomes are settled in order.
\<close>

type_synonym deferred = "work_item \<times> plugin \<times> step_context \<times> presentation option"

type_synonym executed =
  "work_item \<times> step_context \<times> presentation option \<times> presentation list \<times> (framework_error + port_body list)"

fun defer_units :: "host_env \<Rightarrow> string \<Rightarrow> work_item list \<Rightarrow> host \<Rightarrow> deferred list hres" where
  "defer_units V rid [] h = (Inr [], h)"
| "defer_units V rid (work # works) h =
     hbind (try_memo_hit V rid (wi_module work) work h) (\<lambda>hit h.
     case hit of
       Some (key, outputs, source_run) \<Rightarrow>
         hbind (load_step V rid work h) (\<lambda>step h.
         hbind (commit_memo_hit V rid (wi_module work) work step key outputs source_run h) (\<lambda>_ h.
         defer_units V rid works h))
     | None \<Rightarrow>
         (case map_of (h_plugins h) (wi_module work) of
            None \<Rightarrow> (Inl (NoPlugin (wi_module work)), h)
          | Some p \<Rightarrow>
              hbind (load_step V rid work h) (\<lambda>step h.
              hbind (defer_units V rid works (hstep h)) (\<lambda>ds h'.
              (Inr ((work, p, step, pl_on_init p (h_tick h) step) # ds), h')))))"

fun execute_deferred :: "deferred list \<Rightarrow> host \<Rightarrow> executed list \<times> host" where
  "execute_deferred [] h = ([], h)"
| "execute_deferred ((work, p, step, view) # ds) h =
     (case pl_execute p (h_tick h) step of
        (result, step1) \<Rightarrow>
          (case take_progress step1 of
             (progress, step2) \<Rightarrow>
               (case execute_deferred ds (hstep h) of
                  (outcomes, h) \<Rightarrow> ((work, step2, view, progress, result) # outcomes, h))))"

definition settle_outcome :: "host_env \<Rightarrow> string \<Rightarrow> executed \<Rightarrow> host \<Rightarrow> unit hres" where
  "settle_outcome V rid x h =
     (case x of (work, step, view, progress, result) \<Rightarrow>
        hbind (emit_init V rid work view (counted_execute h))
          (\<lambda>_ h. settle_step V rid work step progress result h))"

definition finish_work_units_parallel :: "host_env \<Rightarrow> string \<Rightarrow> work_item list \<Rightarrow> host \<Rightarrow> unit hres" where
  "finish_work_units_parallel V rid works h =
     hbind (defer_units V rid works h) (\<lambda>ds h.
     case execute_deferred ds h of
       (outcomes, h) \<Rightarrow> hbind (hmap (settle_outcome V rid) outcomes h) (\<lambda>_ h. (Inr (), h)))"

section \<open>Claim waves\<close>

definition claim_module_names :: "host_env \<Rightarrow> host \<Rightarrow> string \<Rightarrow> string list" where
  "claim_module_names V h rid =
     (let all = hash_order (he_ext V) (map fst (h_plugins h)) in
      case Option.bind (h_run_policies h rid) fp_claim_modules of
        None \<Rightarrow> all
      | Some allow \<Rightarrow> filter (\<lambda>m. list_ex (\<lambda>a. a = m) allow) all)"

definition restrict_claim :: "string list \<Rightarrow> claim_request \<Rightarrow> claim_request" where
  "restrict_claim mods c =
     (if length mods = 1 then c\<lparr>cr_module := hd mods\<rparr>
      else if mods \<noteq> [] then c\<lparr>cr_modules := mods\<rparr>
      else c)"

definition wave_concurrency :: "host \<Rightarrow> string \<Rightarrow> u32" where
  "wave_concurrency h rid =
     max (unwrap_or (map_option effective_concurrency (h_run_policies h rid)) DEFAULT_CONCURRENCY) 1"

definition wave_size :: "host \<Rightarrow> string \<Rightarrow> bool \<Rightarrow> u32" where
  "wave_size h rid one_pass =
     (let conc = wave_concurrency h rid;
          claim_batch = max (unwrap_or (map_option effective_claim_batch (h_run_policies h rid)) conc) 1
      in if one_pass then claim_batch else min claim_batch conc)"

definition wave_claim :: "host_env \<Rightarrow> host \<Rightarrow> string \<Rightarrow> bool \<Rightarrow> claim_request" where
  "wave_claim V h rid one_pass =
     restrict_claim
       (case Option.bind (h_run_policies h rid) fp_claim_modules of
          Some mods \<Rightarrow> mods
        | None \<Rightarrow> claim_module_names V h rid)
       \<lparr>cr_run_id = rid, cr_module = [], cr_node_ids = [], cr_max_items = wave_size h rid one_pass, cr_modules = []\<rparr>"

definition drive_claim_wave :: "host_env \<Rightarrow> string \<Rightarrow> bool \<Rightarrow> host \<Rightarrow> bool hres" where
  "drive_claim_wave V rid one_pass h =
     (let conc = wave_concurrency h rid in
      hbind (kapi V h (OpClaimReady (wave_claim V h rid one_pass) (h_ctx h)) as_items) (\<lambda>items h.
      if items = [] then (Inr False, h)
      else hbind (if conc \<le> 1 \<or> length items \<le> 1
                  then hbind (hmap (finish_work_unit V rid) items h) (\<lambda>_ h. (Inr (), h))
                  else finish_work_units_parallel V rid items h)
             (\<lambda>_ h. (Inr True, h))))"

definition try_step :: "host_env \<Rightarrow> string \<Rightarrow> string \<Rightarrow> host \<Rightarrow> bool hres" where
  "try_step V rid module h =
     hbind (kapi V h (OpClaimReady \<lparr>cr_run_id = rid, cr_module = module, cr_node_ids = [], cr_max_items = 1,
              cr_modules = []\<rparr> (h_ctx h)) as_items) (\<lambda>items h.
     case items of
       [] \<Rightarrow> (Inr False, h)
     | work # _ \<Rightarrow> hbind (finish_work_unit V rid work h) (\<lambda>_ h. (Inr True, h)))"


section \<open>Driving a run\<close>

definition host_get_run :: "host_env \<Rightarrow> string \<Rightarrow> host \<Rightarrow> run hres" where
  "host_get_run V rid h = kapi V h (OpGetRun rid (h_ctx h)) as_run"

partial_function (option) drive_until_idle :: "host_env \<Rightarrow> string \<Rightarrow> host \<Rightarrow> run hres option" where
  "drive_until_idle V rid h =
     (case host_get_run V rid h of
        (Inl e, h) \<Rightarrow> Some (Inl e, h)
      | (Inr r, h) \<Rightarrow>
          if run_state r \<noteq> Running then Some (Inr r, h)
          else (case drive_claim_wave V rid False h of
                  (Inl e, h) \<Rightarrow> Some (Inl e, h)
                | (Inr progressed, h) \<Rightarrow>
                    if progressed then drive_until_idle V rid h else Some (host_get_run V rid h)))"

definition drive_one_pass :: "host_env \<Rightarrow> string \<Rightarrow> host \<Rightarrow> run hres" where
  "drive_one_pass V rid h =
     hbind (host_get_run V rid h) (\<lambda>r h.
     if run_state r \<noteq> Running then (Inr r, h)
     else hbind (drive_claim_wave V rid True h) (\<lambda>_ h. host_get_run V rid h))"

definition finish_if_ended :: "string \<Rightarrow> run hres \<Rightarrow> run hres" where
  "finish_if_ended rid res =
     (case res of
        (Inl e, h) \<Rightarrow> (Inl e, h)
      | (Inr r, h) \<Rightarrow> (Inr r, if run_state r \<noteq> Running then finish_run_storage rid h else h))"

definition drive_with :: "host_env \<Rightarrow> string \<Rightarrow> drive_plan \<Rightarrow> host \<Rightarrow> run hres option" where
  "drive_with V rid plan h =
     map_option (finish_if_ended rid)
       (case plan of
          OnePass \<Rightarrow> Some (drive_one_pass V rid h)
        | _ \<Rightarrow> drive_until_idle V rid h)"

definition drive :: "host_env \<Rightarrow> string \<Rightarrow> host \<Rightarrow> run hres option" where
  "drive V rid h = drive_with V rid (unwrap_or (map_option effective_drive (h_run_policies h rid)) UntilIdle) h"

section \<open>Pipelines\<close>

definition host_start_run :: "host_env \<Rightarrow> run_request \<Rightarrow> host \<Rightarrow> run hres" where
  "host_start_run V req h = kapi V h (OpStartRun req (h_ctx h)) as_run"

definition pipeline_request ::
  "string \<Rightarrow> assembly \<Rightarrow> named_artifact list \<Rightarrow> framework_policy \<Rightarrow> run_request" where
  "pipeline_request rid a inputs policy =
     apply_to_run_request (policy\<lparr>fp_nodes := AllNodes\<rparr>)
       \<lparr>rr_id = rid, rr_assembly = Some a, rr_inputs = inputs, rr_limits = None, rr_include_nodes = [],
        rr_policy = None\<rparr>"

definition start_pipeline ::
  "host_env \<Rightarrow> string \<Rightarrow> assembly \<Rightarrow> named_artifact list \<Rightarrow> framework_policy \<Rightarrow> host \<Rightarrow> run hres" where
  "start_pipeline V rid a inputs policy h =
     (if fp_mode policy = Selective \<and> fp_nodes policy = AllNodes
      then (Inl (InvalidUse ''RunMode::Selective requires NodePlan::Only, After, or From''), h)
      else if rid = [] then (Inl (InvalidUse ''run_id must be non-empty''), h)
      else if h_run_policies h rid \<noteq> None
      then (Inl (InvalidUse (''pipeline policy already registered for run_id '' @ rid)), h)
      else if storage_enabled (fp_storage policy) \<and> h_storage h = None
      then (Inl (InvalidUse
             ''StoragePlan enabled but host has no StorageBackend (use Host::with_storage)''), h)
      else if mp_enabled (fp_memo policy) \<and> h_memo h = None
      then (Inl (InvalidUse ''MemoPlan enabled but host has no MemoStore (use Host::with_memo)''), h)
      else case materialize_cut a (fp_nodes policy) of Inl e \<Rightarrow> (Inl e, h) | Inr ac \<Rightarrow>
           case validate_seeds_present ac inputs of Inl e \<Rightarrow> (Inl e, h) | Inr _ \<Rightarrow>
           hbind (emit_skip_events V rid ac h) (\<lambda>_ h.
           hbind (host_start_run V (pipeline_request rid (ac_assembly ac) inputs policy) h) (\<lambda>r h.
           hbind (ensure_run_storage V rid policy h) (\<lambda>_ h.
           (Inr r, h\<lparr>h_run_policies := (h_run_policies h)(rid \<mapsto> policy)\<rparr>)))))"

text \<open>The skipped nodes of the cut and the frontier itself.\<close>

definition frontier_nodes :: "assembly_cut \<Rightarrow> string \<Rightarrow> string list" where
  "frontier_nodes ac after_node =
     (let ids = map sk_node_id (ac_skipped ac)
      in if list_ex (\<lambda>n. n = after_node) ids then ids else ids @ [after_node])"

definition resume_after ::
  "host_env \<Rightarrow> string \<Rightarrow> string \<Rightarrow> string \<Rightarrow> framework_policy \<Rightarrow> host \<Rightarrow> run hres" where
  "resume_after V new_run_id prior_run_id after_node policy h =
     hbind (host_get_run V prior_run_id h) (\<lambda>prior h.
     case run_assembly prior of None \<Rightarrow> (Inl (InvalidUse ''prior run has no assembly''), h) | Some a \<Rightarrow>
     let policy = policy\<lparr>fp_nodes := AfterNode after_node\<rparr> in
     case materialize_cut a (fp_nodes policy) of Inl e \<Rightarrow> (Inl e, h) | Inr ac \<Rightarrow>
     case seeds_from_run (he_clock V (h_tick h)) (h_kernel h) prior_run_id (frontier_nodes ac after_node) (h_ctx h) of
       Inl e \<Rightarrow> (Inl e, hstep h)
     | Inr seeds \<Rightarrow>
         start_pipeline V new_run_id a
           (merge_inputs (filter (\<lambda>i. \<not> is_seed_input_name (na_name i)) (run_inputs prior)) seeds) policy (hstep h))"

definition host_inject :: "host_env \<Rightarrow> string \<Rightarrow> named_artifact \<Rightarrow> drive_after \<Rightarrow> host \<Rightarrow> run hres option" where
  "host_inject V rid input after h =
     (case kapi V h (OpInjectInput \<lparr>iir_run_id = rid, iir_input = Some input\<rparr> (h_ctx h)) as_run of
        (Inl e, h) \<Rightarrow> Some (Inl e, h)
      | (Inr r, h) \<Rightarrow>
          (case after of
             NoDrive \<Rightarrow> Some (Inr r, h)
           | DriveUntilIdle \<Rightarrow> drive_with V rid UntilIdle h
           | DriveOnePass \<Rightarrow> drive_with V rid OnePass h))"

definition host_cancel :: "host_env \<Rightarrow> string \<Rightarrow> host \<Rightarrow> run hres" where
  "host_cancel V rid h =
     hbind (kapi V h (OpCancelRun rid (h_ctx h)) as_run) (\<lambda>r h. (Inr r, finish_run_storage rid h))"

end
