(* ===== verification/Effects.thy ===== *)
theory Effects
  imports Kernel
begin

text \<open>
  What the operations on runs return and do, beyond the invariants: exactly which leases are reaped,
  what a claim hands out, what a heartbeat renews, what a failure gives up and what a commit leaves.
\<close>

section \<open>Reaping takes the expired leases and nothing else\<close>

lemma fail_slot_claims:
  "distinct (map fst (rs_claimed slot)) \<Longrightarrow>
     map_of (rs_claimed (fail_slot slot i c t)) = (map_of (rs_claimed slot))(i := None)"
  by (simp add: fail_slot_def Let_def delete_conv')

lemma reap_claim_result:
  assumes "distinct (map fst (rs_claimed slot))"
  shows "map_of (rs_claimed (reap_claim ic slot)) = (map_of (rs_claimed slot))(fst ic := None)"
    "distinct (map fst (rs_claimed (reap_claim ic slot)))"
    "rs_done_units (reap_claim ic slot) = rs_done_units slot \<union>
       (if rs_max_attempts slot \<le> cs_attempt (snd ic) then {cs_unit_key (snd ic)} else {})"
    "rs_max_attempts (reap_claim ic slot) = rs_max_attempts slot"
    "rs_claim_attempts (reap_claim ic slot) = rs_claim_attempts slot"
  using assms by (auto simp: reap_claim_def Let_def delete_conv' distinct_delete)

lemma reap_claims_result:
  "distinct (map fst (rs_claimed slot)) \<Longrightarrow>
     map_of (rs_claimed (fold reap_claim ics slot)) = (map_of (rs_claimed slot)) |` (- fst ` set ics) \<and>
     rs_done_units (fold reap_claim ics slot) =
       rs_done_units slot \<union> {cs_unit_key c |i c. (i, c) \<in> set ics \<and> rs_max_attempts slot \<le> cs_attempt c} \<and>
     rs_claim_attempts (fold reap_claim ics slot) = rs_claim_attempts slot"
proof (induction ics arbitrary: slot)
  case (Cons ic ics)
  obtain j e where ic: "ic = (j, e)" by (cases ic)
  note s = reap_claim_result [OF Cons.prems, of "(j, e)"]
  have "map_of (rs_claimed (fold reap_claim ics (reap_claim (j, e) slot))) =
      (map_of (rs_claimed slot)) |` (- fst ` set ((j, e) # ics))"
    using Cons.IH [OF s(2)] by (auto simp: s(1) restrict_map_def fun_eq_iff)
  moreover have "rs_done_units (fold reap_claim ics (reap_claim (j, e) slot)) = rs_done_units slot \<union>
      {cs_unit_key c |i c. (i, c) \<in> set ((j, e) # ics) \<and> rs_max_attempts slot \<le> cs_attempt c}"
    using Cons.IH [OF s(2)] by (auto simp: s(3,4))
  ultimately show ?case using Cons.IH [OF s(2)] by (simp add: s(5) ic)
qed (auto simp: restrict_map_def)

lemma reap_slot_result:
  assumes "order_permutes X" "distinct (map fst (rs_claimed slot))"
  shows "map_of (rs_claimed (reap_slot X now slot)) i = Some c \<longleftrightarrow>
      map_of (rs_claimed slot) i = Some c \<and> \<not> expired now c"
    "rs_done_units (reap_slot X now slot) = rs_done_units slot \<union>
       {cs_unit_key c |i c. map_of (rs_claimed slot) i = Some c \<and> expired now c \<and> rs_max_attempts slot \<le> cs_attempt c}"
    "rs_claim_attempts (reap_slot X now slot) = rs_claim_attempts slot"
  using reap_claims_result [OF assms(2), of "expired_claims X now slot"]
  by (auto simp: reap_slot_def expired_claims_set [OF assms(1)] restrict_map_def image_iff split: if_splits)

lemma reap_slot_lookup:
  assumes "order_permutes X" "distinct (map fst (rs_claimed slot))"
  shows "map_of (rs_claimed (reap_slot X now slot)) i =
    (case map_of (rs_claimed slot) i of None \<Rightarrow> None | Some c \<Rightarrow> if expired now c then None else Some c)"
proof (cases "map_of (rs_claimed (reap_slot X now slot)) i")
  case None
  then have "expired now c" if "map_of (rs_claimed slot) i = Some c" for c
    using reap_slot_result(1) [OF assms, of now i c] that by simp
  with None show ?thesis by (simp split: option.split)
next
  case (Some c)
  then have "map_of (rs_claimed slot) i = Some c \<and> \<not> expired now c"
    using reap_slot_result(1) [OF assms, of now i c] by simp
  with Some show ?thesis by simp
qed

section \<open>Commit\<close>

lemma log_all_frame [simp]:
  "ks_derivations (log_all X es s) = ks_derivations s" "ks_artifacts (log_all X es s) = ks_artifacts s"
  "ks_modules (log_all X es s) = ks_modules s" "ks_capabilities (log_all X es s) = ks_capabilities s"
  "ks_idempotency (log_all X es s) = ks_idempotency s"
  by (induction es arbitrary: s) (simp_all add: log_all_def split_beta frame)

text \<open>An accepted commit that is not a replay.\<close>

lemma commit_result:
  assumes X: "order_permutes X" and inv: "runs_inv s"
    and ok: "commit_ctx X now s d ctx = (Inr r, s')" and fresh: "idempotent_get s ''commit'' ctx = None"
  obtains slot c cap where "ks_runs s (dv_run_id d) = Some slot" "running slot"
    "map_of (rs_claimed slot) (dv_work_id d) = Some c" "\<not> expired now c"
    "dv_node_id d = [] \<or> dv_node_id d = wi_node_id (cs_work c)"
    "capability_for_work (reap_expired_locked X now s (dv_run_id d)) (cs_work c) = Inr cap"
    "validate_outputs (reap_expired_locked X now s (dv_run_id d)) cap (dv_outputs d) = Inr ()"
    "wi_run_id (cs_work c) = dv_run_id d"
    "ks_derivations s' = ks_derivations s @ [make_derivation X (cs_work c) (dv_outputs d)]"
    "ks_runs s' = (ks_runs s)(dv_run_id d \<mapsto> committed_slot X (reap_expired_locked X now s (dv_run_id d))
       (reap_slot X now slot) c (make_derivation X (cs_work c) (dv_outputs d)))"
    "r = rs_run (the (ks_runs s' (dv_run_id d)))"
    "unat (run_steps r) = unat (run_steps (rs_run slot)) + 1"
    "ks_artifacts s' = ks_artifacts s"
proof -
  let ?rid = "dv_run_id d"
  from ok fresh obtain slot0 where slot0: "ks_runs s ?rid = Some slot0" "running slot0"
    by (auto simp: commit_ctx_def running_def split: sum.splits option.splits if_splits)
  let ?s1 = "reap_expired_locked X now s ?rid" and ?slot = "reap_slot X now slot0"
  note reaped = reaped_state [OF X inv slot0, of now]
  have d0: "distinct (map fst (rs_claimed slot0))" using inv slot0(1) slot_invD(2) unfolding runs_inv_def by blast
  from ok fresh slot0 reaped(2) obtain c cap where c: "map_of (rs_claimed ?slot) (dv_work_id d) = Some c"
      "dv_node_id d = [] \<or> dv_node_id d = wi_node_id (cs_work c)"
      "run_steps (rs_run slot0) < run_max_steps (rs_run slot0)"
      "capability_for_work ?s1 (cs_work c) = Inr cap" "validate_outputs ?s1 cap (dv_outputs d) = Inr ()"
      "apply_commit X ?s1 c (dv_outputs d) ctx = (r, s')"
    by (auto simp: commit_ctx_def running_def Let_def split: sum.splits option.splits if_splits prod.splits)
  have rid: "wi_run_id (cs_work c) = ?rid" using slot_invD(3) [OF reaped(3) c(1)] by (rule claim_invD)
  then have k: "ks_runs ?s1 (wi_run_id (cs_work c)) = Some ?slot" using reaped(2) by simp
  let ?d = "make_derivation X (cs_work c) (dv_outputs d)"
  let ?slot' = "committed_slot X ?s1 ?slot c ?d"
  have fr: "ks_derivations ?s1 = ks_derivations s" "ks_artifacts ?s1 = ks_artifacts s"
    "ks_runs ?s1 = (ks_runs s)(?rid \<mapsto> ?slot)"
    using slot0(1) by (simp_all add: reap_expired_locked_def set_slot_def)
  have r: "r = rs_run ?slot'" and s': "ks_derivations s' = ks_derivations s @ [?d]"
    "ks_runs s' = (ks_runs s)(?rid \<mapsto> ?slot')" "ks_artifacts s' = ks_artifacts s"
    using c(6) unfolding apply_commit_eq [OF k] by (auto simp: frame fr rid set_slot_def)
  have outs: "\<forall>v \<in> set (dv_outputs ?d). ref_in (stored s) v" using validate_outputs_refs [OF c(5)] reaped(5) by simp
  have steps: "unat (run_steps r) = unat (run_steps (rs_run slot0)) + 1"
    using committed_slot_steps(2) [OF reaped(4) c(1) _ outs] c(3) r by simp
  have cl: "map_of (rs_claimed slot0) (dv_work_id d) = Some c" "\<not> expired now c"
    using c(1) reap_slot_result(1) [OF X d0] by simp_all
  show thesis
    by (rule that [OF slot0 cl c(2) c(4,5) rid s'(1,2) _ steps s'(3)]) (simp add: r s')
qed


section \<open>Claiming\<close>

text \<open>The item for a candidate depends on the slot only through the attempts of its own unit.\<close>

lemma claim_one_item:
  "rs_claim_attempts slot' key = rs_claim_attempts slot key \<Longrightarrow> rs_default_lease_ms slot' = rs_default_lease_ms slot \<Longrightarrow>
     fst (claim_one now rid slot' (node, inputs, key)) = fst (claim_one now rid slot (node, inputs, key))"
  by (simp add: claim_one_def Let_def)

lemma claim_units_items:
  assumes "distinct (map (\<lambda>(n, ins, k). k) cands)"
    and "\<forall>(n, ins, k) \<in> set cands. rs_claim_attempts slot' k = rs_claim_attempts slot k"
    and "rs_default_lease_ms slot' = rs_default_lease_ms slot"
  shows "fst (claim_units now rid slot' cands) = map (\<lambda>cand. fst (claim_one now rid slot cand)) cands"
  using assms
proof (induction cands arbitrary: slot')
  case (Cons cand cands)
  obtain node inputs key where cand: "cand = (node, inputs, key)" by (metis prod_cases3)
  let ?s = "snd (claim_one now rid slot' (node, inputs, key))"
  have "fst (claim_units now rid ?s cands) = map (\<lambda>cand. fst (claim_one now rid slot cand)) cands"
  proof (rule Cons.IH)
    show "\<forall>(n, ins, k) \<in> set cands. rs_claim_attempts ?s k = rs_claim_attempts slot k"
    proof (clarify)
      fix n ins k assume m: "(n, ins, k) \<in> set cands"
      then have "k \<noteq> key" using Cons.prems(1) cand by force
      with m Cons.prems(2) show "rs_claim_attempts ?s k = rs_claim_attempts slot k" by (auto simp: claim_one_slot)
    qed
  qed (use Cons.prems in \<open>simp_all add: claim_one_slot\<close>)
  moreover have "fst (claim_one now rid slot' cand) = fst (claim_one now rid slot cand)"
    using Cons.prems(2,3) unfolding cand by (intro claim_one_item) auto
  ultimately show ?case by (simp add: cand split_beta Let_def)
qed simp

lemma claim_result:
  assumes X: "documented X" and inv: "runs_inv s" and ok: "claim_ready X now s req = (Inr items, s')"
  obtains slot a where "ks_runs s (cr_run_id req) = Some slot" "running slot" "run_assembly (rs_run slot) = Some a"
    "items = map (\<lambda>cand. fst (claim_one now (cr_run_id req) (reap_slot X now slot) cand))
       (take (claim_want (reap_slot X now slot) req)
          (ready_candidates X (reap_expired_locked X now s (cr_run_id req)) (reap_slot X now slot) req a))"
proof -
  let ?rid = "cr_run_id req"
  from ok obtain slot where slot: "ks_runs s ?rid = Some slot" "running slot"
    by (auto simp: claim_ready_def running_def split: option.splits if_splits)
  have P: "order_permutes X" "digest_32 X" using X by (simp_all add: documented_def)
  let ?s1 = "reap_expired_locked X now s ?rid" and ?slot1 = "reap_slot X now slot"
  note reaped = reaped_state [OF P(1) inv slot, of now]
  obtain a where a: "run_assembly (rs_run slot) = Some a"
    using inv slot(1) unfolding runs_inv_def slot_inv_def by blast
  let ?c = "take (claim_want ?slot1 req) (ready_candidates X ?s1 ?slot1 req a)"
  have "cands_ok (stored s) ?slot1 ?c"
    by (intro cands_ok_take ready_candidates_ok [OF P(2) reaped(3)]) (simp add: a)
  then have d: "distinct (map (\<lambda>(n, ins, k). k) ?c)" by (simp add: cands_ok_def)
  have "items = fst (claim_items X now ?s1 ?slot1 req)"
    using ok slot reaped(2) by (auto simp: claim_ready_def running_def Let_def split_beta split: if_splits)
  also have "\<dots> = fst (claim_units now ?rid ?slot1 ?c)" by (simp add: claim_items_def Let_def a)
  also have "\<dots> = map (\<lambda>cand. fst (claim_one now ?rid ?slot1 cand)) ?c"
    using d by (rule claim_units_items) auto
  finally show thesis by (rule that [OF slot a])
qed

section \<open>Heartbeat\<close>

definition renew_claim :: "int \<Rightarrow> claimed_slot \<Rightarrow> claimed_slot" where
  "renew_claim until c =
     c\<lparr>cs_lease_until_ms := until, cs_work := (cs_work c)\<lparr>wi_lease_until_unix_ms := until\<rparr>\<rparr>"

lemma renew_claim_twice [simp]: "renew_claim until (renew_claim until c) = renew_claim until c"
  by (simp add: renew_claim_def)

lemma renew_all_result:
  assumes "renew_all until is slot = (renewed, lost, slot')"
  shows "renewed = filter (\<lambda>i. map_of (rs_claimed slot) i \<noteq> None) is \<and>
    lost = filter (\<lambda>i. map_of (rs_claimed slot) i = None) is \<and>
    (\<forall>i. map_of (rs_claimed slot') i =
       map_option (\<lambda>c. if i \<in> set is then renew_claim until c else c) (map_of (rs_claimed slot) i)) \<and>
    map fst (rs_claimed slot') = map fst (rs_claimed slot)"
  using assms
proof (induction "is" arbitrary: slot renewed lost)
  case (Cons i "is")
  show ?case
  proof (cases "map_of (rs_claimed slot) i")
    case None
    with Cons.prems obtain lost1 where r: "renew_all until is slot = (renewed, lost1, slot')" "lost = i # lost1"
      by (auto split: prod.splits)
    have "map_option (\<lambda>c. if j \<in> set is then renew_claim until c else c) (map_of (rs_claimed slot) j) =
        map_option (\<lambda>c. if j \<in> set (i # is) then renew_claim until c else c) (map_of (rs_claimed slot) j)" for j
      using None by (cases "j = i") auto
    with Cons.IH [OF r(1)] None r(2) show ?thesis by simp
  next
    case (Some c)
    let ?slot = "slot\<lparr>rs_claimed := AList.update i (renew_claim until c) (rs_claimed slot)\<rparr>"
    from Cons.prems Some obtain renewed1 where r: "renew_all until is ?slot = (renewed1, lost, slot')" "renewed = i # renewed1"
      by (auto simp: renew_claim_def split: prod.splits)
    have m: "map_of (rs_claimed ?slot) = (map_of (rs_claimed slot))(i \<mapsto> renew_claim until c)"
      by (simp add: update_conv')
    have dom: "(map_of (rs_claimed ?slot) j = None) = (map_of (rs_claimed slot) j = None)" for j
      using Some unfolding m by simp
    have "i \<in> fst ` set (rs_claimed slot)" using Some by (metis domI dom_map_of_conv_image_fst)
    then have keys: "map fst (rs_claimed ?slot) = map fst (rs_claimed slot)" by (simp add: update_keys)
    have renew: "map_option (\<lambda>c. if j \<in> set is then renew_claim until c else c) (map_of (rs_claimed ?slot) j) =
        map_option (\<lambda>c. if j \<in> set (i # is) then renew_claim until c else c) (map_of (rs_claimed slot) j)" for j
      using Some unfolding m by (cases "j = i") auto
    from Cons.IH [OF r(1), unfolded dom keys renew] r(2) Some show ?thesis by simp
  qed
qed (auto simp: option.map_ident)

lemma heartbeat_result:
  assumes X: "documented X" and inv: "runs_inv s" and ok: "heartbeat X now s req = (Inr resp, s')"
  obtains slot where "ks_runs s (hr_run_id req) = Some slot" "running slot"
    "hp_renewed_work_ids resp = filter (\<lambda>i. map_of (rs_claimed slot) i \<noteq> None) (hr_work_ids req)"
    "hp_lost_work_ids resp = filter (\<lambda>i. map_of (rs_claimed slot) i = None) (hr_work_ids req)"
    "\<And>i. until = i64_saturating_add now (u64_as_i64 (if hr_extend_lease_ms req = 0 then rs_default_lease_ms slot
       else hr_extend_lease_ms req)) \<Longrightarrow>
     map_of (rs_claimed (the (ks_runs s' (hr_run_id req)))) i =
       (case map_of (rs_claimed slot) i of
          None \<Rightarrow> None
        | Some c \<Rightarrow>
            let c' = (if i \<in> set (hr_work_ids req)
              then renew_claim until c else c)
            in if expired now c' then None else Some c')"
proof -
  let ?rid = "hr_run_id req"
  from ok obtain slot where slot: "ks_runs s ?rid = Some slot" "running slot"
    by (auto simp: heartbeat_def running_def split: option.splits if_splits)
  let ?until = "i64_saturating_add now (u64_as_i64 (if hr_extend_lease_ms req = 0 then rs_default_lease_ms slot
       else hr_extend_lease_ms req))"
  obtain renewed lost slot1 where r: "renew_all ?until (hr_work_ids req) slot = (renewed, lost, slot1)" by (metis prod_cases3)
  note res = renew_all_result [OF r]
  have resp: "hp_renewed_work_ids resp = renewed" "hp_lost_work_ids resp = lost"
    "s' = reap_expired_locked X now (set_slot s ?rid slot1) ?rid"
    using ok slot r by (auto simp: heartbeat_def running_def Let_def)
  have "distinct (map fst (rs_claimed slot))" using inv slot(1) slot_invD(2) unfolding runs_inv_def by blast
  then have d: "distinct (map fst (rs_claimed slot1))" using res by simp
  have P: "order_permutes X" using X by (simp add: documented_def)
  have k: "ks_runs s' ?rid = Some (reap_slot X now slot1)" unfolding resp(3) by (simp add: reap_expired_runs)
  show thesis
  proof (rule that [OF slot])
    show "hp_renewed_work_ids resp = filter (\<lambda>i. map_of (rs_claimed slot) i \<noteq> None) (hr_work_ids req)"
      and "hp_lost_work_ids resp = filter (\<lambda>i. map_of (rs_claimed slot) i = None) (hr_work_ids req)"
      using res resp by simp_all
    fix i assume u: "until = ?until"
    have "map_of (rs_claimed (the (ks_runs s' ?rid))) i =
        (case map_of (rs_claimed slot1) i of None \<Rightarrow> None | Some c \<Rightarrow> if expired now c then None else Some c)"
      using reap_slot_lookup [OF P d] k by simp
    then show "map_of (rs_claimed (the (ks_runs s' ?rid))) i =
       (case map_of (rs_claimed slot) i of
          None \<Rightarrow> None
        | Some c \<Rightarrow>
            let c' = (if i \<in> set (hr_work_ids req)
              then renew_claim until c else c)
            in if expired now c' then None else Some c')"
      using res u by (cases "map_of (rs_claimed slot) i") (simp_all add: Let_def)
  qed
qed


section \<open>Failing\<close>

lemma fail_slot_done:
  "rs_done_units (fail_slot slot i c t) = rs_done_units slot \<union> (if t then {cs_unit_key c} else {})"
  by (simp add: fail_slot_def Let_def)

lemma fail_result:
  assumes X: "documented X" and inv: "runs_inv s" and ok: "fail_work X now s req = (Inr r, s')"
  obtains slot c t where "ks_runs s (fwr_run_id req) = Some slot" "running slot"
    "map_of (rs_claimed slot) (fwr_work_id req) = Some c" "\<not> expired now c"
    "t = (fwr_terminal req \<or> rs_max_attempts slot \<le> cs_attempt c)"
    "r = rs_run (the (ks_runs s' (fwr_run_id req)))"
    "map_of (rs_claimed (the (ks_runs s' (fwr_run_id req)))) =
       (map_of (rs_claimed (reap_slot X now slot)))(fwr_work_id req := None)"
    "rs_done_units (the (ks_runs s' (fwr_run_id req))) =
       rs_done_units (reap_slot X now slot) \<union> (if t then {cs_unit_key c} else {})"
    "ks_derivations s' = ks_derivations s"
proof -
  let ?rid = "fwr_run_id req"
  from ok obtain slot where slot: "ks_runs s ?rid = Some slot" "running slot"
    by (auto simp: fail_work_def running_def split: option.splits if_splits)
  have P: "order_permutes X" using X by (simp add: documented_def)
  let ?s1 = "reap_expired_locked X now s ?rid" and ?slot1 = "reap_slot X now slot"
  note reaped = reaped_state [OF P inv slot, of now]
  have d0: "distinct (map fst (rs_claimed slot))" using inv slot(1) slot_invD(2) unfolding runs_inv_def by blast
  have d1: "distinct (map fst (rs_claimed ?slot1))" using slot_invD(2) [OF reaped(3)] .
  have same: "rs_max_attempts ?slot1 = rs_max_attempts slot"
  proof -
    have "slot_inv (stored s) ?rid slot" using inv slot(1) by (simp add: runs_inv_def)
    from slot_steps_le [OF reap_slot_steps [OF P this slot(2)]] show ?thesis by (simp add: slot_le_def)
  qed
  from ok slot reaped(2) obtain c where c: "map_of (rs_claimed ?slot1) (fwr_work_id req) = Some c"
    by (auto simp: fail_work_def running_def Let_def split: option.splits)
  define t where "t = (fwr_terminal req \<or> rs_max_attempts slot \<le> cs_attempt c)"
  let ?slot2 = "fail_slot ?slot1 (fwr_work_id req) c t"
  have der: "ks_derivations ?s1 = ks_derivations s" using slot(1) by (simp add: reap_expired_locked_def set_slot_def)
  obtain slot3 where s': "ks_runs s' ?rid = Some slot3" "r = rs_run slot3" "slot3 = ?slot2 \<or> slot3 = stall_slot ?slot2"
      "ks_derivations s' = ks_derivations s"
    using ok slot reaped(2) c
    by (auto simp: fail_work_def running_def Let_def stall_run_def frame set_slot_def der t_def same split: if_splits)
  have cl: "map_of (rs_claimed slot) (fwr_work_id req) = Some c" "\<not> expired now c"
    using c reap_slot_result(1) [OF P d0] by simp_all
  show thesis
    by (rule that [OF slot cl t_def _ _ _ s'(4)])
      (use s' in \<open>auto simp: delete_conv' fail_slot_done\<close>)
qed

end
