(* ===== verification/Replay.thy ===== *)
theory Replay
  imports Effects
begin

text \<open>
  Idempotency: the cache of responses that \<open>put_artifact\<close>, \<open>start_run\<close> and \<open>commit\<close> share. Its
  entries are written once and never change, the entries of an operation have the type of its
  response, and so the first response under a caller and a request key answers every later request of
  that operation under them, with no further effect, once its deadline and the content of an artifact
  have been checked. Which calls a deadline refuses, and which ignore it, is here too.
\<close>

section \<open>The cache\<close>

definition entry_of :: "string \<Rightarrow> idempotent_result \<Rightarrow> bool" where
  "entry_of name v = (case v of IdemArtifactRef _ \<Rightarrow> name = ''put_artifact''
     | IdemRun _ \<Rightarrow> name = ''start_run'' \<or> name = ''commit'')"

definition idem_typed :: "kstate \<Rightarrow> bool" where
  "idem_typed s \<longleftrightarrow> (\<forall>key v. ks_idempotency s key = Some v \<longrightarrow> (\<exists>name ctx. idempotency_key name ctx = Some key \<and> entry_of name v))"

text \<open>What a call does to the cache: nothing, or one write of an entry of its own.\<close>

definition idem_step :: "kstate \<Rightarrow> kstate \<Rightarrow> bool" where
  "idem_step s s' \<longleftrightarrow> ks_idempotency s' = ks_idempotency s \<or>
     (\<exists>name ctx v. ks_idempotency s' = ks_idempotency (idempotent_put s name ctx v) \<and> entry_of name v)"

lemma idem_same [simp]: "ks_idempotency s' = ks_idempotency s \<Longrightarrow> idem_step s s'"
  by (simp add: idem_step_def)

lemma idem_put_cong: "ks_idempotency t = ks_idempotency s \<Longrightarrow>
    ks_idempotency (idempotent_put t name ctx v) = ks_idempotency (idempotent_put s name ctx v)"
  by (simp add: idempotent_put_def split: option.split)

lemma idem_put: "ks_idempotency t = ks_idempotency s \<Longrightarrow> entry_of name v \<Longrightarrow> idem_step s (idempotent_put t name ctx v)"
  unfolding idem_step_def using idem_put_cong by blast

lemma idem_step_keeps: "idem_step s s' \<Longrightarrow> keeps (ks_idempotency s) (ks_idempotency s')"
  unfolding idem_step_def keeps_def using idempotent_put_keeps by metis

lemma idem_step_entry:
  assumes "idem_step s s'" "ks_idempotency s' key = Some v"
  shows "ks_idempotency s key = Some v \<or> (\<exists>name ctx. idempotency_key name ctx = Some key \<and> entry_of name v)"
proof (cases "ks_idempotency s' = ks_idempotency s")
  case True
  then show ?thesis using assms(2) by simp
next
  case False
  with assms(1) obtain name ctx w where w: "ks_idempotency s' = ks_idempotency (idempotent_put s name ctx w)" "entry_of name w"
    unfolding idem_step_def by blast
  with False obtain k where "idempotency_key name ctx = Some k" "ks_idempotency s' = (ks_idempotency s)(k \<mapsto> w)"
    by (auto simp: idempotent_put_def split: option.splits)
  with assms(2) w(2) show ?thesis by (cases "key = k") auto
qed

lemma idem_step_typed: "idem_step s s' \<Longrightarrow> idem_typed s \<Longrightarrow> idem_typed s'"
  unfolding idem_typed_def using idem_step_entry by blast

section \<open>Every call\<close>

lemma reap_idem [simp]: "ks_idempotency (reap_expired_locked X now s rid) = ks_idempotency s"
  by (simp add: reap_expired_locked_def set_slot_def split: option.split)

lemma stall_idem [simp]: "ks_idempotency (stall_run X s rid slot) = ks_idempotency s"
  by (simp add: stall_run_def Let_def frame set_slot_def)

lemma run_ops_idem:
  "ks_idempotency (snd (claim_ready X now s req)) = ks_idempotency s"
  "ks_idempotency (snd (heartbeat X now s hreq)) = ks_idempotency s"
  "ks_idempotency (snd (fail_work X now s freq)) = ks_idempotency s"
  "ks_idempotency (snd (cancel_run X s rid)) = ks_idempotency s"
  "ks_idempotency (snd (inject_input_ctx X now s ireq ctx)) = ks_idempotency s"
  by (simp_all add: claim_ready_def heartbeat_def fail_work_def cancel_run_def inject_input_ctx_def Let_def frame
      set_slot_def split: option.split sum.split prod.split)

lemma start_run_idem: "idem_step s (snd (start_run_ctx X now s req ctx))"
  by (auto simp: start_run_ctx_def Let_def frame set_slot_def entry_of_def intro!: idem_put
      split: sum.split option.split idempotent_result.split)

lemma apply_commit_idem: "idem_step s (snd (apply_commit X s c outputs ctx))"
  by (auto simp: apply_commit_def Let_def split_beta frame set_slot_def entry_of_def intro!: idem_put)

lemma commit_idem: "idem_step s (snd (commit_ctx X now s d ctx))"
proof -
  let ?s1 = "reap_expired_locked X now s (dv_run_id d)"
  have "idem_step s t" if "idem_step ?s1 t" for t
    using that idem_put_cong [of ?s1 s] by (simp add: idem_step_def)
  then have "idem_step s (snd (apply_commit X ?s1 c outputs ctx))" for c outputs using apply_commit_idem by blast
  then show ?thesis
    by (auto simp: commit_ctx_def Let_def split: sum.split option.split idempotent_result.split prod.split)
      (metis snd_conv)+
qed

lemma put_artifact_idem: "idem_step s (snd (put_artifact_ctx X pol now s a ctx))"
  by (cases rule: put_artifact_cases [of X pol now s a ctx]) (auto simp: frame entry_of_def intro!: idem_put)

lemma kernel_call_idem: "idem_step s (snd (kernel_call X pol now s opn))"
proof (cases opn)
  case (OpPutArtifactWithBlob c ns data who)
  have dflt: "idempotent_put t name default_context v = t" for t name v
    by (simp add: idempotent_put_def idempotency_key_def default_context_def)
  have a: "ks_idempotency (snd (put_artifact X pol now t a)) = ks_idempotency t" for t a
    by (cases rule: put_artifact_cases [of X pol now t a default_context]) (simp_all add: put_artifact_def frame dflt)
  have "ks_idempotency (snd (put_artifact_with_blob X pol now s c ns data who)) = ks_idempotency s"
    using a put_blob_frame(9) [of X pol s "\<lparr>pbr_namespace = ns, pbr_data = data\<rparr>"]
    by (auto simp: put_artifact_with_blob_def Let_def split: sum.split prod.split) (metis snd_conv)+
  with OpPutArtifactWithBlob show ?thesis by simp
next
  case (OpGetRun rid ctx)
  then show ?thesis by (simp add: guarded_def get_run_def split: option.split sum.split)
next
  case (OpListDerivations rid ctx)
  then show ?thesis by (simp add: guarded_def list_derivations_def split: sum.split)
qed (simp_all add: guarded_def frame append_req_def run_ops_idem start_run_idem commit_idem put_artifact_idem
    split: sum.split)

interpretation im: machine init_state "kernel_step X pol" idem_typed
  "\<lambda>s t. keeps (ks_idempotency s) (ks_idempotency t)" for X pol
proof
  show "idem_typed init_state" by (simp add: idem_typed_def init_state_def)
  show "idem_typed t" if "idem_typed s" "kernel_step X pol s t" for s t
    using that kernel_call_idem idem_step_typed unfolding kernel_step_def by blast
  show "keeps (ks_idempotency s) (ks_idempotency t)" if "kernel_step X pol s t" for s t
    using that kernel_call_idem idem_step_keeps unfolding kernel_step_def by blast
qed (auto intro: keeps_trans)


section \<open>Replay\<close>

definition replayed_op :: "kernel_op \<Rightarrow> (string \<times> request_context) option" where
  "replayed_op opn = (case opn of
     OpPutArtifact _ ctx \<Rightarrow> Some (''put_artifact'', ctx) | OpStartRun _ ctx \<Rightarrow> Some (''start_run'', ctx)
   | OpCommit _ ctx \<Rightarrow> Some (''commit'', ctx) | _ \<Rightarrow> None)"

definition cached_response :: "idempotent_result \<Rightarrow> response" where
  "cached_response v = (case v of IdemArtifactRef r \<Rightarrow> RArtifactRef r | IdemRun r \<Rightarrow> RRun r)"

lemma idem_typed_get:
  assumes "idem_typed s" "idempotent_get s name ctx = Some v" "CHR 0x00 \<notin> set name"
  shows "entry_of name v"
proof -
  obtain key where key: "idempotency_key name ctx = Some key" "ks_idempotency s key = Some v"
    using assms(2) by (auto simp: idempotent_get_def split: option.splits)
  with assms(1) obtain name' ctx' where n: "idempotency_key name' ctx' = Some key" "entry_of name' v"
    unfolding idem_typed_def by blast
  then have "CHR 0x00 \<notin> set name'" by (auto simp: entry_of_def split: idempotent_result.splits)
  with key(1) n(1) assms(3) have "name' = name" by (auto simp: idempotency_key_def split_at_nul split: if_splits)
  with n(2) show ?thesis by simp
qed

lemma run_entry: "entry_of ''start_run'' v \<or> entry_of ''commit'' v \<Longrightarrow> \<exists>r. v = IdemRun r"
  by (cases v) (auto simp: entry_of_def)

lemma artifact_entry: "entry_of ''put_artifact'' v \<Longrightarrow> \<exists>r. v = IdemArtifactRef r"
  by (cases v) (auto simp: entry_of_def)

text \<open>A success leaves its response in the cache.\<close>

lemma put_artifact_entry:
  assumes "idem_typed s" "cx_request_key ctx \<noteq> []" "put_artifact_ctx X pol now s a ctx = (Inr r, s1)"
  shows "idempotent_get s1 ''put_artifact'' ctx = Some (IdemArtifactRef r)"
proof (cases "idempotent_get s ''put_artifact'' ctx")
  case None
  have "idempotent_get (store_artifact X b s) ''put_artifact'' ctx = None" for b
    using None by (simp add: idempotent_get_def frame cong: option.case_cong)
  with assms(3) None show ?thesis
    by (cases rule: put_artifact_cases [of X pol now s a ctx]) (auto intro!: idempotent_put_get [OF assms(2)])
next
  case (Some v)
  then obtain r' where v: "v = IdemArtifactRef r'" using idem_typed_get [OF assms(1) Some] artifact_entry by auto
  with assms(3) Some show ?thesis by (auto simp: put_artifact_ctx_def split: sum.splits)
qed

lemma start_run_entry:
  assumes "idem_typed s" "cx_request_key ctx \<noteq> []" "start_run_ctx X now s req ctx = (Inr r, s1)"
  shows "idempotent_get s1 ''start_run'' ctx = Some (IdemRun r)"
proof (cases "idempotent_get s ''start_run'' ctx")
  case None
  have "idempotent_get (log_entry X (set_slot s rid slot) k sj d) ''start_run'' ctx = None" for rid slot k sj d
    using None by (simp add: idempotent_get_def frame set_slot_def cong: option.case_cong)
  with assms(3) None show ?thesis
    by (auto simp: start_run_ctx_def Let_def intro!: idempotent_put_get [OF assms(2)]
        split: sum.splits option.splits if_splits)
next
  case (Some v)
  then obtain r' where v: "v = IdemRun r'" using idem_typed_get [OF assms(1) Some] run_entry by auto
  with assms(3) Some show ?thesis by (auto simp: start_run_ctx_def split: sum.splits)
qed

lemma commit_entry:
  assumes "idem_typed s" "cx_request_key ctx \<noteq> []" "commit_ctx X now s d ctx = (Inr r, s1)"
  shows "idempotent_get s1 ''commit'' ctx = Some (IdemRun r)"
proof (cases "idempotent_get s ''commit'' ctx")
  case None
  let ?s1 = "reap_expired_locked X now s (dv_run_id d)"
  from None assms(3) obtain c where c: "apply_commit X ?s1 c (dv_outputs d) ctx = (r, s1)"
    by (auto simp: commit_ctx_def Let_def split: sum.splits option.splits if_splits prod.splits)
  have "idempotent_get t ''commit'' ctx = None" if "ks_idempotency t = ks_idempotency s" for t
    using None that by (simp add: idempotent_get_def cong: option.case_cong)
  with c show ?thesis
    by (auto simp: apply_commit_def Let_def split_beta frame set_slot_def intro!: idempotent_put_get [OF assms(2)])
next
  case (Some v)
  then obtain r' where v: "v = IdemRun r'" using idem_typed_get [OF assms(1) Some] run_entry by auto
  with assms(3) Some show ?thesis by (auto simp: commit_ctx_def split: sum.splits)
qed

lemma success_entry:
  assumes "idem_typed s" "replayed_op opn = Some (name, ctx)" "cx_request_key ctx \<noteq> []"
    and "kernel_call X pol now s opn = (r, s1)" "\<forall>e. r \<noteq> RError e"
  obtains v where "idempotent_get s1 name ctx = Some v" "r = cached_response v" "entry_of name v"
proof -
  have "\<exists>v. idempotent_get s1 name ctx = Some v \<and> r = cached_response v \<and> entry_of name v"
    using assms
    by (cases opn)
      (auto simp: replayed_op_def respond_def cached_response_def entry_of_def split: prod.splits sum.splits
        dest!: put_artifact_entry [rotated 2] start_run_entry [rotated 2] commit_entry [rotated 2])
  with that show thesis by blast
qed

text \<open>
  A cached response answers the request and changes nothing. What is checked before the cache is the
  deadline and, for an artifact, its content.
\<close>

definition checked_first :: "artifact_store_policy \<Rightarrow> int \<Rightarrow> kernel_op \<Rightarrow> request_context \<Rightarrow> kernel_error + unit" where
  "checked_first pol now opn ctx =
     (case check_deadline now ctx of Inl e \<Rightarrow> Inl e
      | Inr _ \<Rightarrow> (case opn of OpPutArtifact a _ \<Rightarrow> validate_artifact_content a pol | _ \<Rightarrow> Inr ()))"

lemma cached_answer:
  assumes "replayed_op opn = Some (name, ctx)" "idempotent_get s name ctx = Some v" "entry_of name v"
  shows "kernel_call X pol now s opn =
    (case checked_first pol now opn ctx of Inl e \<Rightarrow> (RError e, s) | Inr _ \<Rightarrow> (cached_response v, s))"
  using assms
  by (cases opn; cases v)
    (auto simp: replayed_op_def respond_def cached_response_def entry_of_def put_artifact_ctx_def start_run_ctx_def
      commit_ctx_def checked_first_def split: sum.split)

lemma later_answer:
  assumes r: "reachable X pol s" and opn: "replayed_op opn = Some (name, ctx)" "cx_request_key ctx \<noteq> []"
    and first: "kernel_call X pol now s opn = (resp, s1)" "\<forall>e. resp \<noteq> RError e"
    and later: "(kernel_step X pol)\<^sup>*\<^sup>* s1 s2"
    and again: "replayed_op opn' = Some (name, ctx')" "cx_caller ctx' = cx_caller ctx" "cx_request_key ctx' = cx_request_key ctx"
  shows "kernel_call X pol now' s2 opn' =
    (case checked_first pol now' opn' ctx' of Inl e \<Rightarrow> (RError e, s2) | Inr _ \<Rightarrow> (resp, s2))"
proof -
  have "idem_typed s" using r im.inv_reached by (simp add: reachable_steps)
  then obtain v where v: "idempotent_get s1 name ctx = Some v" "resp = cached_response v" "entry_of name v"
    using success_entry [OF _ opn first] by blast
  have s1: "s1 = snd (kernel_call X pol now s opn)" using first(1) by simp
  have "reachable X pol s1" unfolding s1 using r by (rule reachable.call)
  then have "keeps (ks_idempotency s1) (ks_idempotency s2)"
    using later im.le_steps im.inv_reached by (simp add: reachable_steps)
  with v(1) have "idempotent_get s2 name ctx = Some v"
    by (auto simp: idempotent_get_def keeps_def split: option.splits)
  moreover have "idempotency_key name ctx' = idempotency_key name ctx" using again(2,3) by (simp add: idempotency_key_def)
  ultimately have "idempotent_get s2 name ctx' = Some v" by (simp add: idempotent_get_def)
  then have "kernel_call X pol now' s2 opn' =
      (case checked_first pol now' opn' ctx' of Inl e \<Rightarrow> (RError e, s2) | Inr _ \<Rightarrow> (cached_response v, s2))"
    by (rule cached_answer [OF again(1) _ v(3)])
  then show ?thesis unfolding v(2) .
qed

section \<open>Deadlines\<close>

text \<open>The same call with another context.\<close>

definition with_context :: "request_context \<Rightarrow> kernel_op \<Rightarrow> kernel_op" where
  "with_context ctx opn = (case opn of
     OpRegister m _ \<Rightarrow> OpRegister m ctx | OpTransition req _ \<Rightarrow> OpTransition req ctx
   | OpPutArtifact a _ \<Rightarrow> OpPutArtifact a ctx | OpGetArtifact r _ \<Rightarrow> OpGetArtifact r ctx
   | OpPutBlob req _ \<Rightarrow> OpPutBlob req ctx | OpGetBlob req _ \<Rightarrow> OpGetBlob req ctx
   | OpHasBlob req _ \<Rightarrow> OpHasBlob req ctx | OpPutContract c _ \<Rightarrow> OpPutContract c ctx
   | OpPublish ev _ \<Rightarrow> OpPublish ev ctx | OpAppend req _ \<Rightarrow> OpAppend req ctx | OpSnapshot _ \<Rightarrow> OpSnapshot ctx
   | OpStartRun req _ \<Rightarrow> OpStartRun req ctx | OpInjectInput req _ \<Rightarrow> OpInjectInput req ctx
   | OpClaimReady req _ \<Rightarrow> OpClaimReady req ctx | OpHeartbeat req _ \<Rightarrow> OpHeartbeat req ctx
   | OpFailWork req _ \<Rightarrow> OpFailWork req ctx | OpCommit d _ \<Rightarrow> OpCommit d ctx | OpGetRun i _ \<Rightarrow> OpGetRun i ctx
   | OpCancelRun i _ \<Rightarrow> OpCancelRun i ctx | OpListDerivations i _ \<Rightarrow> OpListDerivations i ctx | _ \<Rightarrow> opn)"

definition is_put_blob :: "kernel_op \<Rightarrow> bool" where
  "is_put_blob opn = (case opn of OpPutBlob _ _ \<Rightarrow> True | _ \<Rightarrow> False)"

lemma deadline_answer:
  assumes "op_context opn = Some ctx" "0 < cx_deadline_unix_ms ctx" "cx_deadline_unix_ms ctx < now"
    and "returns_result opn" "\<not> is_put_blob opn"
  shows "kernel_call X pol now s opn = (RError (FailedPrecondition ''deadline exceeded''), s)"
  using assms
  by (cases opn) (auto simp: op_context_def returns_result_def is_put_blob_def guarded_def respond_def
      check_deadline_def transition_req_def put_artifact_ctx_def start_run_ctx_def inject_input_ctx_def commit_ctx_def)

lemma deadline_ignored:
  assumes "\<not> returns_result opn \<or> is_put_blob opn"
  shows "kernel_call X pol now s (with_context ctx opn) = kernel_call X pol now s opn"
  using assms
  by (cases opn) (auto simp: returns_result_def is_put_blob_def with_context_def register_ctx_def)

end
