(* ===== verification/HostFacts.thy ===== *)
theory HostFacts
  imports Drive Replay
begin

text \<open>
  What the host does to the kernel and to its own state: a relation closed under the small moves of
  the host holds of every operation on units of work; with it, the host reaches the kernel through
  kernel calls only, a wave that goes well commits, and driving a run returns.
\<close>

section \<open>Relations closed under the moves of the host\<close>

lemma hbind_Inr [simp]: "hbind (Inr v, h) f = f v h"
  by (simp add: hbind_def)

lemma hbind_Inl [simp]: "hbind (Inl e, h) f = (Inl e, h)"
  by (simp add: hbind_def)

lemma hbind_ok: "hbind r f = (Inr v, h') \<longleftrightarrow> (\<exists>u h. r = (Inr u, h) \<and> f u h = (Inr v, h'))"
  by (auto simp: hbind_def split: prod.split sum.split)

definition kstep_host :: "host_env \<Rightarrow> host \<Rightarrow> kernel_op \<Rightarrow> host" where
  "kstep_host V h opn =
     (hstep h)\<lparr>h_kernel := snd (kernel_call (he_ext V) (he_pol V) (he_clock V (h_tick h)) (h_kernel h) opn)\<rparr>"

lemma kapi_host: "snd (kapi V h opn get) = kstep_host V h opn"
  by (simp add: kapi_def kstep_host_def split: prod.split)

locale host_closed =
  fixes V :: host_env and R :: "host \<Rightarrow> host \<Rightarrow> bool"
  assumes refl: "R h h"
    and trans: "R h1 h2 \<Longrightarrow> R h2 h3 \<Longrightarrow> R h1 h3"
    and kernel: "R h (kstep_host V h opn)"
    and tick: "R h (hstep h)"
    and events: "R h (h\<lparr>h_step_events := es\<rparr>)"
    and executes: "R h (h\<lparr>h_execute_count := n\<rparr>)"
    and hits: "R h (h\<lparr>h_memo_hit_count := n\<rparr>)"
    and memo: "h_memo h \<noteq> None \<Longrightarrow> R h (h\<lparr>h_memo := Some m\<rparr>)"
    and store: "h_storage h = Some b \<Longrightarrow> tables_kept b b' \<Longrightarrow> R h (h\<lparr>h_storage := Some b'\<rparr>)"
begin

lemma bind:
  assumes "R h (snd r)" "\<And>v k. r = (Inr v, k) \<Longrightarrow> R k (snd (f v k))"
  shows "R h (snd (hbind r f))"
proof -
  obtain x k where r: "r = (x, k)" by (cases r)
  show ?thesis
  proof (cases x)
    case (Inr v)
    with assms r have "R h k" "R k (snd (f v k))" by simp_all
    then have "R h (snd (f v k))" by (rule trans)
    with r Inr show ?thesis by simp
  qed (use assms(1) r in simp)
qed

lemma each:
  assumes "\<And>x k. R k (snd (f x k))"
  shows "R h (snd (hmap f xs h))"
proof (induction xs arbitrary: h)
  case (Cons x xs)
  show ?case by (simp, intro bind assms Cons) (auto intro: refl)
qed (simp add: refl)

lemma call: "R h (snd (kapi V h opn get))"
  by (simp add: kapi_host kernel)

lemma present: "R h (snd (emit_presentation V module p h))"
  unfolding emit_presentation_def maybe_put_ui_def
  by (auto split: sum.split intro!: bind call events refl)

lemma presents: "R h (snd (emit_all V module ps h))"
  unfolding emit_all_def by (intro bind each present) (simp add: refl)

lemma skips: "R h (snd (emit_skip_events V rid ac h))"
  unfolding emit_skip_events_def by (intro bind each present) (simp add: refl)

lemma module_rows: "R h (snd (store_module_rows V rid module policy step result h))"
proof -
  have "R h ((hstep h)\<lparr>h_storage := Some b'\<rparr>)" if "h_storage h = Some b" "tables_kept b b'" for b b'
    by (rule trans [OF tick store]) (use that in \<open>simp_all add: hstep_def\<close>)
  then show ?thesis
    by (auto simp: store_module_rows_def Let_def split: option.split sum.split intro: refl tick dest!: write_rows_kept)
qed

lemma step_log: "R h (snd (store_step_log V rid module policy step result h))"
proof -
  have "R h (h\<lparr>h_storage := Some b3\<rparr>)" if "h_storage h = Some b1" "tables_kept b1 b2" "tables_kept b2 b3" for b1 b2 b3
    using that(1) tables_kept_trans [OF that(2,3)] by (rule store)
  then show ?thesis
    by (auto simp: store_step_log_def Let_def split: option.split sum.split
        intro: refl store dest!: write_rows_kept ensure_table_kept)
qed

lemma step_storage: "R h (snd (apply_step_storage V rid module step result h))"
  unfolding apply_step_storage_def
  by (auto split: option.split intro!: bind module_rows step_log refl)

lemma stored_check: "R h (snd (all_stored V nas h))"
proof (induction nas arbitrary: h)
  case (Cons na nas)
  show ?case
  proof (cases "na_artifact na")
    case (Some r)
    obtain x k where k: "kapi V h (OpGetArtifact r (h_ctx h)) as_artifact = (x, k)" by (metis surj_pair)
    then have "R h k" using call by (metis snd_conv)
    with Some k Cons [of k] show ?thesis by (auto split: sum.split intro: trans)
  qed (simp add: refl)
qed (simp add: refl)

lemma memo_lookup: "R h (snd (try_memo_hit V rid module work h))"
proof -
  have "R h (snd (all_stored V nas (hstep h)))" for nas by (rule trans [OF tick stored_check])
  then show ?thesis
    by (auto simp: try_memo_hit_def Let_def split: option.split prod.split intro: refl tick) (metis snd_conv)+
qed

lemma memo_store: "R h (snd (store_memo_after_success V rid module work outputs h))"
proof -
  have "R h ((hstep h)\<lparr>h_memo := Some m\<rparr>)" if "h_memo h \<noteq> None" for m
    by (rule trans [OF tick memo]) (use that in \<open>simp add: hstep_def\<close>)
  then show ?thesis
    by (auto simp: store_memo_after_success_def split: option.split intro: refl tick)
qed

lemma final: "R h (snd (emit_final V rid module work step result h))"
  unfolding emit_final_def by (auto split: option.split intro: refl tick trans [OF tick present])

lemma put_out: "R h (snd (put_output V module out h))"
  unfolding put_output_def by (intro bind call) (simp add: refl)

lemma success: "R h (snd (commit_step_success V rid module work step outs h))"
  unfolding commit_step_success_def Let_def
  by (intro bind each put_out final call memo_store step_storage)

lemma failure: "R h (snd (fail_step V rid module work step e h))"
  unfolding fail_step_def Let_def
  by (auto split: option.split
      intro!: refl trans [OF tick trans [OF present trans [OF step_storage call]]])

lemma memo_hit: "R h (snd (commit_memo_hit V rid module work step key outputs source_run h))"
  unfolding commit_memo_hit_def
  by (intro bind present call trans [OF hits step_storage]) (simp add: refl)

lemma inputs: "R h (snd (load_inputs V nas m h))"
proof (induction nas arbitrary: m h)
  case (Cons na nas)
  then show ?case by (auto split: option.split intro!: bind call)
qed (simp add: refl)

lemma load: "R h (snd (load_step V rid work h))"
  unfolding load_step_def by (intro bind inputs) (simp add: refl)

lemma init_view: "R h (snd (emit_init V rid work view h))"
  unfolding emit_init_def by (auto split: option.split intro: refl present)

lemma settle: "R h (snd (settle_step V rid work step progress result h))"
  unfolding settle_step_def by (intro bind presents) (auto split: sum.split intro: success failure)

lemma counted: "R h (counted_execute h)"
  unfolding counted_execute_def by (rule executes)

lemma unit: "R h (snd (finish_work_unit V rid work h))"
  unfolding finish_work_unit_def
  by (intro bind load memo_lookup)
    (auto split: option.split prod.split
      intro!: bind memo_hit refl trans [OF tick init_view] trans [OF tick trans [OF counted settle]])

lemma deferring: "R h (snd (defer_units V rid works h))"
proof (induction works arbitrary: h)
  case (Cons work works)
  show ?case
    by (simp, intro bind memo_lookup)
      (auto split: option.split prod.split intro!: bind load memo_hit Cons refl trans [OF tick Cons])
qed (simp add: refl)

lemma execute: "R h (snd (execute_deferred ds h))"
proof (induction ds h rule: execute_deferred.induct)
  case (2 work p step view ds h)
  then show ?case by (auto split: prod.split intro: trans [OF tick])
qed (simp add: refl)

lemma outcome: "R h (snd (settle_outcome V rid x h))"
  unfolding settle_outcome_def
  by (auto split: prod.split intro!: bind trans [OF counted init_view] settle)

lemma parallel: "R h (snd (finish_work_units_parallel V rid works h))"
proof -
  have "R h (snd (hbind (hmap (settle_outcome V rid) xs k) (\<lambda>_ h. (Inr (), h))))" if "R h k" for h k and xs
    by (rule trans [OF that]) (intro bind each outcome, simp add: refl)
  then show ?thesis
    unfolding finish_work_units_parallel_def
    by (intro bind deferring) (auto split: prod.split, metis execute snd_conv)
qed

lemma wave: "R h (snd (drive_claim_wave V rid one_pass h))"
  unfolding drive_claim_wave_def Let_def
  by (intro bind call) (auto intro!: bind each unit parallel refl)

lemma got: "host_get_run V rid h = (x, k) \<Longrightarrow> R h k"
  unfolding host_get_run_def using call by (metis snd_conv)

lemma one_pass: "R h (snd (drive_one_pass V rid h))"
  unfolding drive_one_pass_def host_get_run_def by (intro bind call) (auto intro!: bind wave call refl)

lemma until_idle:
  assumes "drive_until_idle V rid h = Some res"
  shows "R h (snd res)"
proof -
  have "V = V \<longrightarrow> R h (snd res)"
  proof (rule drive_until_idle.raw_induct [where P = "\<lambda>V' rid h res. V' = V \<longrightarrow> R h (snd res)", OF _ assms], rule impI)
    fix loop V' rid h res
    assume IH: "\<And>V' rid h res. loop V' rid h = Some res \<Longrightarrow> V' = V \<longrightarrow> R h (snd res)" and V': "V' = V"
      and r: "(case host_get_run V' rid h of
        (Inl e, h) \<Rightarrow> Some (Inl e, h)
      | (Inr r, h) \<Rightarrow>
          if run_state r \<noteq> Running then Some (Inr r, h)
          else (case drive_claim_wave V' rid False h of
                  (Inl e, h) \<Rightarrow> Some (Inl e, h)
                | (Inr progressed, h) \<Rightarrow> if progressed then loop V' rid h else Some (host_get_run V' rid h))) = Some res"
    obtain x k where g: "host_get_run V rid h = (x, k)" by (metis surj_pair)
    obtain y l where w: "drive_claim_wave V rid False k = (y, l)" by (metis surj_pair)
    note hk = got [OF g]
    have kl: "R k l" using wave [of k rid False] w by simp
    have lg: "R l (snd (host_get_run V rid l))" using got by (metis surjective_pairing)
    note rest = trans [OF trans [OF hk kl] lg] trans [OF trans [OF hk kl] IH [of V rid l res, THEN mp]]
    show "R h (snd res)"
    proof (cases x)
      case (Inl e)
      with r g hk V' show ?thesis by auto
    next
      case (Inr v)
      then have "res = (Inr v, k) \<or> (\<exists>e. res = (Inl e, l)) \<or> loop V rid l = Some res \<or> res = host_get_run V rid l"
        using r g w V' by (cases y) (auto split: if_splits)
      then show ?thesis using hk trans [OF hk kl] rest by (elim disjE) auto
    qed
  qed
  then show ?thesis by simp
qed

end


section \<open>The host works through kernel calls\<close>

definition kernel_moves :: "host_env \<Rightarrow> kstate \<Rightarrow> kstate \<Rightarrow> bool" where
  "kernel_moves V = (kernel_step (he_ext V) (he_pol V))\<^sup>*\<^sup>*"

text \<open>The configuration of the host, which no operation on units of work changes.\<close>

definition same_config :: "host \<Rightarrow> host \<Rightarrow> bool" where
  "same_config h h' \<longleftrightarrow> h_ctx h' = h_ctx h \<and> h_plugins h' = h_plugins h \<and> h_ui_persist h' = h_ui_persist h \<and>
     h_storage_schemas h' = h_storage_schemas h \<and> (h_storage h' = None \<longleftrightarrow> h_storage h = None) \<and>
     (h_memo h' = None \<longleftrightarrow> h_memo h = None)"

definition works :: "host_env \<Rightarrow> host \<Rightarrow> host \<Rightarrow> bool" where
  "works V h h' \<longleftrightarrow> kernel_moves V (h_kernel h) (h_kernel h') \<and> same_config h h' \<and>
     h_run_policies h' = h_run_policies h \<and> h_run_tables h' = h_run_tables h"

lemma kernel_moves_refl [simp]: "kernel_moves V s s"
  by (simp add: kernel_moves_def)

lemma kernel_moves_trans: "kernel_moves V s t \<Longrightarrow> kernel_moves V t u \<Longrightarrow> kernel_moves V s u"
  by (simp add: kernel_moves_def)

lemma kernel_moves_call: "kernel_moves V s (snd (kernel_call (he_ext V) (he_pol V) now s opn))"
  unfolding kernel_moves_def by (rule r_into_rtranclp) (auto simp: kernel_step_def)

lemma kernel_moves_reachable:
  assumes "reachable (he_ext V) (he_pol V) s" "kernel_moves V s t"
  shows "reachable (he_ext V) (he_pol V) t"
  using assms unfolding reachable_steps kernel_moves_def by (rule rtranclp_trans)

interpretation wk: host_closed V "works V" for V
proof
  show "works V h1 h2 \<Longrightarrow> works V h2 h3 \<Longrightarrow> works V h1 h3" for h1 h2 h3
    by (auto simp: works_def same_config_def intro: kernel_moves_trans)
  show "works V h (kstep_host V h opn)" for h opn
    by (simp add: works_def same_config_def kstep_host_def hstep_def kernel_moves_call)
qed (auto simp: works_def same_config_def hstep_def)

text \<open>The operations that also open and close runs keep the configuration.\<close>

definition runs_on :: "host_env \<Rightarrow> host \<Rightarrow> host \<Rightarrow> bool" where
  "runs_on V h h' \<longleftrightarrow> kernel_moves V (h_kernel h) (h_kernel h') \<and> same_config h h'"

lemma works_runs: "works V h h' \<Longrightarrow> runs_on V h h'"
  by (simp add: works_def runs_on_def)

lemma runs_on_refl [simp]: "runs_on V h h"
  by (simp add: runs_on_def same_config_def)

lemma runs_on_trans: "runs_on V h1 h2 \<Longrightarrow> runs_on V h2 h3 \<Longrightarrow> runs_on V h1 h3"
  by (auto simp: runs_on_def same_config_def intro: kernel_moves_trans)

lemma runs_bind:
  assumes "runs_on V h (snd r)" "\<And>v k. r = (Inr v, k) \<Longrightarrow> runs_on V k (snd (f v k))"
  shows "runs_on V h (snd (hbind r f))"
proof -
  obtain x k where r: "r = (x, k)" by (cases r)
  then show ?thesis
  proof (cases x)
    case (Inr v)
    with assms r show ?thesis using runs_on_trans [of V h k] by simp
  qed (use assms(1) in simp)
qed

lemma finish_storage_runs: "runs_on V h (finish_run_storage rid h)"
  by (simp add: runs_on_def same_config_def finish_run_storage_def split: option.split)

lemma ensure_storage_runs: "runs_on V h (snd (ensure_run_storage V rid policy h))"
  by (auto simp: runs_on_def same_config_def ensure_run_storage_def split: option.split prod.split sum.split)

lemma kapi_works: "works V h (snd (kapi V h opn get))"
  by (rule wk.call)

lemma kapi_runs: "runs_on V h (snd (kapi V h opn get))"
  using kapi_works works_runs by blast

lemma get_run_runs: "runs_on V h (snd (host_get_run V rid h))"
  by (simp add: host_get_run_def kapi_runs)

lemma start_pipeline_runs: "runs_on V h (snd (start_pipeline V rid a inputs policy h))"
proof -
  have "runs_on V k (k\<lparr>h_run_policies := p\<rparr>)" for k p by (simp add: runs_on_def same_config_def)
  then have "runs_on V h (snd (hbind (emit_skip_events V rid ac h) (\<lambda>_ h.
           hbind (host_start_run V (pipeline_request rid (ac_assembly ac) inputs policy) h) (\<lambda>r h.
           hbind (ensure_run_storage V rid policy h) (\<lambda>_ h.
           (Inr r, h\<lparr>h_run_policies := (h_run_policies h)(rid \<mapsto> policy)\<rparr>))))))" for ac
    unfolding host_start_run_def
    by (intro runs_bind kapi_runs ensure_storage_runs works_runs [OF wk.skips]) simp
  then show ?thesis by (auto simp: start_pipeline_def split: sum.split)
qed

lemma resume_after_runs: "runs_on V h (snd (resume_after V new prior node policy h))"
proof -
  have "runs_on V k (hstep k)" for k by (rule works_runs [OF wk.tick])
  then show ?thesis
    unfolding resume_after_def Let_def
    by (intro runs_bind get_run_runs) (auto split: option.split sum.split
      intro: runs_on_trans [OF _ start_pipeline_runs])
qed

lemma cancel_runs: "runs_on V h (snd (host_cancel V rid h))"
  unfolding host_cancel_def by (intro runs_bind kapi_runs) (simp add: finish_storage_runs)

lemma try_step_runs: "runs_on V h (snd (try_step V rid module h))"
  unfolding try_step_def
  by (intro runs_bind kapi_runs) (auto split: list.split intro!: runs_bind works_runs [OF wk.unit])

lemma one_pass_runs: "runs_on V h (snd (drive_one_pass V rid h))"
  unfolding drive_one_pass_def
  by (intro runs_bind get_run_runs) (auto intro!: runs_bind works_runs [OF wk.wave] get_run_runs)


text \<open>Work drops no table.\<close>

definition has_table :: "host \<Rightarrow> string \<Rightarrow> bool" where
  "has_table h t \<longleftrightarrow> (\<exists>b. h_storage h = Some b \<and> b t \<noteq> None)"

definition keeps_tables :: "host \<Rightarrow> host \<Rightarrow> bool" where
  "keeps_tables h h' \<longleftrightarrow> (\<forall>t. has_table h t \<longrightarrow> has_table h' t)"

interpretation kt: host_closed V keeps_tables for V
  by unfold_locales (auto simp: keeps_tables_def has_table_def kstep_host_def hstep_def tables_kept_def)

section \<open>Driving, when it returns\<close>

lemma finish_if_ended_runs: "runs_on V h (snd res) \<Longrightarrow> runs_on V h (snd (finish_if_ended rid res))"
  by (auto simp: finish_if_ended_def split: prod.split sum.split intro: runs_on_trans finish_storage_runs)

lemma drive_with_runs:
  assumes "drive_with V rid plan h = Some res"
  shows "runs_on V h (snd res)"
proof -
  have "runs_on V h (snd res)" if "drive_until_idle V rid h = Some res" for res
    by (rule works_runs [OF wk.until_idle [OF that]])
  with assms one_pass_runs [of V h rid] show ?thesis
    by (auto simp: drive_with_def simp del: split_paired_All intro!: finish_if_ended_runs split: drive_plan.splits)
qed

lemma host_inject_runs:
  assumes "host_inject V rid input after h = Some res"
  shows "runs_on V h (snd res)"
proof -
  let ?r = "kapi V h (OpInjectInput \<lparr>iir_run_id = rid, iir_input = Some input\<rparr> (h_ctx h)) as_run"
  obtain x k where r: "?r = (x, k)" by (metis surj_pair)
  then have "runs_on V h k" using kapi_runs by (metis snd_conv)
  with assms r show ?thesis
    by (cases x) (auto simp: host_inject_def kapi_runs split: drive_after.splits dest!: drive_with_runs intro: runs_on_trans)
qed

section \<open>Every wave that goes well commits\<close>

text \<open>The steps a run has left, and a host whose kernel and context are as the loop needs them.\<close>

definition steps_left :: "kstate \<Rightarrow> string \<Rightarrow> nat" where
  "steps_left s rid =
     (case ks_runs s rid of None \<Rightarrow> 0
      | Some slot \<Rightarrow> unat (run_max_steps (rs_run slot)) - unat (run_steps (rs_run slot)))"

definition fresh_host :: "host_env \<Rightarrow> host \<Rightarrow> bool" where
  "fresh_host V h \<longleftrightarrow> documented (he_ext V) \<and> reachable (he_ext V) (he_pol V) (h_kernel h) \<and> cx_request_key (h_ctx h) = []"

lemma works_fresh: "works V h h' \<Longrightarrow> fresh_host V h \<Longrightarrow> fresh_host V h'"
  by (auto simp: fresh_host_def works_def same_config_def intro: kernel_moves_reachable)

lemma steps_left_mono:
  assumes "documented X" "reachable X pol s" "(kernel_step X pol)\<^sup>*\<^sup>* s t" "ks_runs s rid \<noteq> None"
  shows "steps_left t rid \<le> steps_left s rid" "ks_runs t rid \<noteq> None"
proof -
  obtain slot where s: "ks_runs s rid = Some slot" using assms(4) by blast
  with reachable_le [OF assms(1-3)] obtain slot' where t: "ks_runs t rid = Some slot'" "slot_le slot slot'"
    unfolding kernel_le_def runs_le_def by blast
  from t(1) show "ks_runs t rid \<noteq> None" by simp
  from t(2) have "unat (run_steps (rs_run slot)) \<le> unat (run_steps (rs_run slot'))"
    by (simp add: slot_le_def word_le_nat_alt)
  with s t show "steps_left t rid \<le> steps_left s rid" by (simp add: steps_left_def slot_le_def)
qed

lemma works_left:
  assumes "fresh_host V h" "works V h h'" "ks_runs (h_kernel h) rid \<noteq> None"
  shows "steps_left (h_kernel h') rid \<le> steps_left (h_kernel h) rid" "ks_runs (h_kernel h') rid \<noteq> None"
  using steps_left_mono [of "he_ext V" "he_pol V" "h_kernel h" "h_kernel h'" rid] assms
  by (simp_all add: fresh_host_def works_def kernel_moves_def)

lemma kapi_ok:
  assumes "kapi V h opn get = (Inr v, h')"
  obtains r s where "kernel_call (he_ext V) (he_pol V) (he_clock V (h_tick h)) (h_kernel h) opn = (r, s)"
    "\<forall>e. r \<noteq> RError e" "v = get r" "h' = (hstep h)\<lparr>h_kernel := s\<rparr>"
  using assms by (auto simp: kapi_def split: prod.splits response.splits)

text \<open>The commit that the host makes for a unit of work.\<close>

lemma commit_call:
  assumes f: "fresh_host V h" and ok: "kapi V h (OpCommit (submitted rid work outputs) (h_ctx h)) as_run = (Inr r, h')"
  shows "steps_left (h_kernel h') rid < steps_left (h_kernel h) rid" "ks_runs (h_kernel h) rid \<noteq> None"
    "\<exists>c. wi_run_id (cs_work c) = rid \<and> (\<exists>slot. ks_runs (h_kernel h) rid = Some slot \<and>
        map_of (rs_claimed slot) (wi_id work) = Some c) \<and>
       ks_derivations (h_kernel h') = ks_derivations (h_kernel h) @ [make_derivation (he_ext V) (cs_work c) outputs]"
proof -
  let ?X = "he_ext V" and ?s = "h_kernel h" and ?d = "submitted rid work outputs"
  have X: "documented ?X" and reach: "reachable ?X (he_pol V) ?s" using f by (simp_all add: fresh_host_def)
  have P: "order_permutes ?X" using X by (simp add: documented_def)
  have inv: "runs_inv ?s" using kernel_invD(5) [OF reachable_inv [OF X reach]] .
  from ok obtain resp s' where k: "kernel_call ?X (he_pol V) (he_clock V (h_tick h)) ?s (OpCommit ?d (h_ctx h)) = (resp, s')"
      "\<forall>e. resp \<noteq> RError e" "h' = (hstep h)\<lparr>h_kernel := s'\<rparr>"
    by (rule kapi_ok)
  then obtain run1 where c: "commit_ctx ?X (he_clock V (h_tick h)) ?s ?d (h_ctx h) = (Inr run1, s')"
    by (auto simp: respond_def split: prod.splits sum.splits)
  have none: "idempotent_get ?s ''commit'' (h_ctx h) = None"
    using f by (simp add: idempotent_get_def idempotency_key_def fresh_host_def)
  have sub: "dv_run_id ?d = rid" "dv_work_id ?d = wi_id work" "dv_outputs ?d = outputs" by (simp_all add: submitted_def)
  from commit_result [OF P inv c none, unfolded sub] obtain slot c' where
    r: "ks_runs ?s rid = Some slot" "running slot" "map_of (rs_claimed slot) (wi_id work) = Some c'"
      "wi_run_id (cs_work c') = rid"
      "ks_derivations s' = ks_derivations ?s @ [make_derivation ?X (cs_work c') outputs]"
      "run1 = rs_run (the (ks_runs s' rid))" "unat (run_steps run1) = unat (run_steps (rs_run slot)) + 1"
      "ks_runs s' rid \<noteq> None"
    by (metis fun_upd_same option.distinct(1))
  have hs: "h_kernel h' = s'" using k(3) by simp
  from r(1) show "ks_runs ?s rid \<noteq> None" by simp
  from r hs show "\<exists>c. wi_run_id (cs_work c) = rid \<and> (\<exists>slot. ks_runs ?s rid = Some slot \<and>
        map_of (rs_claimed slot) (wi_id work) = Some c) \<and>
       ks_derivations (h_kernel h') = ks_derivations ?s @ [make_derivation ?X (cs_work c) outputs]" by auto
  obtain slot' where s': "ks_runs s' rid = Some slot'" using r(8) by blast
  have "kernel_le ?X ?s s'"
    using reachable_call_le [OF X reach, of "he_clock V (h_tick h)" "OpCommit ?d (h_ctx h)"] by (simp only: k(1) snd_conv)
  then have "slot_le slot slot'" using r(1) s' unfolding kernel_le_def runs_le_def by fastforce
  moreover have "unat (run_steps (rs_run slot)) < unat (run_max_steps (rs_run slot))"
    using slot_invD(7) [OF reachable_slot [OF X reach r(1)] r(2)] by (simp add: word_less_nat_alt)
  ultimately show "steps_left (h_kernel h') rid < steps_left ?s rid"
    using r(1,6,7) s' hs by (simp add: steps_left_def slot_le_def)
qed


definition advances :: "string \<Rightarrow> host \<Rightarrow> host \<Rightarrow> bool" where
  "advances rid h h' \<longleftrightarrow> steps_left (h_kernel h') rid < steps_left (h_kernel h) rid"

lemma advance_via:
  assumes "fresh_host V h" "ks_runs (h_kernel h) rid \<noteq> None" "works V h k" "advances rid k l" "works V k l" "works V l h'"
  shows "advances rid h h'"
proof -
  have k: "fresh_host V k" "steps_left (h_kernel k) rid \<le> steps_left (h_kernel h) rid" "ks_runs (h_kernel k) rid \<noteq> None"
    using works_fresh [OF assms(3,1)] works_left [OF assms(1,3,2)] by simp_all
  have l: "fresh_host V l" "ks_runs (h_kernel l) rid \<noteq> None"
    using works_fresh [OF assms(5) k(1)] works_left [OF k(1) assms(5) k(3)] by simp_all
  have "steps_left (h_kernel h') rid \<le> steps_left (h_kernel l) rid" using works_left [OF l(1) assms(6) l(2)] by simp
  with assms(4) k(2) show ?thesis by (simp add: advances_def)
qed

text \<open>What a call returned was reached by working.\<close>

lemma ok_works:
  assumes "r = (x, h')" "works V h (snd r)"
  shows "works V h h'"
  using assms by simp

lemma commit_advances:
  assumes "fresh_host V k" "kapi V k (OpCommit (submitted rid work outputs) (h_ctx k)) as_run = (Inr r, l)"
  shows "advances rid k l" "works V k l"
  using commit_call(1) [OF assms] ok_works [OF assms(2) kapi_works] by (simp_all add: advances_def)

lemma success_advances:
  assumes f: "fresh_host V h" "ks_runs (h_kernel h) rid \<noteq> None"
    and ok: "commit_step_success V rid module work step outs h = (Inr u, h')"
  shows "advances rid h h'"
proof -
  from ok obtain outputs k1 v k2 r k3 w k4 where
    1: "hmap (put_output V module) outs h = (Inr outputs, k1)" and
    2: "emit_final V rid module work step \<lparr>sr_ok = True, sr_outputs = outputs, sr_error = None\<rparr> k1 = (Inr v, k2)" and
    3: "kapi V k2 (OpCommit (submitted rid work outputs) (h_ctx k2)) as_run = (Inr r, k3)" and
    4: "store_memo_after_success V rid module work outputs k3 = (Inr w, k4)" and
    5: "apply_step_storage V rid module step \<lparr>sr_ok = True, sr_outputs = outputs, sr_error = None\<rparr> k4 = (Inr u, h')"
    by (auto simp: commit_step_success_def hbind_ok Let_def)
  have w2: "works V h k2"
    by (rule wk.trans [OF ok_works [OF 1 wk.each [OF wk.put_out]] ok_works [OF 2 wk.final]])
  have w5: "works V k3 h'" by (rule wk.trans [OF ok_works [OF 4 wk.memo_store] ok_works [OF 5 wk.step_storage]])
  show ?thesis by (rule advance_via [OF f w2 commit_advances [OF works_fresh [OF w2 f(1)] 3] w5])
qed

lemma memo_hit_advances:
  assumes f: "fresh_host V h" "ks_runs (h_kernel h) rid \<noteq> None"
    and ok: "commit_memo_hit V rid module work step key outputs src h = (Inr u, h')"
  shows "advances rid h h'"
proof -
  from ok obtain v k1 r k2 w where
    1: "emit_presentation V module (cached_presentation rid work key outputs src) h = (Inr v, k1)" and
    2: "kapi V k1 (OpCommit (submitted rid work outputs) (h_ctx k1)) as_run = (Inr r, k2)" and
    3: "apply_step_storage V rid module step \<lparr>sr_ok = True, sr_outputs = outputs, sr_error = None\<rparr>
          (k2\<lparr>h_memo_hit_count := u64_saturating_add (h_memo_hit_count k2) 1\<rparr>) = (Inr w, h')"
    by (auto simp: commit_memo_hit_def hbind_ok)
  have w1: "works V h k1" by (rule ok_works [OF 1 wk.present])
  have w3: "works V k2 h'" by (rule wk.trans [OF wk.hits ok_works [OF 3 wk.step_storage]])
  show ?thesis by (rule advance_via [OF f w1 commit_advances [OF works_fresh [OF w1 f(1)] 2] w3])
qed

lemma fail_step_fails: "fail_step V rid module work step e h \<noteq> (Inr u, h')"
  by (simp add: fail_step_def Let_def split: option.split)

lemma settle_advances:
  assumes f: "fresh_host V h" "ks_runs (h_kernel h) rid \<noteq> None"
    and ok: "settle_step V rid work step progress result h = (Inr u, h')"
  shows "advances rid h h'"
proof -
  from ok obtain v k where 1: "emit_all V (wi_module work) progress h = (Inr v, k)"
    and 2: "(case result of Inr outs \<Rightarrow> commit_step_success V rid (wi_module work) work step outs k
             | Inl e \<Rightarrow> fail_step V rid (wi_module work) work step e k) = (Inr u, h')"
    by (auto simp: settle_step_def hbind_ok)
  from 2 obtain outs where c: "commit_step_success V rid (wi_module work) work step outs k = (Inr u, h')"
    using fail_step_fails by (auto split: sum.splits)
  have w: "works V h k" by (rule ok_works [OF 1 wk.presents])
  have "advances rid k h'"
    using success_advances [OF works_fresh [OF w f(1)] _ c] works_left(2) [OF f(1) w f(2)] by blast
  moreover have "works V k h'" by (rule ok_works [OF c wk.success])
  ultimately show ?thesis by (rule advance_via [OF f w _ _ wk.refl])
qed

lemma unit_advances:
  assumes f: "fresh_host V h" "ks_runs (h_kernel h) rid \<noteq> None" and ok: "finish_work_unit V rid work h = (Inr u, h')"
  shows "advances rid h h'"
proof -
  from ok obtain step k1 hit k2 where
    1: "load_step V rid work h = (Inr step, k1)" and
    2: "try_memo_hit V rid (wi_module work) work k1 = (Inr hit, k2)" and
    3: "(case hit of
       Some (key, outputs, source_run) \<Rightarrow>
         hbind (commit_memo_hit V rid (wi_module work) work step key outputs source_run k2) (\<lambda>_ h. (Inr (), h))
     | None \<Rightarrow>
         (case map_of (h_plugins k2) (wi_module work) of
            None \<Rightarrow> (Inl (NoPlugin (wi_module work)), k2)
          | Some p \<Rightarrow>
              hbind (emit_init V rid work (pl_on_init p (h_tick k2) step) (hstep k2)) (\<lambda>_ h.
              case pl_execute p (h_tick h) step of
                (result, step1) \<Rightarrow>
                  (case take_progress step1 of
                     (progress, step2) \<Rightarrow>
                       settle_step V rid work step2 progress result (counted_execute (hstep h)))))) = (Inr u, h')"
    by (auto simp: finish_work_unit_def hbind_ok)
  have w2: "works V h k2" by (rule wk.trans [OF ok_works [OF 1 wk.load] ok_works [OF 2 wk.memo_lookup]])
  have f2: "fresh_host V k2" "ks_runs (h_kernel k2) rid \<noteq> None"
    using works_fresh [OF w2 f(1)] works_left(2) [OF f(1) w2 f(2)] by simp_all
  show ?thesis
  proof (cases hit)
    case None
    then obtain p where "map_of (h_plugins k2) (wi_module work) = Some p" using 3 by (auto split: option.splits)
    with 3 None obtain v k3 where 4: "emit_init V rid work (pl_on_init p (h_tick k2) step) (hstep k2) = (Inr v, k3)" and
      r: "(case pl_execute p (h_tick k3) step of (result, step1) \<Rightarrow> (case take_progress step1 of
         (progress, step2) \<Rightarrow> settle_step V rid work step2 progress result (counted_execute (hstep k3)))) = (Inr u, h')"
      by (auto simp: hbind_ok)
    obtain result step1 where "pl_execute p (h_tick k3) step = (result, step1)" by (metis surj_pair)
    with r have 5: "settle_step V rid work (snd (take_progress step1)) (fst (take_progress step1)) result
            (counted_execute (hstep k3)) = (Inr u, h')"
      by (simp add: split_beta)
    let ?k = "counted_execute (hstep k3)"
    have wk': "works V k2 ?k"
      by (rule wk.trans [OF wk.tick wk.trans [OF ok_works [OF 4 wk.init_view] wk.trans [OF wk.tick wk.counted]]])
    have "advances rid ?k h'"
      using settle_advances [OF works_fresh [OF wk' f2(1)] works_left(2) [OF f2(1) wk' f2(2)] 5] .
    then show ?thesis
      by (rule advance_via [OF f wk.trans [OF w2 wk'] _ ok_works [OF 5 wk.settle] wk.refl])
  next
    case (Some x)
    with 3 obtain key outputs src b where
      4: "commit_memo_hit V rid (wi_module work) work step key outputs src k2 = (Inr b, h')"
      by (cases x) (auto simp: hbind_ok)
    show ?thesis
      by (rule advance_via [OF f w2 memo_hit_advances [OF f2 4] ok_works [OF 4 wk.memo_hit] wk.refl])
  qed
qed


lemma units_advance:
  assumes f: "fresh_host V h" "ks_runs (h_kernel h) rid \<noteq> None" and "items \<noteq> []"
    and ok: "hmap (finish_work_unit V rid) items h = (Inr us, h')"
  shows "advances rid h h'"
proof -
  obtain w ws where "items = w # ws" using assms(3) by (cases items) auto
  with ok obtain u k us' where 1: "finish_work_unit V rid w h = (Inr u, k)"
    and 2: "hmap (finish_work_unit V rid) ws k = (Inr us', h')"
    by (auto simp: hbind_ok)
  show ?thesis
    by (rule advance_via [OF f wk.refl unit_advances [OF f 1] ok_works [OF 1 wk.unit] ok_works [OF 2 wk.each [OF wk.unit]]])
qed

lemma outcome_advances:
  assumes f: "fresh_host V h" "ks_runs (h_kernel h) rid \<noteq> None"
    and ok: "settle_outcome V rid x h = (Inr u, h')"
  shows "advances rid h h'"
proof -
  obtain work step view progress result where x: "x = (work, step, view, progress, result)" by (metis prod_cases5)
  from ok x obtain v k where 1: "emit_init V rid work view (counted_execute h) = (Inr v, k)"
    and 2: "settle_step V rid work step progress result k = (Inr u, h')"
    by (auto simp: settle_outcome_def hbind_ok)
  have w: "works V h k" by (rule wk.trans [OF wk.counted ok_works [OF 1 wk.init_view]])
  have "advances rid k h'" using settle_advances [OF works_fresh [OF w f(1)] works_left(2) [OF f(1) w f(2)] 2] .
  then show ?thesis by (rule advance_via [OF f w _ ok_works [OF 2 wk.settle] wk.refl])
qed

text \<open>Deferring advances the run unless it defers something, and then the outcome does.\<close>

lemma deferring_advances:
  assumes f: "fresh_host V h" "ks_runs (h_kernel h) rid \<noteq> None" and "items \<noteq> []"
    and ok: "defer_units V rid items h = (Inr ds, h')" and "ds = []"
  shows "advances rid h h'"
proof -
  obtain w ws where "items = w # ws" using assms(3) by (cases items) auto
  with ok assms(5) obtain key outputs src k1 step k2 b k3 where
    1: "try_memo_hit V rid (wi_module w) w h = (Inr (Some (key, outputs, src)), k1)" and
    2: "load_step V rid w k1 = (Inr step, k2)" and
    3: "commit_memo_hit V rid (wi_module w) w step key outputs src k2 = (Inr b, k3)" and
    4: "defer_units V rid ws k3 = (Inr ds, h')"
    by (auto simp: hbind_ok split: option.splits prod.splits)
  have w2: "works V h k2" by (rule wk.trans [OF ok_works [OF 1 wk.memo_lookup] ok_works [OF 2 wk.load]])
  have "advances rid k2 k3"
    using memo_hit_advances [OF works_fresh [OF w2 f(1)] works_left(2) [OF f(1) w2 f(2)] 3] .
  then show ?thesis
    by (rule advance_via [OF f w2 _ ok_works [OF 3 wk.memo_hit] ok_works [OF 4 wk.deferring]])
qed

lemma execute_deferred_length: "length (fst (execute_deferred ds h)) = length ds"
  by (induction ds h rule: execute_deferred.induct) (auto split: prod.split)

lemma parallel_advances:
  assumes f: "fresh_host V h" "ks_runs (h_kernel h) rid \<noteq> None" and "items \<noteq> []"
    and ok: "finish_work_units_parallel V rid items h = (Inr u, h')"
  shows "advances rid h h'"
proof -
  from ok obtain ds k1 where 1: "defer_units V rid items h = (Inr ds, k1)"
    and r: "(case execute_deferred ds k1 of
       (outcomes, h) \<Rightarrow> hbind (hmap (settle_outcome V rid) outcomes h) (\<lambda>_ h. (Inr (), h))) = (Inr u, h')"
    by (auto simp: finish_work_units_parallel_def hbind_ok)
  obtain outcomes k2 where 2: "execute_deferred ds k1 = (outcomes, k2)" by (metis surj_pair)
  from r 2 obtain us where 3: "hmap (settle_outcome V rid) outcomes k2 = (Inr us, h')" by (auto simp: hbind_ok)
  have w1: "works V h k1" by (rule ok_works [OF 1 wk.deferring])
  have w2: "works V k1 k2" by (rule ok_works [OF 2 wk.execute])
  have w3: "works V k2 h'" by (rule ok_works [OF 3 wk.each [OF wk.outcome]])
  show ?thesis
  proof (cases outcomes)
    case Nil
    then have "ds = []" using execute_deferred_length [of ds k1] 2 by simp
    from advance_via [OF f wk.refl deferring_advances [OF f assms(3) 1 this] w1 wk.trans [OF w2 w3]]
    show ?thesis .
  next
    case (Cons x xs)
    with 3 obtain v k3 us' where 4: "settle_outcome V rid x k2 = (Inr v, k3)"
      and 5: "hmap (settle_outcome V rid) xs k3 = (Inr us', h')"
      by (auto simp: hbind_ok)
    note w = wk.trans [OF w1 w2]
    have "advances rid k2 k3" using outcome_advances [OF works_fresh [OF w f(1)] works_left(2) [OF f(1) w f(2)] 4] .
    then show ?thesis
      by (rule advance_via [OF f w _ ok_works [OF 4 wk.outcome] ok_works [OF 5 wk.each [OF wk.outcome]]])
  qed
qed

lemma wave_advances:
  assumes f: "fresh_host V h" "ks_runs (h_kernel h) rid \<noteq> None"
    and ok: "drive_claim_wave V rid one_pass h = (Inr True, h')"
  shows "advances rid h h'"
proof -
  from ok obtain items k u where
    1: "kapi V h (OpClaimReady (wave_claim V h rid one_pass) (h_ctx h)) as_items = (Inr items, k)" and
    2: "items \<noteq> []" and
    3: "(\<exists>us. hmap (finish_work_unit V rid) items k = (Inr us, h')) \<or> finish_work_units_parallel V rid items k = (Inr u, h')"
    by (auto simp: drive_claim_wave_def hbind_ok Let_def split: if_splits)
  have w: "works V h k" by (rule ok_works [OF 1 kapi_works])
  note k = works_fresh [OF w f(1)] works_left(2) [OF f(1) w f(2)]
  from 3 show ?thesis
  proof
    assume "\<exists>us. hmap (finish_work_unit V rid) items k = (Inr us, h')"
    then obtain us where 4: "hmap (finish_work_unit V rid) items k = (Inr us, h')" ..
    from advance_via [OF f w units_advance [OF k 2 4] ok_works [OF 4 wk.each [OF wk.unit]] wk.refl] show ?thesis .
  next
    assume 4: "finish_work_units_parallel V rid items k = (Inr u, h')"
    from advance_via [OF f w parallel_advances [OF k 2 4] ok_works [OF 4 wk.parallel] wk.refl] show ?thesis .
  qed
qed

section \<open>Driving returns\<close>

lemma get_run_there:
  assumes "host_get_run V rid h = (Inr r, k)"
  shows "h_kernel k = h_kernel h" "\<exists>slot. ks_runs (h_kernel h) rid = Some slot \<and> r = rs_run slot" "works V h k"
proof -
  show "works V h k" by (rule ok_works [OF assms [unfolded host_get_run_def] kapi_works])
  from assms [unfolded host_get_run_def] obtain resp s where
    c: "kernel_call (he_ext V) (he_pol V) (he_clock V (h_tick h)) (h_kernel h) (OpGetRun rid (h_ctx h)) = (resp, s)"
    "\<forall>e. resp \<noteq> RError e" "r = as_run resp" "k = (hstep h)\<lparr>h_kernel := s\<rparr>"
    by (rule kapi_ok)
  from c show "h_kernel k = h_kernel h" "\<exists>slot. ks_runs (h_kernel h) rid = Some slot \<and> r = rs_run slot"
    by (auto simp: guarded_def respond_def get_run_def as_run_def split: sum.splits option.splits)
qed

lemma drive_until_idle_returns:
  assumes "fresh_host V h"
  shows "\<exists>res. drive_until_idle V rid h = Some res"
  using assms
proof (induction "steps_left (h_kernel h) rid" arbitrary: h rule: less_induct)
  case less
  obtain x k where g: "host_get_run V rid h = (x, k)" by (metis surj_pair)
  show ?case
  proof (cases x)
    case (Inl e)
    with g show ?thesis by (simp add: drive_until_idle.simps)
  next
    case (Inr r)
    note there = get_run_there [OF g [unfolded Inr]]
    have f: "fresh_host V k" "ks_runs (h_kernel k) rid \<noteq> None"
      using works_fresh [OF there(3) less.prems] there(1,2) by auto
    obtain y l where w: "drive_claim_wave V rid False k = (y, l)" by (metis surj_pair)
    have "\<exists>res. drive_until_idle V rid l = Some res" if "y = Inr True"
    proof (rule less.hyps)
      show "steps_left (h_kernel l) rid < steps_left (h_kernel h) rid"
        using wave_advances [OF f w [unfolded that]] there(1) by (simp add: advances_def)
      show "fresh_host V l" by (rule works_fresh [OF ok_works [OF w wk.wave] f(1)])
    qed
    then show ?thesis using g Inr w by (subst drive_until_idle.simps) (auto split: sum.split)
  qed
qed

lemma drive_with_returns: "fresh_host V h \<Longrightarrow> \<exists>res. drive_with V rid plan h = Some res"
  using drive_until_idle_returns [of V h rid]
  by (cases plan) (auto simp: drive_with_def simp del: split_paired_Ex)

lemma host_inject_returns:
  assumes "fresh_host V h"
  shows "\<exists>res. host_inject V rid input after h = Some res"
proof -
  let ?r = "kapi V h (OpInjectInput \<lparr>iir_run_id = rid, iir_input = Some input\<rparr> (h_ctx h)) as_run"
  obtain x k where r: "?r = (x, k)" by (metis surj_pair)
  then have "fresh_host V k" using works_fresh [OF kapi_works assms] by (metis snd_conv)
  from drive_with_returns [OF this] r show ?thesis
    by (auto simp: host_inject_def split: sum.split drive_after.split)
qed

end
