(* ===== verification/Pipelines.thy ===== *)
theory Pipelines
  imports HostFacts
begin

text \<open>
  What the host promises its callers: what a started pipeline is, that a memo hit commits what was
  recorded and is stored, that the tables of a run go when it ends, and what driving returns.
\<close>

section \<open>Starting a run\<close>

lemma start_run_result:
  assumes ok: "start_run_ctx X now s req ctx = (Inr r, s')" and fresh: "idempotent_get s ''start_run'' ctx = None"
  obtains requested a where "rr_id req \<noteq> []" "ks_runs s (rr_id req) = None" "rr_assembly req = Some requested"
    "materialize_assembly X requested (rr_include_nodes req) = Inr a"
    "validate_assembly X s a (rr_inputs req) = Inr ()"
    "r = new_run req a (limit_or (of_nat (length (as_nodes a))) (map_option lim_max_steps (rr_limits req)))"
    "ks_runs s' = (ks_runs s)(rr_id req \<mapsto> new_slot req r)"
proof -
  from ok fresh obtain requested a where
    c: "rr_id req \<noteq> []" "ks_runs s (rr_id req) = None" "rr_assembly req = Some requested"
      "materialize_assembly X requested (rr_include_nodes req) = Inr a"
      "validate_assembly X s a (rr_inputs req) = Inr ()" and
    r: "r = new_run req a (limit_or (of_nat (length (as_nodes a))) (map_option lim_max_steps (rr_limits req)))" and
    s': "s' = idempotent_put (log_entry X (set_slot s (run_id r) (new_slot req r)) ''run.started'' (run_id r)
       (enc_run X r)) ''start_run'' ctx (IdemRun r)"
    by (auto simp: start_run_ctx_def Let_def split: sum.splits option.splits if_splits)
  have "run_id r = rr_id req" by (simp add: r new_run_def)
  then have "ks_runs s' = (ks_runs s)(rr_id req \<mapsto> new_slot req r)" by (simp add: s' frame set_slot_def)
  with c r show thesis by (rule that)
qed

lemma pipeline_request_fields:
  "rr_id (pipeline_request rid a inputs policy) = rid" "rr_assembly (pipeline_request rid a inputs policy) = Some a"
  "rr_inputs (pipeline_request rid a inputs policy) = inputs" "rr_include_nodes (pipeline_request rid a inputs policy) = []"
  "rr_limits (pipeline_request rid a inputs policy) =
     Some \<lparr>lim_max_steps = resolve_max_steps policy a, lim_max_in_flight = ucast (effective_concurrency policy),
       lim_default_lease_ms = unwrap_or (fp_lease_ms policy) 0, lim_max_attempts = unwrap_or (fp_max_attempts policy) 0\<rparr>"
  "rr_policy (pipeline_request rid a inputs policy) = Some (execution_policy_for policy (Some a))"
  by (simp_all add: pipeline_request_def apply_to_run_request_def Let_def include_nodes_def effective_concurrency_def
      execution_policy_for_def policy_closure_def resolve_max_steps_def default_max_steps_def cong: option.case_cong)

text \<open>
  What is true of the host and of the kernel once a pipeline has started. The limits of the run are
  those of the policy, with the kernel's defaults where the policy names none: a lease of a minute,
  three attempts, one step per node, or ten thousand per node when the run stays open.
\<close>

definition limits_follow :: "framework_policy \<Rightarrow> u64 \<Rightarrow> run_slot \<Rightarrow> bool" where
  "limits_follow p nodes slot \<longleftrightarrow>
     unat (rs_max_in_flight slot) = unat (effective_concurrency p) \<and>
     rs_default_lease_ms slot = (case fp_lease_ms p of None \<Rightarrow> 60000 | Some ms \<Rightarrow> if ms = 0 then 60000 else ms) \<and>
     rs_max_attempts slot = (case fp_max_attempts p of None \<Rightarrow> 3 | Some n \<Rightarrow> if n = 0 then 3 else n) \<and>
     run_max_steps (rs_run slot) =
       (case fp_max_steps p of
          None \<Rightarrow> if policy_closure p = Open then max (u64_saturating_mul nodes 10000) 10000 else nodes
        | Some n \<Rightarrow> if n = 0 then nodes else n)"

definition pipeline_open :: "host_env \<Rightarrow> string \<Rightarrow> assembly \<Rightarrow> named_artifact list \<Rightarrow> framework_policy \<Rightarrow> run \<Rightarrow> host \<Rightarrow> bool" where
  "pipeline_open V rid a inputs policy r h \<longleftrightarrow>
     (\<exists>ac slot. materialize_cut a (fp_nodes policy) = Inr ac \<and> validate_seeds_present ac inputs = Inr () \<and>
        ks_runs (h_kernel h) rid = Some slot \<and> r = rs_run slot \<and> running slot \<and> rs_claimed slot = [] \<and>
        run_assembly r = Some (ac_assembly ac) \<and> run_inputs r = inputs \<and> run_steps r = 0 \<and>
        limits_follow policy (len64 (as_nodes (ac_assembly ac))) slot \<and>
        run_policy r = Some (execution_policy_for policy (Some (ac_assembly ac))) \<and>
        (is_open_closure slot \<longleftrightarrow> policy_closure policy = Open)) \<and>
     h_run_policies h rid = Some policy"

lemma pipeline_limits:
  assumes "r = new_run (pipeline_request rid a inputs policy) a
      (limit_or (of_nat (length (as_nodes a))) (map_option lim_max_steps (rr_limits (pipeline_request rid a inputs policy))))"
  shows "limits_follow policy (len64 (as_nodes a)) (new_slot (pipeline_request rid a inputs policy) r)"
proof -
  have m: "max x (10000 :: u64) \<noteq> 0" for x by (auto simp: max_def)
  show ?thesis
    unfolding limits_follow_def assms
    by (auto simp: new_slot_def new_run_def pipeline_request_fields limit_or_def unat_widen unwrap_or_def len64_def m
        DEFAULT_LEASE_MS_def DEFAULT_MAX_ATTEMPTS_def resolve_max_steps_def default_max_steps_def Let_def
        split: option.split)
qed

lemma start_pipeline_ok:
  assumes "start_pipeline V rid a inputs policy h = (Inr r, h')"
  obtains ac u k1 k2 w k3 where "rid \<noteq> []" "h_run_policies h rid = None"
    "materialize_cut a (fp_nodes policy) = Inr ac" "validate_seeds_present ac inputs = Inr ()"
    "emit_skip_events V rid ac h = (Inr u, k1)"
    "host_start_run V (pipeline_request rid (ac_assembly ac) inputs policy) k1 = (Inr r, k2)"
    "ensure_run_storage V rid policy k2 = (Inr w, k3)"
    "h' = k3\<lparr>h_run_policies := (h_run_policies k3)(rid \<mapsto> policy)\<rparr>"
  using assms by (auto simp: start_pipeline_def hbind_ok split: if_splits sum.splits)

lemma ensure_storage_frame:
  assumes "ensure_run_storage V rid policy h = (x, h')"
  shows "h_kernel h' = h_kernel h" "h_run_policies h' = h_run_policies h"
  using assms by (auto simp: ensure_run_storage_def split: if_splits option.splits prod.splits sum.splits)

lemma pipeline_started:
  assumes f: "fresh_host V h" and ok: "start_pipeline V rid a inputs policy h = (Inr r, h')"
  shows "pipeline_open V rid a inputs policy r h'" "ks_runs (h_kernel h) rid = None"
proof -
  from ok obtain ac u k1 k2 w k3 where
    c: "materialize_cut a (fp_nodes policy) = Inr ac" "validate_seeds_present ac inputs = Inr ()" and
    1: "emit_skip_events V rid ac h = (Inr u, k1)" and
    2: "host_start_run V (pipeline_request rid (ac_assembly ac) inputs policy) k1 = (Inr r, k2)" and
    3: "ensure_run_storage V rid policy k2 = (Inr w, k3)" and
    h': "h' = k3\<lparr>h_run_policies := (h_run_policies k3)(rid \<mapsto> policy)\<rparr>"
    by (rule start_pipeline_ok)
  let ?req = "pipeline_request rid (ac_assembly ac) inputs policy"
  have w1: "works V h k1" by (rule ok_works [OF 1 wk.skips])
  have f1: "fresh_host V k1" by (rule works_fresh [OF w1 f])
  from 2 [unfolded host_start_run_def] obtain resp s where
    k: "kernel_call (he_ext V) (he_pol V) (he_clock V (h_tick k1)) (h_kernel k1) (OpStartRun ?req (h_ctx k1)) = (resp, s)"
      "\<forall>e. resp \<noteq> RError e" "r = as_run resp" "k2 = (hstep k1)\<lparr>h_kernel := s\<rparr>"
    by (rule kapi_ok)
  then have st: "start_run_ctx (he_ext V) (he_clock V (h_tick k1)) (h_kernel k1) ?req (h_ctx k1) = (Inr r, s)"
    by (auto simp: respond_def as_run_def split: prod.splits sum.splits)
  have none: "idempotent_get (h_kernel k1) ''start_run'' (h_ctx k1) = None"
    using f1 by (simp add: idempotent_get_def idempotency_key_def fresh_host_def)
  obtain b m where b: "ks_runs (h_kernel k1) rid = None"
      "materialize_assembly (he_ext V) (ac_assembly ac) [] = Inr b"
      "r = new_run ?req b (limit_or (of_nat (length (as_nodes b))) (map_option lim_max_steps (rr_limits ?req)))"
      "ks_runs s = (ks_runs (h_kernel k1))(rid \<mapsto> new_slot ?req r)"
    by (rule start_run_result [OF st none, unfolded pipeline_request_fields(1-4)]) (simp add: that)
  from b(2) have b2: "b = ac_assembly ac" by (simp add: materialize_assembly_def)
  note r = b(1) b(3) [unfolded b2]
  have slot: "ks_runs s rid = Some (new_slot ?req r)" using b(4) by simp
  have hk: "h_kernel h' = s" using h' ensure_storage_frame(1) [OF 3] k(4) by simp
  show "ks_runs (h_kernel h) rid = None" using works_left(2) [OF f w1] r(1) by blast
  let ?slot = "new_slot ?req r"
  have run: "rs_run ?slot = r" "run_assembly r = Some (ac_assembly ac)" "run_inputs r = inputs" "run_steps r = 0"
    "run_state r = Running" "run_policy r = Some (execution_policy_for policy (Some (ac_assembly ac)))"
    by (simp_all add: new_slot_def r(2) new_run_def pipeline_request_fields)
  have "limits_follow policy (len64 (as_nodes (ac_assembly ac))) ?slot" by (rule pipeline_limits [OF r(2)])
  moreover have "is_open_closure ?slot \<longleftrightarrow> policy_closure policy = Open"
    by (rule policy_open) (simp add: run(1,6))
  moreover have "running ?slot" "rs_claimed ?slot = []" by (simp_all add: running_def run new_slot_def)
  ultimately show "pipeline_open V rid a inputs policy r h'"
    using c slot hk run h' by (auto simp: pipeline_open_def)
qed


section \<open>Memo hits\<close>

lemma get_artifact_call:
  "kapi V h (OpGetArtifact r (h_ctx h)) as_artifact = (Inr art, k) \<Longrightarrow>
     ks_artifacts (h_kernel h) (aref_id r) = Some art \<and> h_kernel k = h_kernel h \<and> h_ctx k = h_ctx h"
  by (erule kapi_ok)
    (auto simp: guarded_def respond_def get_artifact_def as_artifact_def hstep_def split: sum.splits option.splits)

lemma all_stored_ok:
  assumes "all_stored V nas h = (True, k)"
  shows "\<forall>na \<in> set nas. \<exists>r art. na_artifact na = Some r \<and> ks_artifacts (h_kernel h) (aref_id r) = Some art"
  using assms
proof (induction nas arbitrary: h)
  case (Cons na nas)
  then obtain r where r: "na_artifact na = Some r" by (auto split: option.splits)
  with Cons.prems obtain art l where c: "kapi V h (OpGetArtifact r (h_ctx h)) as_artifact = (Inr art, l)"
    and l: "all_stored V nas l = (True, k)"
    by (auto split: prod.splits sum.splits)
  from Cons.IH [OF l] get_artifact_call [OF c] r show ?case by simp
qed simp

lemma all_stored_total:
  assumes "cx_deadline_unix_ms (h_ctx h) \<le> 0"
    and "\<forall>na \<in> set nas. \<exists>r. na_artifact na = Some r \<and> ks_artifacts (h_kernel h) (aref_id r) \<noteq> None"
  shows "fst (all_stored V nas h)"
  using assms
proof (induction nas arbitrary: h)
  case (Cons na nas)
  then obtain r art where r: "na_artifact na = Some r" "ks_artifacts (h_kernel h) (aref_id r) = Some art" by auto
  then have "kapi V h (OpGetArtifact r (h_ctx h)) as_artifact = (Inr art, hstep h)"
    using Cons.prems(1)
    by (simp add: kapi_def guarded_def check_deadline_def respond_def get_artifact_def as_artifact_def hstep_def)
  with r Cons.IH [of "hstep h"] Cons.prems show ?case by (simp add: hstep_def)
qed simp

text \<open>A hit: the plan allows it, the record was put under the key of this unit, and it is still stored.\<close>

definition memo_hit_for ::
  "host_env \<Rightarrow> host \<Rightarrow> string \<Rightarrow> string \<Rightarrow> work_item \<Rightarrow> string \<Rightarrow> named_artifact list \<Rightarrow> string \<Rightarrow> bool" where
  "memo_hit_for V h rid module work key outputs src \<longleftrightarrow>
     memo_applies h rid (wi_node_id work) \<and>
     (\<exists>digest store record. module_digest_of h module = Some digest \<and> h_memo h = Some store \<and>
        key = work_memo_key V module work digest \<and> memo_get store key = Some record \<and>
        outputs = record_to_named_outputs record \<and> src = mr_source_run_id record) \<and>
     (\<forall>na \<in> set outputs. \<exists>r art. na_artifact na = Some r \<and> ks_artifacts (h_kernel h) (aref_id r) = Some art)"

lemma memo_hit_sound:
  assumes "try_memo_hit V rid module work h = (Inr (Some (key, outputs, src)), h')"
  shows "memo_hit_for V h rid module work key outputs src"
proof -
  have app: "memo_applies h rid (wi_node_id work)"
    using assms by (auto simp: try_memo_hit_def split: if_splits)
  with assms obtain digest where d: "module_digest_of h module = Some digest"
    by (auto simp: try_memo_hit_def split: option.splits)
  with app assms obtain store where m: "h_memo h = Some store"
    by (auto simp: try_memo_hit_def split: option.splits)
  let ?key = "work_memo_key V module work digest"
  from app d m assms obtain rec where r: "memo_get store ?key = Some rec"
    by (auto simp: try_memo_hit_def Let_def split: option.splits)
  obtain st k where k: "all_stored V (record_to_named_outputs rec) (hstep h) = (st, k)" by (metis surj_pair)
  with app d m r assms have res: "st" "key = ?key" "outputs = record_to_named_outputs rec" "src = mr_source_run_id rec"
    by (auto simp: try_memo_hit_def Let_def split: if_splits)
  have "\<forall>na \<in> set outputs. \<exists>r art. na_artifact na = Some r \<and> ks_artifacts (h_kernel h) (aref_id r) = Some art"
    using all_stored_ok [of V outputs "hstep h" k] k res by (simp add: hstep_def)
  with app d m r res show ?thesis by (auto simp: memo_hit_for_def)
qed

text \<open>What a successful step stores is what a later hit of the same key finds.\<close>

lemma memo_stored:
  assumes "memo_applies h rid (wi_node_id work)" "module_digest_of h module = Some digest" "h_memo h = Some store"
    and "store_memo_after_success V rid module work outputs h = (x, h')"
  shows "\<exists>store'. h_memo h' = Some store' \<and>
    memo_get store' (work_memo_key V module work digest) =
      Some (build_record (work_memo_key V module work digest) work digest outputs rid)"
proof -
  let ?r = "build_record (work_memo_key V module work digest) work digest outputs rid"
  have key: "mr_key ?r = work_memo_key V module work digest" by (simp add: build_record_def)
  from assms have "h_memo h' = Some (memo_put store ?r)" by (auto simp: store_memo_after_success_def)
  then show ?thesis using mm.get_put [of store ?r "work_memo_key V module work digest"] key by simp
qed

lemma memo_replayed:
  assumes "store_memo_after_success V rid module work outputs h = (x, h1)"
    and "memo_applies h rid (wi_node_id work)" "module_digest_of h module = Some d" "h_memo h \<noteq> None"
    and "list_all proper outputs" "distinct (map na_name outputs)" "h_memo h2 = h_memo h1"
    and "\<forall>na \<in> set outputs. \<forall>r. na_artifact na = Some r \<longrightarrow> ks_artifacts (h_kernel h2) (aref_id r) \<noteq> None"
    and "memo_applies h2 rid2 (wi_node_id work2)" "module_digest_of h2 module = Some d"
    and "wi_module_version work2 = wi_module_version work" "wi_capability work2 = wi_capability work"
    and "input_fingerprint_map work2 = input_fingerprint_map work" "cx_deadline_unix_ms (h_ctx h2) \<le> 0"
  shows "\<exists>outs h3. try_memo_hit V rid2 module work2 h2 =
    (Inr (Some (work_memo_key V module work2 d, outs, rid)), h3) \<and> set outs = set outputs"
proof -
  let ?key = "work_memo_key V module work d"
  let ?rec = "build_record ?key work d outputs rid"
  let ?outs = "record_to_named_outputs ?rec"
  have key: "work_memo_key V module work2 d = ?key" using assms(11-13) by (simp add: work_memo_key_def)
  obtain store where "h_memo h = Some store" using assms(4) by blast
  from memo_stored [OF assms(2,3) this assms(1)] obtain store' where m: "h_memo h2 = Some store'" "memo_get store' ?key = Some ?rec"
    using assms(7) by auto
  have outs: "set ?outs = set outputs" by (rule named_outputs_build [OF assms(5,6)])
  then have "\<forall>na \<in> set ?outs. \<exists>r. na_artifact na = Some r \<and> ks_artifacts (h_kernel h2) (aref_id r) \<noteq> None"
    using assms(5,8) by (fastforce simp: list_all_iff proper_def split: option.splits)
  then have "fst (all_stored V ?outs (hstep h2))"
    using all_stored_total [of "hstep h2" ?outs V] assms(14) by (simp add: hstep_def)
  then obtain h3 where st: "all_stored V ?outs (hstep h2) = (True, h3)" by (metis prod.collapse)
  have "\<not> (?outs = [] \<and> mr_outputs ?rec \<noteq> [])" by (simp add: record_to_named_outputs_def)
  with assms(9,10) m st key have "try_memo_hit V rid2 module work2 h2 =
      (Inr (Some (?key, ?outs, mr_source_run_id ?rec)), h3)"
    by (simp add: try_memo_hit_def Let_def)
  with outs key show ?thesis by (simp add: build_record_def)
qed

section \<open>The tables of a run\<close>

lemma ensure_storage_tables:
  assumes "ensure_run_storage V rid policy h = (Inr w, h')" "storage_enabled (fp_storage policy)"
  obtains b b' where "h_storage h = Some b" "h_storage h' = Some b'"
    "ensure_all ensure_table b (run_tables V h rid (fp_storage policy)) =
       (Inr (map qt_physical_name (run_tables V h rid (fp_storage policy))), b')"
    "h_run_tables h' rid = (if run_tables V h rid (fp_storage policy) = [] then h_run_tables h rid
       else Some (map qt_physical_name (run_tables V h rid (fp_storage policy))))"
proof -
  from assms obtain b where b: "h_storage h = Some b" by (auto simp: ensure_run_storage_def split: option.splits)
  obtain x b' where e: "ensure_all ensure_table b (run_tables V h rid (fp_storage policy)) = (x, b')" by (metis surj_pair)
  with assms b obtain names where x: "x = Inr names" by (cases x) (auto simp: ensure_run_storage_def)
  have names: "names = map qt_physical_name (run_tables V h rid (fp_storage policy))"
    using mem.ensure_all_rows [OF e] x by simp
  show thesis
    by (rule that [OF b, of b']) (use assms b e x names in \<open>auto simp: ensure_run_storage_def\<close>)
qed

lemma run_tables_config:
  "h_storage_schemas k = h_storage_schemas h \<Longrightarrow> run_tables V k rid plan = run_tables V h rid plan"
  by (simp add: run_tables_def)

lemma pipeline_tables:
  assumes ok: "start_pipeline V rid a inputs policy h = (Inr r, h')"
    and on: "storage_enabled (fp_storage policy)" "run_tables V h rid (fp_storage policy) \<noteq> []"
  shows "h_run_tables h' rid = Some (map qt_physical_name (run_tables V h rid (fp_storage policy)))"
    "\<exists>b. h_storage h' = Some b \<and> (\<forall>q \<in> set (run_tables V h rid (fp_storage policy)). b (qt_physical_name q) \<noteq> None)"
proof -
  from ok obtain ac u k1 k2 w k3 where
    1: "emit_skip_events V rid ac h = (Inr u, k1)" and
    2: "host_start_run V (pipeline_request rid (ac_assembly ac) inputs policy) k1 = (Inr r, k2)" and
    3: "ensure_run_storage V rid policy k2 = (Inr w, k3)" and
    h': "h' = k3\<lparr>h_run_policies := (h_run_policies k3)(rid \<mapsto> policy)\<rparr>"
    by (rule start_pipeline_ok)
  have w: "works V h k2"
    by (rule wk.trans [OF ok_works [OF 1 wk.skips] ok_works [OF 2 [unfolded host_start_run_def] kapi_works]])
  then have same: "run_tables V k2 rid (fp_storage policy) = run_tables V h rid (fp_storage policy)"
    by (intro run_tables_config) (simp add: works_def same_config_def)
  from ensure_storage_tables [OF 3 on(1), unfolded same] obtain b b' where
    b: "h_storage k3 = Some b'"
      "ensure_all ensure_table b (run_tables V h rid (fp_storage policy)) =
         (Inr (map qt_physical_name (run_tables V h rid (fp_storage policy))), b')"
      "h_run_tables k3 rid = (if run_tables V h rid (fp_storage policy) = [] then h_run_tables k2 rid
         else Some (map qt_physical_name (run_tables V h rid (fp_storage policy))))"
    by blast
  from b(3) on(2) h' show "h_run_tables h' rid = Some (map qt_physical_name (run_tables V h rid (fp_storage policy)))"
    by simp
  show "\<exists>b. h_storage h' = Some b \<and> (\<forall>q \<in> set (run_tables V h rid (fp_storage policy)). b (qt_physical_name q) \<noteq> None)"
    using mem.ensure_all_rows [OF b(2)] b(1) h' by (simp add: table_rows_def)
qed

lemma finish_drops:
  assumes "run_plan h rid = Some plan" "sp_retention plan = DropOnEnd" "sp_mode plan = PerRun"
    and "h_run_tables h rid = Some tables" "h_storage h = Some b"
  shows "\<exists>b'. h_storage (finish_run_storage rid h) = Some b' \<and> (\<forall>t. b' t = (if t \<in> set tables then None else b t))"
proof -
  have "fold (\<lambda>t b. drop_table b t) ts m t = (if t \<in> set ts then None else m t)" for ts m t
    by (induction ts arbitrary: m) (auto simp: drop_table_def)
  then show ?thesis using assms by (simp add: finish_run_storage_def drops_tables_def)
qed

section \<open>What driving returns\<close>

text \<open>The last claim that the host made for a run, with the modules of its policy, came back empty.\<close>

definition quiet :: "host_env \<Rightarrow> string \<Rightarrow> host \<Rightarrow> bool" where
  "quiet V rid h \<longleftrightarrow>
     (\<exists>now s. claim_ready (he_ext V) now s (wave_claim V h rid False) = (Inr [], h_kernel h))"

lemma wave_claim_cong:
  "h_run_policies h = h_run_policies k \<Longrightarrow> h_plugins h = h_plugins k \<Longrightarrow> wave_claim V h rid b = wave_claim V k rid b"
proof -
  assume e: "h_run_policies h = h_run_policies k" "h_plugins h = h_plugins k"
  then have "claim_module_names V h rid = claim_module_names V k rid" by (simp add: claim_module_names_def)
  with e show ?thesis by (simp add: wave_claim_def wave_size_def wave_concurrency_def split: option.split)
qed

lemma wave_claim_frame [simp]: "wave_claim V ((hstep h)\<lparr>h_kernel := s\<rparr>) rid b = wave_claim V h rid b"
  by (rule wave_claim_cong) (simp_all add: hstep_def)

lemma quiet_get_run: "quiet V rid h \<Longrightarrow> host_get_run V rid h = (Inr r, k) \<Longrightarrow> quiet V rid k"
proof -
  assume q: "quiet V rid h" and g: "host_get_run V rid h = (Inr r, k)"
  obtain resp s where "k = (hstep h)\<lparr>h_kernel := s\<rparr>" using g unfolding host_get_run_def by (rule kapi_ok)
  with q get_run_there(1) [OF g] show ?thesis by (simp add: quiet_def)
qed

lemma idle_wave:
  assumes "drive_claim_wave V rid False h = (Inr False, k)"
  shows "quiet V rid k"
proof -
  have "kapi V h (OpClaimReady (wave_claim V h rid False) (h_ctx h)) as_items = (Inr [], k)"
    using assms by (auto simp: drive_claim_wave_def Let_def hbind_ok split: if_splits)
  then obtain resp s where c: "kernel_call (he_ext V) (he_pol V) (he_clock V (h_tick h)) (h_kernel h)
      (OpClaimReady (wave_claim V h rid False) (h_ctx h)) = (resp, s)"
    "\<forall>e. resp \<noteq> RError e" "[] = as_items resp" "k = (hstep h)\<lparr>h_kernel := s\<rparr>"
    by (rule kapi_ok)
  then have "claim_ready (he_ext V) (he_clock V (h_tick h)) (h_kernel h) (wave_claim V h rid False) = (Inr [], s)"
    by (auto simp: guarded_def respond_def as_items_def split: sum.splits prod.splits)
  with c(4) show ?thesis by (auto simp: quiet_def)
qed

lemma drive_until_idle_run:
  assumes "drive_until_idle V rid h = Some (Inr r, h')"
  shows "(\<exists>slot. ks_runs (h_kernel h') rid = Some slot \<and> r = rs_run slot) \<and> (run_state r = Running \<longrightarrow> quiet V rid h')"
proof -
  let ?Q = "\<lambda>V rid r h. (\<exists>slot. ks_runs (h_kernel h) rid = Some slot \<and> r = rs_run slot) \<and> (run_state r = Running \<longrightarrow> quiet V rid h)"
  let ?P = "\<lambda>V rid h (res :: run hres). \<forall>r. fst res = Inr r \<longrightarrow> ?Q V rid r (snd res)"
  have "?P V rid h (Inr r, h')"
  proof (rule drive_until_idle.raw_induct [where P = ?P, OF _ assms])
    fix loop V rid h res
    assume IH: "\<And>V rid h res. loop V rid h = Some res \<Longrightarrow> ?P V rid h res"
      and c: "(case host_get_run V rid h of
        (Inl e, h) \<Rightarrow> Some (Inl e, h)
      | (Inr r, h) \<Rightarrow>
          if run_state r \<noteq> Running then Some (Inr r, h)
          else (case drive_claim_wave V rid False h of
                  (Inl e, h) \<Rightarrow> Some (Inl e, h)
                | (Inr progressed, h) \<Rightarrow> if progressed then loop V rid h else Some (host_get_run V rid h))) = Some res"
    obtain x k where g: "host_get_run V rid h = (x, k)" by (metis surj_pair)
    obtain y l where w: "drive_claim_wave V rid False k = (y, l)" by (metis surj_pair)
    show "?P V rid h res"
    proof (cases x)
      case (Inl e)
      with c g show ?thesis by auto
    next
      case (Inr v)
      have "res = (Inr v, k) \<and> run_state v \<noteq> Running \<or> (\<exists>e. res = (Inl e, l)) \<or> loop V rid l = Some res \<or>
          y = Inr False \<and> res = host_get_run V rid l"
        using c g w Inr by (cases y) (auto split: if_splits)
      then consider "res = (Inr v, k)" "run_state v \<noteq> Running" | e where "res = (Inl e, l)" | "loop V rid l = Some res" |
          "y = Inr False" "res = host_get_run V rid l" by blast
      then show ?thesis
      proof cases
        case 1
        with get_run_there [OF g [unfolded Inr]] show ?thesis by simp
      next
        case 4
        then have "quiet V rid l" using idle_wave w by simp
        with 4(2) show ?thesis
          using get_run_there(1,2) [of V rid l] quiet_get_run by (cases "host_get_run V rid l") auto
      qed (use IH in auto)
    qed
  qed
  then show ?thesis by simp
qed

lemma one_pass_run:
  assumes "drive_one_pass V rid h = (Inr r, h')"
  shows "\<exists>slot. ks_runs (h_kernel h') rid = Some slot \<and> r = rs_run slot"
proof -
  have "\<exists>slot. ks_runs (h_kernel l) rid = Some slot \<and> v = rs_run slot" if "host_get_run V rid k = (Inr v, l)" for v k l
    using get_run_there [OF that] by auto
  with assms show ?thesis by (auto simp: drive_one_pass_def hbind_ok split: if_splits)
qed

lemma finish_run_kernel [simp]: "h_kernel (finish_run_storage rid h) = h_kernel h"
  by (simp add: finish_run_storage_def)

lemma finish_if_ended_ok:
  "finish_if_ended rid res = (Inr r, h') \<longleftrightarrow>
     (\<exists>k. res = (Inr r, k) \<and> h' = (if run_state r \<noteq> Running then finish_run_storage rid k else k))"
proof (cases res)
  case (Pair x k)
  then show ?thesis by (cases x) (auto simp: finish_if_ended_def)
qed

text \<open>
  What the end of a run leaves of it in the host, and what any other return of the drive leaves.
\<close>

definition run_gone :: "string \<Rightarrow> host \<Rightarrow> host \<Rightarrow> bool" where
  "run_gone rid h h' \<longleftrightarrow>
     h_run_policies h' = (h_run_policies h)(rid := None) \<and> h_run_tables h' = (h_run_tables h)(rid := None) \<and>
     (\<forall>t. let dropped = (\<exists>p ts. h_run_policies h rid = Some p \<and> sp_mode (fp_storage p) = PerRun \<and>
            sp_retention (fp_storage p) = DropOnEnd \<and> h_run_tables h rid = Some ts \<and> t \<in> set ts)
        in (dropped \<longrightarrow> \<not> has_table h' t) \<and> (\<not> dropped \<longrightarrow> has_table h t \<longrightarrow> has_table h' t))"

definition run_kept :: "host \<Rightarrow> host \<Rightarrow> bool" where
  "run_kept h h' \<longleftrightarrow>
     h_run_policies h' = h_run_policies h \<and> h_run_tables h' = h_run_tables h \<and> keeps_tables h h'"

lemma finish_gone: "run_gone rid h (finish_run_storage rid h)"
proof -
  have "fold (\<lambda>t b. drop_table b t) ts m t = (if t \<in> set ts then None else m t)" for ts m t
    by (induction ts arbitrary: m) (auto simp: drop_table_def)
  then show ?thesis
    by (auto simp: run_gone_def finish_run_storage_def drops_tables_def run_plan_def has_table_def Let_def
        split: option.splits)
qed

lemma kept_gone: "run_kept h k \<Longrightarrow> run_gone rid k h' \<Longrightarrow> run_gone rid h h'"
  by (auto simp: run_kept_def run_gone_def keeps_tables_def Let_def)

lemma drive_with_run:
  assumes "drive_with V rid plan h = Some (res, h')"
  shows "case res of
      Inl e \<Rightarrow> run_kept h h'
    | Inr r \<Rightarrow> (\<exists>slot. ks_runs (h_kernel h') rid = Some slot \<and> r = rs_run slot) \<and>
        (if run_state r = Running then run_kept h h' \<and> (plan \<noteq> OnePass \<longrightarrow> quiet V rid h') else run_gone rid h h')"
proof -
  obtain res0 where r0: "plan = OnePass \<and> res0 = drive_one_pass V rid h \<or> plan \<noteq> OnePass \<and> drive_until_idle V rid h = Some res0"
      "(res, h') = finish_if_ended rid res0"
    using assms by (cases plan) (auto simp: drive_with_def)
  obtain x k where res0: "res0 = (x, k)" by (cases res0)
  have "works V h (snd res0)" "keeps_tables h (snd res0)"
    using r0(1) wk.one_pass [of V h rid] wk.until_idle [of V rid h res0] kt.one_pass [of h V rid] kt.until_idle [of V rid h res0]
    by auto
  then have kept: "run_kept h k" by (simp add: res0 works_def run_kept_def)
  show ?thesis
  proof (cases x)
    case (Inl e)
    with r0(2) res0 kept show ?thesis by (simp add: finish_if_ended_def)
  next
    case (Inr r)
    have slot: "\<exists>slot. ks_runs (h_kernel k) rid = Some slot \<and> r = rs_run slot"
      and quiet: "run_state r = Running \<longrightarrow> plan \<noteq> OnePass \<longrightarrow> quiet V rid k"
      using r0(1) res0 Inr drive_until_idle_run [of V rid h r k] one_pass_run [of V rid h r k] by auto
    from r0(2) res0 Inr have e: "res = Inr r" "h' = (if run_state r \<noteq> Running then finish_run_storage rid k else k)"
      by (simp_all add: finish_if_ended_def)
    show ?thesis
      using slot quiet kept kept_gone [OF kept finish_gone] e by simp
  qed
qed

section \<open>Resuming\<close>

text \<open>The output of a port that a resumed run takes from the prior one, and the inputs it is given.\<close>

definition prior_output :: "kstate \<Rightarrow> string \<Rightarrow> string \<Rightarrow> string \<Rightarrow> named_artifact option" where
  "prior_output s rid node pname =
     Option.bind (latest_of (filter (\<lambda>d. dv_run_id d = rid) (ks_derivations s)) node)
       (\<lambda>d. find (\<lambda>v. na_name v = pname) (dv_outputs d))"

definition resume_inputs :: "named_artifact list \<Rightarrow> named_artifact list \<Rightarrow> named_artifact list" where
  "resume_inputs inputs seeds = merge_inputs (filter (\<lambda>i. \<not> is_seed_input_name (na_name i)) inputs) seeds"

lemma resumed_input:
  assumes "seeds_from_run now s rid ns ctx = Inr seeds" "m \<in> set ns" "p \<noteq> []" "\<forall>x \<in> set ns. CHR ''/'' \<notin> set x"
  shows "find (\<lambda>i. na_name i = seed_input_name m p) (resume_inputs inputs seeds) =
      map_option (\<lambda>v. \<lparr>na_name = seed_input_name m p, na_artifact = na_artifact v\<rparr>) (prior_output s rid m p)"
    and "prior_output s rid m p = Some v \<Longrightarrow> na_artifact v \<noteq> None"
proof -
  have b: "\<forall>i \<in> set (filter (\<lambda>i. \<not> is_seed_input_name (na_name i)) inputs). \<not> is_seed_input_name (na_name i)" by simp
  let ?f = "find (\<lambda>i. na_name i = seed_input_name m p) (resume_inputs inputs seeds)"
  have ex: "(\<exists>w. ?f = Some w) \<longleftrightarrow> prior_output s rid m p \<noteq> None"
    using resumed_seed(1) [OF assms b] unfolding resume_inputs_def prior_output_def by (auto simp: bind_eq_Some_conv)
  have val: "na_artifact v \<noteq> None \<and> w = \<lparr>na_name = seed_input_name m p, na_artifact = na_artifact v\<rparr>"
    if "?f = Some w" "prior_output s rid m p = Some v" for w v
    using resumed_seed(2) [OF assms b] that unfolding resume_inputs_def prior_output_def by (auto simp: bind_eq_Some_conv)
  show "?f = map_option (\<lambda>v. \<lparr>na_name = seed_input_name m p, na_artifact = na_artifact v\<rparr>) (prior_output s rid m p)"
    using ex val by (cases "prior_output s rid m p"; cases ?f) auto
  show "na_artifact v \<noteq> None" if "prior_output s rid m p = Some v" using ex val that by auto
qed

text \<open>The seeds a cut requires are those of the edges that cross into the kept nodes.\<close>

lemma required_crossing:
  assumes "materialize_cut a (AfterNode n) = Inr ac"
    and "\<forall>b \<in> set (as_bindings a). bd_input b = [] \<longrightarrow> bd_from_node b \<in> an_id ` set (as_nodes a)"
  shows "(\<forall>sd \<in> set (ac_required_seeds ac). ss_input_name sd = seed_input_name (ss_from_node sd) (ss_from_port sd))"
    "(\<lambda>sd. (ss_from_node sd, ss_from_port sd)) ` set (ac_required_seeds ac) =
       (\<lambda>b. (bd_from_node b, bd_from_port b)) ` {b \<in> set (as_bindings a). crossing (set (ac_kept_node_ids ac)) b}"
    "\<And>b. b \<in> set (as_bindings a) \<Longrightarrow> crossing (set (ac_kept_node_ids ac)) b \<Longrightarrow> bd_from_node b \<in> set (frontier_nodes ac n)"
    "set (frontier_nodes ac n) \<subseteq> an_id ` set (as_nodes a)"
proof -
  show "\<forall>sd \<in> set (ac_required_seeds ac). ss_input_name sd = seed_input_name (ss_from_node sd) (ss_from_port sd)"
    using assms(1) by (cases rule: materialize_cut_cases) (auto simp: seeds_ok_def)
  have K: "K \<subseteq> an_id ` set (as_nodes a) \<and> n \<in> an_id ` set (as_nodes a)" if "resolve_kept_nodes a (AfterNode n) = Inr K" for K
    using that unfolding resolve_kept_iff by (auto simp: kept_by_def)
  have kept: "set (map an_id (filter (\<lambda>n. an_id n \<in> K) (as_nodes a))) = K"
    if "resolve_kept_nodes a (AfterNode n) = Inr K" for K
    using K [OF that] by auto
  have front: "set (frontier_nodes ac n) = insert n (sk_node_id ` set (ac_skipped ac))"
    by (auto simp: frontier_nodes_def Let_def list_ex_iff image_iff)
  show "(\<lambda>sd. (ss_from_node sd, ss_from_port sd)) ` set (ac_required_seeds ac) =
       (\<lambda>b. (bd_from_node b, bd_from_port b)) ` {b \<in> set (as_bindings a). crossing (set (ac_kept_node_ids ac)) b}"
    using assms(1)
  proof (cases rule: materialize_cut_cases)
    case (full K)
    then show ?thesis using assms(2) by (auto simp: crossing_def)
  next
    case (cut K seeds)
    have "(\<lambda>sd. (ss_from_node sd, ss_from_port sd)) ` set (ac_required_seeds ac) = fst ` set seeds"
      using cut(4) by (force simp: cut(7) image_image seeds_ok_def)
    then show ?thesis using kept [OF cut(1)] unfolding cut(5,9) by auto
  qed
  show "bd_from_node b \<in> set (frontier_nodes ac n)"
    if "b \<in> set (as_bindings a)" "crossing (set (ac_kept_node_ids ac)) b" for b
    using assms(1)
  proof (cases rule: materialize_cut_cases)
    case (full K)
    then show ?thesis using that assms(2) by (auto simp: crossing_def)
  next
    case (cut K seeds)
    have "crossing K b" using that(2) unfolding cut(9) kept [OF cut(1)] .
    with that(1) assms(2) obtain x where "x \<in> set (as_nodes a)" "bd_from_node b = an_id x" "an_id x \<notin> K"
      by (auto simp: crossing_def)
    then show ?thesis unfolding front cut(8) by (auto simp: skip_node_def image_image)
  qed
  show "set (frontier_nodes ac n) \<subseteq> an_id ` set (as_nodes a)"
    using assms(1)
    by (cases rule: materialize_cut_cases) (use K in \<open>auto simp: front skip_node_def\<close>)
qed
end
