(* ===== verification/HostMachine.thy ===== *)
theory HostMachine
  imports Pipelines
begin

text \<open>
  The host as a machine: a step is one call of its public operations, whatever the arguments, the
  plugins and the errors. Every step moves the kernel by kernel calls, so that what holds of every
  reachable kernel holds under the host.
\<close>

inductive host_step :: "host_env \<Rightarrow> host \<Rightarrow> host \<Rightarrow> bool" for V where
  register: "host_step V h (snd (register_plugin V h p))"
| pipeline: "host_step V h (snd (start_pipeline V rid a inputs policy h))"
| resume: "host_step V h (snd (resume_after V new_id prior node policy h))"
| start: "host_step V h (snd (host_start_run V req h))"
| get: "host_step V h (snd (host_get_run V rid h))"
| inject: "host_inject V rid input after h = Some res \<Longrightarrow> host_step V h (snd res)"
| cancel: "host_step V h (snd (host_cancel V rid h))"
| driven: "drive_with V rid plan h = Some res \<Longrightarrow> host_step V h (snd res)"
| policy_driven: "drive V rid h = Some res \<Longrightarrow> host_step V h (snd res)"
| single: "host_step V h (snd (try_step V rid module h))"
| events: "host_step V h (snd (take_step_events h))"
| memo_edit: "host_step V h (h\<lparr>h_memo := map_option f (h_memo h)\<rparr>)"
| storage_edit: "host_step V h (h\<lparr>h_storage := map_option g (h_storage h)\<rparr>)"

lemma register_kernel: "kernel_moves V (h_kernel h) (h_kernel (snd (register_plugin V h p)))"
proof -
  have "kernel_moves V s (snd (register_ctx (he_ext V) s m ctx))" for s m ctx
    using kernel_moves_call [of V s 0 "OpRegister m ctx"] by simp
  then show ?thesis
    by (auto simp: register_plugin_def Let_def kapi_host kstep_host_def hstep_def split: option.split)
qed

lemma register_context: "h_ctx (snd (register_plugin V h p)) = h_ctx h"
  by (auto simp: register_plugin_def Let_def kapi_host kstep_host_def hstep_def split: option.split)

lemma runs_on_kernel: "runs_on V h h' \<Longrightarrow> kernel_moves V (h_kernel h) (h_kernel h') \<and> h_ctx h' = h_ctx h"
  by (simp add: runs_on_def same_config_def)

lemma host_step_kernel:
  assumes "host_step V h h'"
  shows "kernel_moves V (h_kernel h) (h_kernel h') \<and> h_ctx h' = h_ctx h"
  using assms
proof cases
  case (register p)
  then show ?thesis by (simp add: register_kernel register_context)
next
  case (start req)
  then show ?thesis using runs_on_kernel [OF kapi_runs] by (simp add: host_start_run_def)
next
  case (inject rid input after res)
  then show ?thesis using runs_on_kernel [OF host_inject_runs] by blast
next
  case (driven rid plan res)
  then show ?thesis using runs_on_kernel [OF drive_with_runs] by blast
next
  case (policy_driven rid res)
  then show ?thesis using runs_on_kernel [OF drive_with_runs] unfolding drive_def by blast
qed (simp_all add: take_step_events_def runs_on_kernel [OF start_pipeline_runs] runs_on_kernel [OF resume_after_runs]
      runs_on_kernel [OF get_run_runs] runs_on_kernel [OF cancel_runs] runs_on_kernel [OF try_step_runs])

text \<open>A machine from any host.\<close>

lemma host_steps_kernel: "(host_step V)\<^sup>*\<^sup>* h h' \<Longrightarrow> kernel_moves V (h_kernel h) (h_kernel h') \<and> h_ctx h' = h_ctx h"
proof (induction rule: rtranclp_induct)
  case (step k l)
  then show ?case using host_step_kernel [OF step.hyps(2)] kernel_moves_trans by metis
qed simp

lemma host_steps_fresh: "(host_step V)\<^sup>*\<^sup>* h h' \<Longrightarrow> fresh_host V h \<Longrightarrow> fresh_host V h'"
  using host_steps_kernel kernel_moves_reachable by (fastforce simp: fresh_host_def)

text \<open>An error keeps what was done before it; the kernel it leaves is one of the kernels on the way.\<close>

lemma host_steps_le:
  assumes "documented (he_ext V)" "reachable (he_ext V) (he_pol V) (h_kernel h)" "(host_step V)\<^sup>*\<^sup>* h h'"
  shows "reachable (he_ext V) (he_pol V) (h_kernel h')" "kernel_le (he_ext V) (h_kernel h) (h_kernel h')"
proof -
  note k = host_steps_kernel [OF assms(3), THEN conjunct1]
  show "reachable (he_ext V) (he_pol V) (h_kernel h')" using kernel_moves_reachable [OF assms(2) k] .
  show "kernel_le (he_ext V) (h_kernel h) (h_kernel h')"
    using reachable_le [OF assms(1,2)] k by (simp add: kernel_moves_def)
qed

end
