(* ===== verification/Sample.thy ===== *)
theory Sample
  imports Kernel
begin

text \<open>
  A concrete instance of the code outside the repository and a short session with the kernel, on
  which the theorems are applied: a module with one capability, one stored artifact, one run of a
  single node, its claim and its commit.
\<close>

definition sample_ext :: ext where
  "sample_ext = \<lparr>sha256 = (\<lambda>bs. take 32 (rev bs @ replicate 32 0)), enc_manifest = (\<lambda>_. [1]), enc_artifact = (\<lambda>_. [2]),
     enc_blob_ref = (\<lambda>_. [3]), enc_contract = (\<lambda>_. [4]), enc_event = (\<lambda>_. [5]), enc_run = (\<lambda>_. [6]),
     enc_named_artifact = (\<lambda>_. [7]), enc_work_item = (\<lambda>_. [8]), enc_work_failure = (\<lambda>_. [9]),
     enc_derivation = (\<lambda>_. [10]), hash_order = (\<lambda>ks. ks)\<rparr>"

lemma sample_documented: "documented sample_ext"
  by (simp add: documented_def digest_32_def order_permutes_def sample_ext_def min_def)

definition sample_policy :: artifact_store_policy where
  "sample_policy = \<lparr>asp_max_inline_bytes = 1048576, asp_max_blob_bytes = 0, asp_ingest_mode = 1, asp_durability = 1\<rparr>"

definition sample_artifact :: artifact where
  "sample_artifact = artifact_of_traits [(''t'', \<lparr>tr_body = [7], tr_object = None\<rparr>)]"

definition sample_ref :: artifact_ref where
  "sample_ref = \<lparr>aref_id = artifact_id_of sample_ext sample_artifact\<rparr>"

definition sample_manifest :: module_manifest where
  "sample_manifest = \<lparr>mm_name = ''m'', mm_version = ''1'', mm_provides =
     [\<lparr>cap_name = ''c'',
       cap_inputs = [\<lparr>port_name = ''in'', port_multiple = False, port_optional = False, port_key = False,
                      port_traits = [''t'']\<rparr>],
       cap_outputs = [\<lparr>port_name = ''out'', port_multiple = False, port_optional = False, port_key = False,
                       port_traits = [''t'']\<rparr>], cap_firing = 0\<rparr>], mm_requires = []\<rparr>"

definition sample_assembly :: assembly where
  "sample_assembly = \<lparr>as_id = ''a'',
     as_nodes = [\<lparr>an_id = ''n'', an_module = ''m'', an_module_version = ''1'', an_capability = ''c''\<rparr>],
     as_bindings = [\<lparr>bd_to_node = ''n'', bd_to_port = ''in'', bd_from_node = [], bd_from_port = [], bd_input = ''x''\<rparr>],
     as_terminal = Some \<lparr>no_node = ''n'', no_port = ''out''\<rparr>\<rparr>"

definition sample_inputs :: "named_artifact list" where
  "sample_inputs = [\<lparr>na_name = ''x'', na_artifact = Some sample_ref\<rparr>]"

definition sample_run :: run_request where
  "sample_run = \<lparr>rr_id = ''r'', rr_assembly = Some sample_assembly, rr_inputs = sample_inputs,
     rr_limits = Some \<lparr>lim_max_steps = 0, lim_max_in_flight = 1, lim_default_lease_ms = 0, lim_max_attempts = 0\<rparr>,
     rr_include_nodes = [], rr_policy = None\<rparr>"

definition sample_claim :: claim_request where
  "sample_claim = \<lparr>cr_run_id = ''r'', cr_module = [], cr_node_ids = [], cr_max_items = 0, cr_modules = []\<rparr>"

definition sample_derivation :: derivation where
  "sample_derivation = \<lparr>dv_id = [], dv_run_id = ''r'', dv_work_id = ''work:r/n'', dv_node_id = [], dv_module = [],
     dv_module_version = [], dv_capability = [], dv_inputs = [],
     dv_outputs = [\<lparr>na_name = ''out'', na_artifact = Some sample_ref\<rparr>]\<rparr>"

definition sample_ops :: "kernel_op list" where
  "sample_ops = [OpRegister sample_manifest default_context, OpPutArtifact sample_artifact default_context,
     OpStartRun sample_run default_context, OpClaimReady sample_claim default_context,
     OpCommit sample_derivation default_context]"

definition run_ops :: "kernel_op list \<Rightarrow> kstate" where
  "run_ops opns = fold (\<lambda>opn s. snd (kernel_call sample_ext sample_policy 1000 s opn)) opns init_state"

lemma reachable_ops: "reachable sample_ext sample_policy (run_ops opns)"
proof -
  have "reachable sample_ext sample_policy s \<Longrightarrow>
    reachable sample_ext sample_policy (fold (\<lambda>opn s. snd (kernel_call sample_ext sample_policy 1000 s opn)) opns s)" for s
    by (induction opns arbitrary: s) (auto intro: reachable.call)
  then show ?thesis by (simp add: run_ops_def reachable.init)
qed

definition sample_state :: "nat \<Rightarrow> kstate" where
  "sample_state n = run_ops (take n sample_ops)"

lemma reachable_sample: "reachable sample_ext sample_policy (sample_state n)"
  unfolding sample_state_def by (rule reachable_ops)

lemma sample_later:
  "(kernel_step sample_ext sample_policy)\<^sup>*\<^sup>* (sample_state n) (sample_state (Suc n))"
proof (cases "n < length sample_ops")
  case True
  then have "run_ops (take (Suc n) sample_ops) =
      snd (kernel_call sample_ext sample_policy 1000 (run_ops (take n sample_ops)) (sample_ops ! n))"
    by (simp add: run_ops_def take_Suc_conv_app_nth)
  then have "kernel_step sample_ext sample_policy (run_ops (take n sample_ops)) (run_ops (take (Suc n) sample_ops))"
    unfolding kernel_step_def by (intro exI)
  then show ?thesis unfolding sample_state_def by (rule r_into_rtranclp)
qed (simp add: sample_state_def)

text \<open>The state after the claim, and after the commit.\<close>

lemma sample_claim_eval:
  "(case ks_runs (sample_state 4) ''r'' of None \<Rightarrow> False
    | Some slot \<Rightarrow>
        run_state (rs_run slot) = Running \<and> map fst (rs_claimed slot) = [''work:r/n''] \<and>
        rs_max_in_flight slot = 1 \<and> rs_max_attempts slot = 3 \<and>
        rs_claim_attempts slot ''once:n'' = Some 1 \<and>
        (case run_assembly (rs_run slot) of None \<Rightarrow> False | Some a \<Rightarrow> map an_id (as_nodes a) = [''n'']))"
  by code_simp

lemma sample_claim_slot:
  obtains slot c where "ks_runs (sample_state 4) ''r'' = Some slot" "map_of (rs_claimed slot) ''work:r/n'' = Some c"
    "run_state (rs_run slot) = Running" "rs_max_in_flight slot = 1" "rs_max_attempts slot = 3"
    "rs_claim_attempts slot ''once:n'' = Some 1" "plain_nodes slot"
proof -
  obtain slot where s: "ks_runs (sample_state 4) ''r'' = Some slot" using sample_claim_eval by fastforce
  note e = sample_claim_eval [unfolded s option.case]
  then obtain a where a: "run_assembly (rs_run slot) = Some a" "map an_id (as_nodes a) = [''n'']"
    by (auto split: option.splits)
  then have "plain_nodes slot" by (auto simp: plain_nodes_def slot_nodes_def plain_id_def)
  moreover obtain c where "map_of (rs_claimed slot) ''work:r/n'' = Some c"
    using e by (cases "rs_claimed slot") auto
  ultimately show ?thesis using that s e by auto
qed

lemma sample_commit_eval:
  "(case ks_runs (sample_state 5) ''r'' of None \<Rightarrow> False
    | Some slot \<Rightarrow>
        run_state (rs_run slot) = Completed \<and> run_steps (rs_run slot) = 1 \<and> run_max_steps (rs_run slot) = 1 \<and>
        rs_done_units slot = {''once:n''} \<and> run_answer (rs_run slot) = Some sample_ref)"
  by code_simp

lemma sample_commit_slot:
  obtains slot where "ks_runs (sample_state 5) ''r'' = Some slot" "run_state (rs_run slot) = Completed"
    "run_steps (rs_run slot) = 1" "run_max_steps (rs_run slot) = 1" "rs_done_units slot = {''once:n''}"
    "run_answer (rs_run slot) = Some sample_ref"
  using sample_commit_eval by (auto split: option.splits)

lemma sample_state_Suc:
  "n < length sample_ops \<Longrightarrow>
    sample_state (Suc n) = snd (kernel_call sample_ext sample_policy 1000 (sample_state n) (sample_ops ! n))"
  by (simp add: sample_state_def run_ops_def take_Suc_conv_app_nth)

lemma sample_state_5:
  "sample_state 5 =
     snd (kernel_call sample_ext sample_policy 1000 (sample_state 4) (OpCommit sample_derivation default_context))"
  using sample_state_Suc [of 4] by (simp add: sample_ops_def)

lemma sample_stored: "\<exists>a. ks_artifacts (sample_state 4) (aref_id sample_ref) = Some a"
proof -
  have "ks_artifacts (sample_state 4) (aref_id sample_ref) \<noteq> None" by code_simp
  then show ?thesis by auto
qed

lemma sample_put:
  obtains s' where "put_artifact_ctx sample_ext sample_policy 1000 (sample_state 1) sample_artifact default_context =
    (Inr sample_ref, s')" "sample_state 2 = s'"
proof -
  let ?out = "put_artifact_ctx sample_ext sample_policy 1000 (sample_state 1) sample_artifact default_context"
  have "sample_state 2 = snd ?out"
    using sample_state_Suc [of 1] by (simp add: sample_ops_def numeral_2_eq_2)
  moreover have "fst ?out = Inr sample_ref" by code_simp
  ultimately show ?thesis using that by (metis prod.collapse)
qed

lemma sample_module_list: "ks_modules (sample_state 1) = [\<lparr>ms_manifest = sample_manifest, ms_lifecycle = Registered\<rparr>]"
  using sample_state_Suc [of 0] by (simp add: sample_ops_def sample_state_def run_ops_def init_state_def register_modules)

lemma sample_module: "0 < length (ks_modules (sample_state 1))" "ms_manifest (ks_modules (sample_state 1) ! 0) = sample_manifest"
  unfolding sample_module_list by simp_all

lemma sample_find_module:
  "find (named_module ''m'') (ks_modules (sample_state 1)) = Some \<lparr>ms_manifest = sample_manifest, ms_lifecycle = Registered\<rparr>"
  unfolding sample_module_list by (simp add: named_module_def sample_manifest_def)

lemma sample_contract:
  obtains c where "map_of (ks_contracts (sample_state 1)) ''t'' = Some c"
proof -
  have "map_of (ks_contracts (sample_state 1)) ''t'' \<noteq> None" by code_simp
  with that show ?thesis by auto
qed

definition sample_contract_value :: contract where
  "sample_contract_value = \<lparr>ct_ref = ''k'', ct_schema = ''s'', ct_media_type = [], ct_version = ''1'', ct_digest = [],
     ct_compatible_with = []\<rparr>"

text \<open>A context with a request key, and an artifact other than the sample.\<close>

definition keyed_context :: request_context where
  "keyed_context = default_context\<lparr>cx_caller := ''me'', cx_request_key := ''k''\<rparr>"

definition other_artifact :: artifact where
  "other_artifact = artifact_of_traits [(''t'', \<lparr>tr_body = [8], tr_object = None\<rparr>)]"

section \<open>An artifact with an external trait\<close>

definition external_data :: bytes where
  "external_data = [1, 2, 3]"

definition external_ref :: object_ref where
  "external_ref = \<lparr>oref_digest = blob_id sample_ext external_data, oref_byte_count = 3, oref_namespace = ''ns''\<rparr>"

definition external_id :: string where
  "external_id = artifact_id_of sample_ext (artifact_with_external_trait ''t'' external_ref)"

definition external_state :: kstate where
  "external_state = run_ops [OpPutArtifactWithBlob ''t'' ''ns'' external_data ''me'']"

lemma reachable_external: "reachable sample_ext sample_policy external_state"
  unfolding external_state_def by (rule reachable_ops)

lemma external_eval:
  "(case ks_artifacts external_state external_id of None \<Rightarrow> False
    | Some a \<Rightarrow> map_of (art_traits a) ''t'' = Some \<lparr>tr_body = [], tr_object = Some external_ref\<rparr>)"
  by code_simp

lemma external_stored:
  obtains a c tr where "ks_artifacts external_state external_id = Some a" "(c, tr) \<in> set (art_traits a)"
    "tr_object tr = Some external_ref"
proof -
  obtain a where a: "ks_artifacts external_state external_id = Some a"
    "map_of (art_traits a) ''t'' = Some \<lparr>tr_body = [], tr_object = Some external_ref\<rparr>"
    using external_eval by (auto split: option.splits)
  from that [OF a(1) map_of_SomeD [OF a(2)]] show ?thesis by simp
qed

end
