(* ===== verification/HostSample.thy ===== *)
theory HostSample
  imports HostMachine Sample
begin

text \<open>
  A concrete host for the theorems on the framework: one plugin with a digest and a table, the
  in-memory storage and memo, a pipeline over the sample assembly, and what driving it gives.
\<close>

definition sample_env :: host_env where
  "sample_env = \<lparr>he_ext = sample_ext, he_pol = sample_policy, he_clock = (\<lambda>_. 1000), he_json_eq = (=),
     he_ports_json = (\<lambda>_. [1]), he_ui_json = (\<lambda>_. Inr [11])\<rparr>"

definition sample_plugin :: plugin where
  "sample_plugin = \<lparr>pl_manifest = sample_manifest, pl_module_digest = (\<lambda>_. Some ''d''),
     pl_execute = (\<lambda>_ step. (Inr [port_with_trait ''out'' ''t'' [7]], step)),
     pl_on_init = (\<lambda>_ _. Some (present_init ''go'')), pl_on_final = (\<lambda>_ _ _. None),
     pl_storage_schema = Some (schema_new ''rows''),
     pl_on_store = (\<lambda>_ _ _. Some \<lparr>sw_mode = None, sw_rows = [[(''v'', IntegerVal 1)]]\<rparr>)\<rparr>"

definition bare_host :: host where
  "bare_host = host_with_memo [] (host_with_storage Map.empty
     (new_host (run_ops [OpPutArtifact sample_artifact default_context])))"

definition sample_host :: host where
  "sample_host = snd (register_plugin sample_env bare_host sample_plugin)"

definition sample_plan :: framework_policy where
  "sample_plan = with_memo memo_on (with_storage per_run_with_step_log converge)"

definition started :: "run hres" where
  "started = start_pipeline sample_env ''p'' sample_assembly sample_inputs sample_plan sample_host"

definition started_host :: host where
  "started_host = snd started"

lemma bare_fresh: "fresh_host sample_env bare_host"
  by (simp add: fresh_host_def sample_env_def bare_host_def host_with_memo_def host_with_storage_def new_host_def
      sample_documented reachable_ops default_context_def)

lemma sample_fresh: "fresh_host sample_env sample_host"
proof -
  have "reachable (he_ext sample_env) (he_pol sample_env) (h_kernel sample_host)"
    using bare_fresh kernel_moves_reachable [OF _ register_kernel] by (auto simp: fresh_host_def sample_host_def)
  with bare_fresh show ?thesis by (simp add: fresh_host_def sample_host_def register_context)
qed

lemma started_fresh: "fresh_host sample_env started_host"
  using sample_fresh start_pipeline_runs [of sample_env sample_host]
  by (auto simp: fresh_host_def started_host_def started_def runs_on_def same_config_def intro: kernel_moves_reachable)

text \<open>The run has started and has its tables.\<close>

lemma started_eval: "(case fst started of Inl _ \<Rightarrow> False | Inr r \<Rightarrow> run_id r = ''p'' \<and> run_state r = Running)"
  by code_simp

lemma started_run: obtains r where "started = (Inr r, started_host)"
proof (cases "fst started")
  case (Inl e)
  with started_eval show thesis by simp
next
  case (Inr r)
  then have "started = (Inr r, started_host)" unfolding started_host_def by (metis prod.collapse)
  then show thesis by (rule that)
qed


text \<open>Its tables are per run and dropped at the end.\<close>

lemma started_tables_eval:
  "(case h_storage started_host of None \<Rightarrow> False | Some b \<Rightarrow> table_exists b ''p__m__rows'') \<and>
   (case h_run_policies started_host ''p'' of None \<Rightarrow> False
    | Some p \<Rightarrow> sp_mode (fp_storage p) = PerRun \<and> sp_retention (fp_storage p) = DropOnEnd) \<and>
   (case h_run_tables started_host ''p'' of None \<Rightarrow> False | Some ts \<Rightarrow> ''p__m__rows'' \<in> set ts)"
  by code_simp

lemma started_run_tables:
  "has_table started_host ''p__m__rows''"
  "\<exists>p ts. h_run_policies started_host ''p'' = Some p \<and> sp_mode (fp_storage p) = PerRun \<and>
     sp_retention (fp_storage p) = DropOnEnd \<and> h_run_tables started_host ''p'' = Some ts \<and> ''p__m__rows'' \<in> set ts"
  using started_tables_eval by (auto simp: has_table_def table_exists_def split: option.splits)

section \<open>A chain of two nodes, cut after the first\<close>

definition chain_assembly :: assembly where
  "chain_assembly = \<lparr>as_id = ''a2'',
     as_nodes = [\<lparr>an_id = ''n'', an_module = ''m'', an_module_version = ''1'', an_capability = ''c''\<rparr>,
                 \<lparr>an_id = ''q'', an_module = ''m'', an_module_version = ''1'', an_capability = ''c''\<rparr>],
     as_bindings = [\<lparr>bd_to_node = ''n'', bd_to_port = ''in'', bd_from_node = [], bd_from_port = [], bd_input = ''x''\<rparr>,
                    \<lparr>bd_to_node = ''q'', bd_to_port = ''in'', bd_from_node = ''n'', bd_from_port = ''out'', bd_input = []\<rparr>],
     as_terminal = Some \<lparr>no_node = ''q'', no_port = ''out''\<rparr>\<rparr>"

definition seeded_inputs :: "named_artifact list" where
  "seeded_inputs = sample_inputs @ [\<lparr>na_name = ''__seed/n/out'', na_artifact = Some sample_ref\<rparr>]"

lemma chain_cut_eval:
  "(case materialize_cut chain_assembly (AfterNode ''n'') of Inl _ \<Rightarrow> False
    | Inr ac \<Rightarrow> ac_kept_node_ids ac = [''q''] \<and> frontier_nodes ac ''n'' = [''n''] \<and>
        map ss_from_node (ac_required_seeds ac) = [''n''] \<and> map ss_from_port (ac_required_seeds ac) = [''out''])"
  by code_simp

lemma chain_cut:
  obtains ac where "materialize_cut chain_assembly (AfterNode ''n'') = Inr ac" "ac_kept_node_ids ac = [''q'']"
    "frontier_nodes ac ''n'' = [''n'']" "map ss_from_node (ac_required_seeds ac) = [''n'']"
    "map ss_from_port (ac_required_seeds ac) = [''out'']"
  using chain_cut_eval by (cases "materialize_cut chain_assembly (AfterNode ''n'')") auto

lemma chain_well_formed: "well_formed_assembly (sample_state 2) chain_assembly sample_inputs"
proof -
  have "validate_assembly sample_ext (sample_state 2) chain_assembly sample_inputs = Inr ()" by code_simp
  then show ?thesis using validate_assembly_iff sample_documented by (simp add: documented_def)
qed

lemma sample_node_matches:
  "map port_traits (concat (map cap_inputs (node_matches (sample_state 2)
     \<lparr>an_id = ''q'', an_module = ''m'', an_module_version = ''1'', an_capability = ''c''\<rparr>))) = [[''t'']]"
  by code_simp

lemma sample_stored_traits:
  "(case ks_artifacts (sample_state 2) (aref_id sample_ref) of None \<Rightarrow> False | Some a \<Rightarrow> has_traits a [''t''])"
  by code_simp

lemma seeds_eval:
  "(case seeds_from_run 1000 (sample_state 5) ''r'' [''n''] default_context of Inl _ \<Rightarrow> False
    | Inr seeds \<Rightarrow> map na_name seeds = [''__seed/n/out''])"
  by code_simp

lemma latest_eval:
  "(case latest_of (filter (\<lambda>d. dv_run_id d = ''r'') (ks_derivations (sample_state 5))) ''n'' of None \<Rightarrow> False
    | Some d \<Rightarrow> map na_name (dv_outputs d) = [''out''])"
  by code_simp


section \<open>A memoised step\<close>

definition sample_work :: work_item where
  "sample_work = \<lparr>wi_id = ''work:p/n'', wi_run_id = ''p'', wi_node_id = ''n'', wi_module = ''m'',
     wi_module_version = ''1'', wi_capability = ''c'', wi_inputs = [\<lparr>na_name = ''in'', na_artifact = Some sample_ref\<rparr>],
     wi_unit_key = ''once:n'', wi_attempt = 1, wi_lease_until_unix_ms = 61000\<rparr>"

definition sample_outputs :: "named_artifact list" where
  "sample_outputs = [\<lparr>na_name = ''out'', na_artifact = Some sample_ref\<rparr>]"

definition memo_host :: host where
  "memo_host = snd (store_memo_after_success sample_env ''p'' ''m'' sample_work sample_outputs started_host)"

lemma started_plan_eval:
  "map_option (\<lambda>p. mp_enabled (fp_memo p) \<and> allows (mp_nodes (fp_memo p)) ''n'') (h_run_policies started_host ''p'') = Some True"
  by code_simp

lemma started_plugin_eval: "map_option (\<lambda>p. pl_module_digest p 0) (map_of (h_plugins started_host) ''m'') = Some (Some ''d'')"
  by code_simp

lemma started_memo_eval: "h_memo started_host = Some []"
  by code_simp

lemma started_artifact_eval: "ks_artifacts (h_kernel started_host) (aref_id sample_ref) \<noteq> None"
  by code_simp

lemma started_plugins: "h_plugins started_host = [(''m'', sample_plugin)]"
proof -
  have "same_config sample_host started_host"
    using start_pipeline_runs [of sample_env sample_host] by (simp add: runs_on_def started_host_def started_def)
  moreover have "h_plugins sample_host = [(''m'', sample_plugin)]"
    by (simp add: sample_host_def register_plugin_def sample_plugin_def sample_manifest_def bare_host_def
        host_with_memo_def host_with_storage_def new_host_def kapi_host kstep_host_def hstep_def schema_new_def Let_def)
  ultimately show ?thesis by (simp add: same_config_def)
qed

lemma started_context: "h_ctx started_host = default_context\<lparr>cx_caller := ''srcport-framework''\<rparr>"
proof -
  have "h_ctx started_host = h_ctx sample_host"
    using start_pipeline_runs [of sample_env sample_host] by (simp add: runs_on_def same_config_def started_host_def started_def)
  then show ?thesis
    by (simp add: sample_host_def register_context bare_host_def host_with_memo_def host_with_storage_def new_host_def)
qed

lemma memo_host_eval:
  "memo_applies started_host ''p'' ''n'' \<and> module_digest_of started_host ''m'' = Some ''d''"
  "memo_applies memo_host ''p'' ''n'' \<and> module_digest_of memo_host ''m'' = Some ''d''"
  "cx_deadline_unix_ms (h_ctx memo_host) = 0 \<and> ks_artifacts (h_kernel memo_host) (aref_id sample_ref) \<noteq> None"
proof -
  show 1: "memo_applies started_host ''p'' ''n'' \<and> module_digest_of started_host ''m'' = Some ''d''"
    using started_plan_eval by (auto simp: memo_applies_def module_digest_of_def started_plugins sample_plugin_def)
  obtain mm where m: "memo_host = (hstep started_host)\<lparr>h_memo := mm\<rparr>"
    using 1 started_memo_eval by (simp add: memo_host_def store_memo_after_success_def sample_work_def)
  have f: "h_run_policies memo_host = h_run_policies started_host" "h_plugins memo_host = h_plugins started_host"
    "h_kernel memo_host = h_kernel started_host" "h_ctx memo_host = h_ctx started_host"
    by (simp_all add: m hstep_def)
  show "memo_applies memo_host ''p'' ''n'' \<and> module_digest_of memo_host ''m'' = Some ''d''"
    using 1 f by (simp add: memo_applies_def module_digest_of_def started_plugins sample_plugin_def)
  show "cx_deadline_unix_ms (h_ctx memo_host) = 0 \<and> ks_artifacts (h_kernel memo_host) (aref_id sample_ref) \<noteq> None"
    using started_artifact_eval f started_context by (simp add: default_context_def)
qed

lemma sample_outputs_proper: "list_all proper sample_outputs" "distinct (map na_name sample_outputs)"
  by code_simp+

lemma memo_host_stored:
  "store_memo_after_success sample_env ''p'' ''m'' sample_work sample_outputs started_host =
     (fst (store_memo_after_success sample_env ''p'' ''m'' sample_work sample_outputs started_host), memo_host)"
  by (simp add: memo_host_def)

lemma memo_host_artifacts:
  "\<forall>na \<in> set sample_outputs. \<forall>r. na_artifact na = Some r \<longrightarrow> ks_artifacts (h_kernel memo_host) (aref_id r) \<noteq> None"
  using memo_host_eval(3) by (simp add: sample_outputs_def)

lemma memo_hit_sample:
  obtains key outs h' where
    "try_memo_hit sample_env ''p'' ''m'' sample_work memo_host = (Inr (Some (key, outs, ''p'')), h')"
    "set outs = set sample_outputs"
proof -
  have "\<exists>outs h3. try_memo_hit sample_env ''p'' ''m'' sample_work memo_host =
      (Inr (Some (work_memo_key sample_env ''m'' sample_work ''d'', outs, ''p'')), h3) \<and> set outs = set sample_outputs"
    by (rule memo_replayed [OF memo_host_stored _ _ _ sample_outputs_proper refl memo_host_artifacts])
      (use memo_host_eval started_memo_eval in \<open>simp_all add: sample_work_def\<close>)
  with that show thesis by blast
qed

end
