(* ===== verification/HostAgree.thy ===== *)
theory HostAgree
  imports HostMachine
begin

text \<open>
  What the host believes agrees with its kernel, whatever it is asked to do: each of its plugins is a
  registered module of the kernel, and each run it has a policy for is a run of the kernel under the
  limits and the execution policy that the policy compiles to.
\<close>

definition plugins_agree :: "host \<Rightarrow> bool" where
  "plugins_agree h \<longleftrightarrow> (\<forall>name. case map_of (h_plugins h) name of
     None \<Rightarrow> map_of (h_storage_schemas h) name = None
   | Some p \<Rightarrow> name \<noteq> [] \<and> mm_name (pl_manifest p) = name \<and>
       pl_manifest p \<in> ms_manifest ` set (ks_modules (h_kernel h)) \<and>
       map_of (h_storage_schemas h) name = pl_storage_schema p)"

text \<open>The kernel's run is what the policy asked for.\<close>

definition run_follows :: "kstate \<Rightarrow> string \<Rightarrow> framework_policy \<Rightarrow> bool" where
  "run_follows s rid policy \<longleftrightarrow> (\<exists>slot a. ks_runs s rid = Some slot \<and> run_assembly (rs_run slot) = Some a \<and>
     limits_follow policy (len64 (as_nodes a)) slot \<and>
     run_policy (rs_run slot) = Some (execution_policy_for policy (Some a)))"

definition policies_agree :: "host \<Rightarrow> bool" where
  "policies_agree h \<longleftrightarrow>
     (\<forall>rid policy. h_run_policies h rid = Some policy \<longrightarrow> rid \<noteq> [] \<and> run_follows (h_kernel h) rid policy \<and>
        (storage_enabled (fp_storage policy) \<longrightarrow> h_storage h \<noteq> None) \<and>
        (mp_enabled (fp_memo policy) \<longrightarrow> h_memo h \<noteq> None)) \<and>
     (\<forall>rid. h_run_tables h rid \<noteq> None \<longrightarrow> h_run_policies h rid \<noteq> None)"

definition host_ok :: "host_env \<Rightarrow> host \<Rightarrow> bool" where
  "host_ok V h \<longleftrightarrow> fresh_host V h \<and> plugins_agree h \<and> policies_agree h"

lemma plugins_agree_cong:
  "h_plugins h' = h_plugins h \<Longrightarrow> h_storage_schemas h' = h_storage_schemas h \<Longrightarrow> h_kernel h' = h_kernel h \<Longrightarrow>
     plugins_agree h' = plugins_agree h"
  by (simp only: plugins_agree_def)

section \<open>Kept by calls of the kernel\<close>

lemma modules_le_manifests: "modules_le s s' \<Longrightarrow> ms_manifest ` set (ks_modules s) \<subseteq> ms_manifest ` set (ks_modules s')"
  by (auto simp: modules_le_def set_conv_nth image_iff) (metis order_less_le_trans)

lemma run_follows_le:
  assumes "runs_le s s'" "run_follows s rid policy"
  shows "run_follows s' rid policy"
proof -
  from assms obtain slot a slot' where "ks_runs s' rid = Some slot'" "slot_le slot slot'"
      "run_assembly (rs_run slot) = Some a" "limits_follow policy (len64 (as_nodes a)) slot"
      "run_policy (rs_run slot) = Some (execution_policy_for policy (Some a))"
    unfolding runs_le_def run_follows_def by blast
  then show ?thesis unfolding run_follows_def
    by (intro exI [of _ slot'] exI [of _ a]) (simp add: slot_le_def limits_follow_def)
qed

lemma host_ok_moves:
  assumes "host_ok V h" "kernel_moves V (h_kernel h) (h_kernel h')" "same_config h h'"
    and "h_run_policies h' = h_run_policies h" "h_run_tables h' = h_run_tables h"
  shows "host_ok V h'"
proof -
  note h = assms(1) [unfolded host_ok_def]
  have c: "h_ctx h' = h_ctx h" "h_plugins h' = h_plugins h" "h_storage_schemas h' = h_storage_schemas h"
    "h_storage h' = None \<longleftrightarrow> h_storage h = None" "h_memo h' = None \<longleftrightarrow> h_memo h = None"
    using assms(3) by (simp_all add: same_config_def)
  have r: "documented (he_ext V)" "reachable (he_ext V) (he_pol V) (h_kernel h)" using h by (simp_all add: fresh_host_def)
  have le: "kernel_le (he_ext V) (h_kernel h) (h_kernel h')"
    using reachable_le [OF r] assms(2) by (simp add: kernel_moves_def)
  then have m: "ms_manifest ` set (ks_modules (h_kernel h)) \<subseteq> ms_manifest ` set (ks_modules (h_kernel h'))"
    and runs: "runs_le (h_kernel h) (h_kernel h')"
    by (simp_all add: kernel_le_def modules_le_manifests)
  have "fresh_host V h'" using h c(1) kernel_moves_reachable [OF r(2) assms(2)] by (simp add: fresh_host_def)
  moreover have "plugins_agree h'"
    unfolding plugins_agree_def c(2,3)
  proof (intro allI)
    fix name
    show "case map_of (h_plugins h) name of
        None \<Rightarrow> map_of (h_storage_schemas h) name = None
      | Some p \<Rightarrow> name \<noteq> [] \<and> mm_name (pl_manifest p) = name \<and>
          pl_manifest p \<in> ms_manifest ` set (ks_modules (h_kernel h')) \<and>
          map_of (h_storage_schemas h) name = pl_storage_schema p"
      using h m by (auto simp: plugins_agree_def split: option.splits dest!: spec [of _ name])
  qed
  moreover have "policies_agree h'"
    using h run_follows_le [OF runs] unfolding policies_agree_def assms(4,5) c(4,5) by blast
  ultimately show ?thesis by (simp add: host_ok_def)
qed

lemma host_ok_works: "works V h h' \<Longrightarrow> host_ok V h \<Longrightarrow> host_ok V h'"
  by (rule host_ok_moves) (simp_all add: works_def)

text \<open>Changes of fields the agreement does not look at.\<close>

lemma host_ok_finish:
  assumes "host_ok V h"
  shows "host_ok V (finish_run_storage rid h)"
proof -
  let ?h = "finish_run_storage rid h"
  have f: "h_kernel ?h = h_kernel h" "h_ctx ?h = h_ctx h" "h_plugins ?h = h_plugins h"
    "h_storage_schemas ?h = h_storage_schemas h" "h_memo ?h = h_memo h"
    "h_run_policies ?h = (h_run_policies h)(rid := None)" "h_run_tables ?h = (h_run_tables h)(rid := None)"
    "h_storage ?h = None \<longleftrightarrow> h_storage h = None"
    by (simp_all add: finish_run_storage_def split: option.split)
  have "plugins_agree ?h \<longleftrightarrow> plugins_agree h" "fresh_host V ?h \<longleftrightarrow> fresh_host V h"
    by (simp_all only: plugins_agree_def fresh_host_def f)
  moreover have "policies_agree h \<Longrightarrow> policies_agree ?h" unfolding policies_agree_def f by simp
  ultimately show ?thesis using assms by (simp add: host_ok_def)
qed

section \<open>Kept by every operation\<close>

lemma update_lookup: "map_of (AList.update k v al) n = (if n = k then Some v else map_of al n)"
  by (simp add: update_conv')

lemma register_ok:
  assumes "host_ok V h"
  shows "host_ok V (snd (register_plugin V h p))"
proof (cases "mm_name (pl_manifest p) = [] \<or> map_of (h_plugins h) (mm_name (pl_manifest p)) \<noteq> None \<or>
    (case pl_storage_schema p of None \<Rightarrow> False | Some schema \<Rightarrow> ts_name schema = [])")
  case True
  then show ?thesis using assms by (auto simp: register_plugin_def Let_def)
next
  case False
  let ?name = "mm_name (pl_manifest p)"
  define h0 where "h0 = (case pl_storage_schema p of None \<Rightarrow> h
    | Some schema \<Rightarrow> h\<lparr>h_storage_schemas := AList.update ?name schema (h_storage_schemas h)\<rparr>)"
  define k where "k = kstep_host V h0 (OpRegister (pl_manifest p) (h_ctx h0))"
  have h': "snd (register_plugin V h p) = k\<lparr>h_plugins := AList.update ?name p (h_plugins k)\<rparr>"
    using False by (auto simp: register_plugin_def Let_def kapi_host h0_def k_def)
  have f0: "h_ctx h0 = h_ctx h" "h_kernel h0 = h_kernel h" "h_plugins h0 = h_plugins h"
    "h_run_policies h0 = h_run_policies h" "h_run_tables h0 = h_run_tables h" "h_storage h0 = h_storage h"
    "h_memo h0 = h_memo h" "h_ui_persist h0 = h_ui_persist h"
    "\<And>n. map_of (h_storage_schemas h0) n = (if n = ?name \<and> pl_storage_schema p \<noteq> None then pl_storage_schema p
      else map_of (h_storage_schemas h) n)"
    unfolding h0_def by (auto simp: update_lookup split: option.split)
  have fk: "h_ctx k = h_ctx h" "h_plugins k = h_plugins h" "h_run_policies k = h_run_policies h"
    "h_run_tables k = h_run_tables h" "h_storage k = h_storage h" "h_memo k = h_memo h" "h_ui_persist k = h_ui_persist h"
    "h_storage_schemas k = h_storage_schemas h0"
    "h_kernel k = snd (register_ctx (he_ext V) (h_kernel h) (pl_manifest p) (h_ctx h))"
    by (simp_all add: k_def kstep_host_def hstep_def f0)
  let ?h1 = "k\<lparr>h_storage_schemas := h_storage_schemas h\<rparr>"
  have "host_ok V ?h1"
  proof (rule host_ok_moves [OF assms])
    show "kernel_moves V (h_kernel h) (h_kernel ?h1)"
      using kernel_moves_call [of V "h_kernel h" 0 "OpRegister (pl_manifest p) (h_ctx h)"] by (simp add: fk)
  qed (simp_all add: same_config_def fk)
  then have 1: "fresh_host V ?h1" "plugins_agree ?h1" "policies_agree ?h1" by (simp_all add: host_ok_def)
  have new: "pl_manifest p \<in> ms_manifest ` set (ks_modules (h_kernel k))" by (simp add: fk(9) register_modules)
  have pa: "plugins_agree h" using assms by (simp add: host_ok_def)
  have none: "map_of (h_storage_schemas h) ?name = None"
    using pa [unfolded plugins_agree_def, rule_format, of ?name] False by simp
  have "plugins_agree (snd (register_plugin V h p))"
    unfolding plugins_agree_def
  proof (intro allI)
    fix n
    show "case map_of (h_plugins (snd (register_plugin V h p))) n of
        None \<Rightarrow> map_of (h_storage_schemas (snd (register_plugin V h p))) n = None
      | Some q \<Rightarrow> n \<noteq> [] \<and> mm_name (pl_manifest q) = n \<and>
          pl_manifest q \<in> ms_manifest ` set (ks_modules (h_kernel (snd (register_plugin V h p)))) \<and>
          map_of (h_storage_schemas (snd (register_plugin V h p))) n = pl_storage_schema q"
    proof (cases "n = ?name")
      case True
      then show ?thesis using False new none by (simp add: h' update_lookup fk(8) f0(9))
    next
      case n: False
      with 1(2) [unfolded plugins_agree_def, rule_format, of n] show ?thesis
        by (cases "map_of (h_plugins h) n") (simp_all add: h' update_lookup fk(2,8) f0(9))
    qed
  qed
  moreover have "fresh_host V (snd (register_plugin V h p))" "policies_agree (snd (register_plugin V h p))"
    using 1(1,3) by (simp_all add: h' fresh_host_def policies_agree_def)
  ultimately show ?thesis by (simp add: host_ok_def)
qed

text \<open>A pipeline that starts has a policy the kernel follows; one that does not leaves no policy.\<close>

lemma pipeline_guards:
  assumes "start_pipeline V rid a inputs policy h = (Inr r, h')"
  shows "storage_enabled (fp_storage policy) \<longrightarrow> h_storage h \<noteq> None" "mp_enabled (fp_memo policy) \<longrightarrow> h_memo h \<noteq> None"
  using assms by (auto simp: start_pipeline_def split: if_splits)

lemma ensure_storage_ok:
  assumes "host_ok V h" "ensure_run_storage V rid policy h = (Inl e, h')"
  shows "host_ok V h'"
proof -
  have e: "h' = h \<or> (\<exists>b b'. h_storage h = Some b \<and> h' = h\<lparr>h_storage := Some b'\<rparr>)"
    using assms(2) by (auto simp: ensure_run_storage_def split: if_splits option.splits prod.splits sum.splits)
  have "host_ok V (h\<lparr>h_storage := Some b'\<rparr>)" if "h_storage h = Some b" for b b'
    by (rule host_ok_moves [OF assms(1)]) (use that in \<open>simp_all add: same_config_def\<close>)
  with e assms(1) show ?thesis by blast
qed

lemma ensured_fields:
  assumes "ensure_run_storage V rid policy h = (Inr w, k)"
  obtains tables where "h_kernel k = h_kernel h" "h_ctx k = h_ctx h" "h_plugins k = h_plugins h"
    "h_storage_schemas k = h_storage_schemas h" "h_memo k = h_memo h" "h_run_policies k = h_run_policies h"
    "h_storage k = None \<longleftrightarrow> h_storage h = None" "h_run_tables k = (h_run_tables h)(rid := tables)"
proof -
  have f: "h_kernel k = h_kernel h \<and> h_ctx k = h_ctx h \<and> h_plugins k = h_plugins h \<and>
    h_storage_schemas k = h_storage_schemas h \<and> h_memo k = h_memo h \<and> h_run_policies k = h_run_policies h \<and>
    (h_storage k = None \<longleftrightarrow> h_storage h = None) \<and>
    (h_run_tables k = h_run_tables h \<or> (\<exists>ts. h_run_tables k = (h_run_tables h)(rid \<mapsto> ts)))"
    using assms by (auto simp: ensure_run_storage_def split: if_splits option.splits prod.splits sum.splits)
  then obtain tables where "h_run_tables k = (h_run_tables h)(rid := tables)" by (metis fun_upd_triv)
  with f show thesis by (intro that) blast+
qed

lemma pipeline_error_ok:
  assumes "host_ok V h" "start_pipeline V rid a inputs policy h = (Inl e, h')"
  shows "host_ok V h'"
proof -
  have "h' = h \<or> (\<exists>ac. hbind (emit_skip_events V rid ac h) (\<lambda>_ h.
           hbind (host_start_run V (pipeline_request rid (ac_assembly ac) inputs policy) h) (\<lambda>r h.
           hbind (ensure_run_storage V rid policy h) (\<lambda>_ h.
           (Inr r, h\<lparr>h_run_policies := (h_run_policies h)(rid \<mapsto> policy)\<rparr>)))) = (Inl e, h'))"
    using assms(2) by (auto simp: start_pipeline_def split: if_splits sum.splits)
  then show ?thesis
  proof (elim disjE exE)
    fix ac assume b: "hbind (emit_skip_events V rid ac h) (\<lambda>_ h.
           hbind (host_start_run V (pipeline_request rid (ac_assembly ac) inputs policy) h) (\<lambda>r h.
           hbind (ensure_run_storage V rid policy h) (\<lambda>_ h.
           (Inr r, h\<lparr>h_run_policies := (h_run_policies h)(rid \<mapsto> policy)\<rparr>)))) = (Inl e, h')"
    obtain x k1 where 1: "emit_skip_events V rid ac h = (x, k1)" by (metis surj_pair)
    obtain y k2 where st: "host_start_run V (pipeline_request rid (ac_assembly ac) inputs policy) k1 = (y, k2)" by (metis surj_pair)
    obtain z k3 where 3: "ensure_run_storage V rid policy k2 = (z, k3)" by (metis surj_pair)
    have ok1: "host_ok V k1" using host_ok_works [OF wk.skips assms(1)] 1 by (metis snd_conv)
    have ok2: "host_ok V k2" using host_ok_works [OF wk.call ok1] st unfolding host_start_run_def by (metis snd_conv)
    have "h' = k1 \<or> h' = k2 \<or> z = Inl e \<and> h' = k3"
      using b 1 st 3 by (cases x; cases y; cases z) auto
    then show ?thesis using ok1 ok2 ensure_storage_ok [OF ok2] 3 by blast
  qed (use assms(1) in simp)
qed

lemma pipeline_ok:
  assumes "host_ok V h"
  shows "host_ok V (snd (start_pipeline V rid a inputs policy h))"
proof (cases "start_pipeline V rid a inputs policy h")
  case (Pair x h')
  show ?thesis
  proof (cases x)
    case (Inl e)
    with Pair show ?thesis using pipeline_error_ok [OF assms] by simp
  next
    case (Inr r)
    note ok = Pair [unfolded Inr]
    have f: "fresh_host V h" using assms by (simp add: host_ok_def)
    note opened = pipeline_started(1) [OF f ok] and guards = pipeline_guards [OF ok]
    from ok obtain ac u k1 k2 w k3 where rid: "rid \<noteq> []" and
      1: "emit_skip_events V rid ac h = (Inr u, k1)" and
      2: "host_start_run V (pipeline_request rid (ac_assembly ac) inputs policy) k1 = (Inr r, k2)" and
      3: "ensure_run_storage V rid policy k2 = (Inr w, k3)" and
      h': "h' = k3\<lparr>h_run_policies := (h_run_policies k3)(rid \<mapsto> policy)\<rparr>"
      by (rule start_pipeline_ok)
    have w: "works V h k2"
      by (rule wk.trans [OF ok_works [OF 1 wk.skips] ok_works [OF 2 [unfolded host_start_run_def] kapi_works]])
    have ok2: "host_ok V k2" by (rule host_ok_works [OF w assms])
    from 3 obtain tables where k3: "h_kernel k3 = h_kernel k2" "h_ctx k3 = h_ctx k2" "h_plugins k3 = h_plugins k2"
      "h_storage_schemas k3 = h_storage_schemas k2" "h_memo k3 = h_memo k2" "h_run_policies k3 = h_run_policies k2"
      "h_storage k3 = None \<longleftrightarrow> h_storage k2 = None" "h_run_tables k3 = (h_run_tables k2)(rid := tables)"
      by (rule ensured_fields)
    have same: "h_storage k2 = None \<longleftrightarrow> h_storage h = None" "h_memo k2 = None \<longleftrightarrow> h_memo h = None"
      using w by (simp_all add: works_def same_config_def)
    have "plugins_agree h' \<longleftrightarrow> plugins_agree k2" "fresh_host V h' \<longleftrightarrow> fresh_host V k2"
      by (rule plugins_agree_cong; simp add: h' k3) (simp add: fresh_host_def h' k3)
    moreover have "run_follows (h_kernel h') rid policy"
      using opened unfolding pipeline_open_def run_follows_def by blast
    then have "policies_agree h'"
      using ok2 rid guards k3(7) same unfolding host_ok_def policies_agree_def h' k3 by (auto simp: k3)
    ultimately show ?thesis using ok2 Pair by (simp add: host_ok_def)
  qed
qed

lemma resume_ok: "host_ok V h \<Longrightarrow> host_ok V (snd (resume_after V new prior node policy h))"
proof -
  assume h: "host_ok V h"
  obtain x k where g: "host_get_run V prior h = (x, k)" by (metis surj_pair)
  have k: "host_ok V k" by (rule host_ok_works [OF wk.got [OF g] h])
  have t: "host_ok V (hstep k)" by (rule host_ok_works [OF wk.tick k])
  show ?thesis
    using k t pipeline_ok [OF t]
    by (cases x) (auto simp: resume_after_def g Let_def split: option.split sum.split)
qed

lemma drive_ok:
  assumes "host_ok V h" "drive_with V rid plan h = Some res"
  shows "host_ok V (snd res)"
proof -
  obtain res0 where r0: "plan = OnePass \<and> res0 = drive_one_pass V rid h \<or> plan \<noteq> OnePass \<and> drive_until_idle V rid h = Some res0"
      "res = finish_if_ended rid res0"
    using assms(2) by (cases plan) (auto simp: drive_with_def)
  have "host_ok V (snd res0)"
    using r0(1) wk.one_pass [of V h rid] wk.until_idle [of V rid h res0] host_ok_works [OF _ assms(1)] by auto
  then show ?thesis
    using host_ok_finish unfolding r0(2) finish_if_ended_def by (auto split: prod.split sum.split)
qed

lemma inject_ok:
  assumes "host_ok V h" "host_inject V rid input after h = Some res"
  shows "host_ok V (snd res)"
proof -
  obtain x k where r: "kapi V h (OpInjectInput \<lparr>iir_run_id = rid, iir_input = Some input\<rparr> (h_ctx h)) as_run = (x, k)"
    by (metis surj_pair)
  have k: "host_ok V k" using host_ok_works [OF wk.call assms(1)] r by (metis snd_conv)
  show ?thesis
  proof (cases x)
    case (Inl e)
    with assms(2) r k show ?thesis by (auto simp: host_inject_def)
  next
    case (Inr v)
    with assms(2) r k drive_ok [OF k] show ?thesis by (cases after) (auto simp: host_inject_def)
  qed
qed

lemma cancel_ok: "host_ok V h \<Longrightarrow> host_ok V (snd (host_cancel V rid h))"
proof -
  assume h: "host_ok V h"
  obtain x k where r: "kapi V h (OpCancelRun rid (h_ctx h)) as_run = (x, k)" by (metis surj_pair)
  have "host_ok V k" using host_ok_works [OF wk.call h] r by (metis snd_conv)
  then show ?thesis using host_ok_finish by (cases x) (simp_all add: host_cancel_def r)
qed

lemma try_step_works: "works V h (snd (try_step V rid module h))"
  unfolding try_step_def by (intro wk.bind wk.call) (auto split: list.split intro!: wk.bind wk.unit wk.refl)

lemma host_ok_step:
  assumes "host_step V h h'" "host_ok V h"
  shows "host_ok V h'"
  using assms(1)
proof cases
  case (register p)
  then show ?thesis using register_ok [OF assms(2)] by simp
next
  case (inject rid input after res)
  then show ?thesis using inject_ok [OF assms(2)] by blast
next
  case (driven rid plan res)
  then show ?thesis using drive_ok [OF assms(2)] by blast
next
  case (policy_driven rid res)
  then show ?thesis using drive_ok [OF assms(2)] unfolding drive_def by blast
next
  case events
  then show ?thesis
    using host_ok_works [OF wk.events assms(2), of "[]"] by (simp add: take_step_events_def)
next
  case (memo_edit f)
  then show ?thesis by (intro host_ok_moves [OF assms(2)]) (simp_all add: same_config_def)
next
  case (storage_edit g)
  then show ?thesis by (intro host_ok_moves [OF assms(2)]) (simp_all add: same_config_def)
next
  case (single rid module)
  then show ?thesis using host_ok_works [OF try_step_works assms(2)] by simp
next
  case (start req)
  then show ?thesis using host_ok_works [OF wk.call assms(2)] by (simp add: host_start_run_def)
next
  case (get rid)
  then show ?thesis using host_ok_works [OF wk.call assms(2)] by (simp add: host_get_run_def)
qed (simp_all add: pipeline_ok resume_ok cancel_ok assms(2))

lemma host_ok_steps: "(host_step V)\<^sup>*\<^sup>* h h' \<Longrightarrow> host_ok V h \<Longrightarrow> host_ok V h'"
  by (induction rule: rtranclp_induct) (auto intro: host_ok_step)

text \<open>A new host, with the configuration of its builders, agrees with its kernel.\<close>

definition configured :: "kstate \<Rightarrow> request_context \<Rightarrow> ui_persist \<Rightarrow> memory_storage option \<Rightarrow> memory_memo option \<Rightarrow> host" where
  "configured k ctx ui st mm = (new_host k)\<lparr>h_ctx := ctx, h_ui_persist := ui, h_storage := st, h_memo := mm\<rparr>"

lemma host_ok_configured:
  "documented (he_ext V) \<Longrightarrow> reachable (he_ext V) (he_pol V) k \<Longrightarrow> cx_request_key ctx = [] \<Longrightarrow> host_ok V (configured k ctx ui st mm)"
  by (simp add: host_ok_def fresh_host_def plugins_agree_def policies_agree_def configured_def new_host_def)

end
