(* ===== verification/FrameworkClaims.thy ===== *)
theory FrameworkClaims
  imports HostSample HostAgree
begin

text \<open>
  The properties of the framework, each with a witness on the sample host: driving, pipelines, cuts
  and seeds, memo, storage and policies.
\<close>

section \<open>The host\<close>

text \<open>
  C5: Whatever sequence of its public operations a host runs from its configuration, with
  whatever plugins and arguments and through every error, when calls carry no request key: what the
  host believes agrees with its kernel. Each plugin sits under the name in its manifest, which is not
  empty, its manifest is that of a module of the kernel, and the storage schema recorded for it is its
  own. Each run with a policy is a run of the kernel with an assembly, whose limits are those of the
  policy and whose execution policy is the one compiled from it; the storage and the memo that the
  policy needs are there; and only runs with a policy have tables.
\<close>

theorem host_agrees_with_kernel:
  assumes "documented (he_ext V)" "reachable (he_ext V) (he_pol V) k" "cx_request_key ctx = []"
    and "(host_step V)\<^sup>*\<^sup>* (configured k ctx ui st mm) h"
  shows "(\<forall>name p. map_of (h_plugins h) name = Some p \<longrightarrow> name \<noteq> [] \<and> mm_name (pl_manifest p) = name \<and>
      pl_manifest p \<in> ms_manifest ` set (ks_modules (h_kernel h)) \<and>
      map_of (h_storage_schemas h) name = pl_storage_schema p) \<and>
    (\<forall>rid policy. h_run_policies h rid = Some policy \<longrightarrow> rid \<noteq> [] \<and>
      (\<exists>slot a. ks_runs (h_kernel h) rid = Some slot \<and> run_assembly (rs_run slot) = Some a \<and>
         limits_follow policy (len64 (as_nodes a)) slot \<and>
         run_policy (rs_run slot) = Some (execution_policy_for policy (Some a))) \<and>
      (storage_enabled (fp_storage policy) \<longrightarrow> h_storage h \<noteq> None) \<and>
      (mp_enabled (fp_memo policy) \<longrightarrow> h_memo h \<noteq> None)) \<and>
    (\<forall>rid. h_run_tables h rid \<noteq> None \<longrightarrow> h_run_policies h rid \<noteq> None)"
proof -
  have h: "plugins_agree h" "policies_agree h"
    using host_ok_steps [OF assms(4) host_ok_configured [OF assms(1-3)]] by (simp_all add: host_ok_def)
  have "name \<noteq> [] \<and> mm_name (pl_manifest p) = name \<and> pl_manifest p \<in> ms_manifest ` set (ks_modules (h_kernel h)) \<and>
      map_of (h_storage_schemas h) name = pl_storage_schema p" if "map_of (h_plugins h) name = Some p" for name p
    using h(1) [unfolded plugins_agree_def, rule_format, of name] that by simp
  moreover note h(2) [unfolded policies_agree_def run_follows_def]
  ultimately show ?thesis by blast
qed

theorem host_agrees_with_kernel_witness:
  "sample_manifest \<in> ms_manifest ` set (ks_modules (h_kernel started_host)) \<and>
   (\<exists>slot. ks_runs (h_kernel started_host) ''p'' = Some slot \<and> rs_max_attempts slot = 3 \<and>
      rs_default_lease_ms slot = 60000 \<and> unat (rs_max_in_flight slot) = unat (effective_concurrency sample_plan))"
proof -
  let ?k = "run_ops [OpPutArtifact sample_artifact default_context]"
  let ?ctx = "default_context\<lparr>cx_caller := ''srcport-framework''\<rparr>"
  have bare: "bare_host = configured ?k ?ctx LocalOnly (Some Map.empty) (Some [])"
    by (simp add: bare_host_def configured_def host_with_memo_def host_with_storage_def new_host_def)
  have "host_step sample_env bare_host sample_host" "host_step sample_env sample_host started_host"
    unfolding sample_host_def started_host_def started_def by (rule host_step.register host_step.pipeline)+
  then have steps: "(host_step sample_env)\<^sup>*\<^sup>* bare_host started_host" by (meson converse_rtranclp_into_rtranclp rtranclp.rtrancl_refl)
  have d: "documented (he_ext sample_env)" "reachable (he_ext sample_env) (he_pol sample_env) ?k"
    using bare_fresh by (simp_all add: fresh_host_def bare_host_def host_with_memo_def host_with_storage_def new_host_def)
  note agree = host_agrees_with_kernel [OF d _ steps [unfolded bare]]
  have "map_of (h_plugins started_host) ''m'' = Some sample_plugin" by (simp add: started_plugins)
  moreover obtain r where "started = (Inr r, started_host)" by (rule started_run)
  then have "h_run_policies started_host ''p'' = Some sample_plan"
    using pipeline_started(1) [OF sample_fresh] unfolding started_def pipeline_open_def by blast
  ultimately show ?thesis using agree
    by (fastforce simp: default_context_def sample_plugin_def limits_follow_def sample_plan_def converge_def
        policy_base_def with_memo_def with_storage_def)
qed



text \<open>
  C13: A pipeline that starts, when calls carry no request key, is a new run of exactly the cut
  assembly and the inputs given, in state running with no step and no claim, under the limits of the
  policy (in flight, lease, attempts and steps, each with its default) and the execution policy
  compiled from it, open exactly when the policy's closure is; every seed the cut requires was among
  the inputs; and the host has the policy under its id.
\<close>

theorem pipeline_starts:
  assumes "fresh_host V h" "start_pipeline V rid a inputs policy h = (Inr r, h')"
  shows "pipeline_open V rid a inputs policy r h' \<and> ks_runs (h_kernel h) rid = None"
  using pipeline_started [OF assms] by blast

theorem pipeline_starts_witness:
  "\<exists>r. pipeline_open sample_env ''p'' sample_assembly sample_inputs sample_plan r started_host"
proof -
  obtain r where "started = (Inr r, started_host)" by (rule started_run)
  with pipeline_starts [OF sample_fresh, of "''p''" sample_assembly sample_inputs sample_plan r started_host]
  show ?thesis by (auto simp: started_def)
qed

text \<open>
  C14: Under a storage plan of tables per run that are dropped at the end, the tables of a
  pipeline exist once it has started, and when the run is cancelled, after whatever work was done on
  it, they are gone, the other tables are as they were, and the host has forgotten the run.
\<close>

theorem run_tables_dropped:
  assumes "start_pipeline V rid a inputs policy h = (Inr r, h1)"
    and "sp_mode (fp_storage policy) = PerRun" "sp_retention (fp_storage policy) = DropOnEnd"
    and "run_tables V h rid (fp_storage policy) \<noteq> []" "works V h1 h2" "host_cancel V rid h2 = (Inr r', h3)"
  shows "\<exists>b1 b2 b3. h_storage h1 = Some b1 \<and> h_storage h2 = Some b2 \<and> h_storage h3 = Some b3 \<and>
    (\<forall>t. t \<in> qt_physical_name ` set (run_tables V h rid (fp_storage policy)) \<longrightarrow> b1 t \<noteq> None \<and> b3 t = None) \<and>
    (\<forall>t. t \<notin> qt_physical_name ` set (run_tables V h rid (fp_storage policy)) \<longrightarrow> b3 t = b2 t) \<and>
    h_run_policies h3 rid = None \<and> h_run_tables h3 rid = None"
proof -
  let ?ts = "run_tables V h rid (fp_storage policy)"
  have on: "storage_enabled (fp_storage policy)" using assms(2) by (simp add: storage_enabled_def)
  note t = pipeline_tables [OF assms(1) on assms(4)]
  from t(2) obtain b1 where b1: "h_storage h1 = Some b1" "\<forall>q \<in> set ?ts. b1 (qt_physical_name q) \<noteq> None" by blast
  from assms(6) obtain k where k: "works V h2 k" "h3 = finish_run_storage rid k" "h_storage k = h_storage h2"
    using kapi_works [of V h2 "OpCancelRun rid (h_ctx h2)" as_run]
    by (auto simp: host_cancel_def hbind_ok kapi_def hstep_def split: prod.splits)
  have "h_run_policies h1 rid = Some policy" using assms(1) by (auto elim!: start_pipeline_ok)
  with assms(5) k(1) have "run_plan k rid = Some (fp_storage policy)" "h_run_tables k rid = Some (map qt_physical_name ?ts)"
    using t(1) by (simp_all add: works_def run_plan_def)
  moreover obtain b2 where b2: "h_storage h2 = Some b2"
    using assms(5) b1(1) by (auto simp: works_def same_config_def)
  ultimately obtain b3 where b3: "h_storage h3 = Some b3"
      "\<forall>t. b3 t = (if t \<in> set (map qt_physical_name ?ts) then None else b2 t)"
    using finish_drops [OF _ assms(3,2), of k rid "map qt_physical_name ?ts" b2] k(2,3) by auto
  have "h_run_policies h3 rid = None \<and> h_run_tables h3 rid = None" by (simp add: k(2) finish_run_storage_def)
  with b1 b2 b3 show ?thesis by auto
qed

lemma cancel_eval: "(case fst (host_cancel sample_env ''p'' started_host) of Inl _ \<Rightarrow> False | Inr _ \<Rightarrow> True)"
  by code_simp

theorem run_tables_dropped_witness:
  "\<exists>b. h_storage (snd (host_cancel sample_env ''p'' started_host)) = Some b \<and> b ''p__m__rows'' = None"
proof -
  obtain r where r: "started = (Inr r, started_host)" by (rule started_run)
  obtain r' where c: "host_cancel sample_env ''p'' started_host = (Inr r', snd (host_cancel sample_env ''p'' started_host))"
    using cancel_eval by (cases "host_cancel sample_env ''p'' started_host") (auto split: sum.splits)
  have ts: "map qt_physical_name (run_tables sample_env sample_host ''p'' (fp_storage sample_plan)) =
      [''p__m__rows'', ''p___srcport_step_log'']" by code_simp
  then have ne: "run_tables sample_env sample_host ''p'' (fp_storage sample_plan) \<noteq> []" by auto
  have plan: "sp_mode (fp_storage sample_plan) = PerRun" "sp_retention (fp_storage sample_plan) = DropOnEnd"
    by (simp_all add: sample_plan_def with_memo_def with_storage_def per_run_with_step_log_def)
  have "''p__m__rows'' \<in> set (map qt_physical_name (run_tables sample_env sample_host ''p'' (fp_storage sample_plan)))"
    unfolding ts by simp
  then show ?thesis using run_tables_dropped [OF r [unfolded started_def] plan ne wk.refl c] by auto
qed


section \<open>Cuts and seeds\<close>

text \<open>
  C10: The nodes a plan keeps are resolved exactly: a plan is accepted when the assembly has a
  terminal node, which is kept, and the ids of the plan are known and distinct; what is kept are all
  nodes, the ids listed, the nodes from which the named node cannot be reached (\<open>After\<close>), or the nodes
  reachable from it (\<open>From\<close>). The two searches always end and compute these closures.
\<close>

theorem kept_nodes_exact:
  "resolve_kept_nodes a plan = Inr K \<longleftrightarrow>
     (\<exists>t. as_terminal a = Some t \<and> no_node t \<in> an_id ` set (as_nodes a) \<and> no_node t \<in> K) \<and> kept_by a plan K"
  by (rule resolve_kept_iff)

text \<open>
  C11: Cutting a valid assembly gives a valid assembly over the seeded inputs: when every edge
  that crosses into the kept nodes has its seed, with the traits its port requires, the kernel's
  validator accepts the cut.
\<close>

theorem cut_stays_valid:
  assumes "order_permutes X" "validate_assembly X s a inputs = Inr ()" "materialize_cut a plan = Inr ac"
    and "inputs_ok s inputs'" "set inputs \<subseteq> set inputs'"
    and "\<forall>b \<in> set (as_bindings a). crossing (set (ac_kept_node_ids ac)) b \<longrightarrow> seeded s a inputs' b"
  shows "validate_assembly X s (ac_assembly ac) inputs' = Inr ()"
proof -
  have "well_formed_assembly s a inputs" using assms(2) validate_assembly_iff [OF assms(1)] by blast
  from materialize_cut_well_formed [OF this assms(3-6)] show ?thesis using validate_assembly_iff [OF assms(1)] by blast
qed

theorem cut_stays_valid_witness:
  "\<exists>ac. materialize_cut chain_assembly (AfterNode ''n'') = Inr ac \<and>
     validate_assembly sample_ext (sample_state 2) (ac_assembly ac) seeded_inputs = Inr ()"
proof -
  obtain ac where ac: "materialize_cut chain_assembly (AfterNode ''n'') = Inr ac" "ac_kept_node_ids ac = [''q'']"
    by (rule chain_cut)
  have X: "order_permutes sample_ext" using sample_documented by (simp add: documented_def)
  obtain art where art: "ks_artifacts (sample_state 2) (aref_id sample_ref) = Some art" "has_traits art [''t'']"
    using sample_stored_traits by (auto split: option.splits)
  have ok: "inputs_ok (sample_state 2) seeded_inputs"
    using art by (simp add: inputs_ok_def input_ok_def seeded_inputs_def sample_inputs_def)
  have port: "port_traits p = [''t'']" if "in_port (sample_state 2) chain_assembly ''q'' ''in'' p" for p
  proof -
    from that obtain cap where "node_matches (sample_state 2)
        \<lparr>an_id = ''q'', an_module = ''m'', an_module_version = ''1'', an_capability = ''c''\<rparr> = [cap]" "p \<in> set (cap_inputs cap)"
      by (auto simp: in_port_def chain_assembly_def)
    then show ?thesis using sample_node_matches by (auto simp: map_eq_Cons_conv)
  qed
  have seed: "seeded (sample_state 2) chain_assembly seeded_inputs
      \<lparr>bd_to_node = ''q'', bd_to_port = ''in'', bd_from_node = ''n'', bd_from_port = ''out'', bd_input = []\<rparr>"
    using art port by (auto simp: seeded_def bound_artifact_def seeded_inputs_def seed_input_name_def SEED_INPUT_PREFIX_def)
  have "\<forall>b \<in> set (as_bindings chain_assembly). crossing (set (ac_kept_node_ids ac)) b \<longrightarrow>
      seeded (sample_state 2) chain_assembly seeded_inputs b"
    using seed by (auto simp: chain_assembly_def ac(2) crossing_def)
  moreover have "validate_assembly sample_ext (sample_state 2) chain_assembly sample_inputs = Inr ()"
    using chain_well_formed validate_assembly_iff [OF X] by blast
  ultimately show ?thesis
    using cut_stays_valid [OF X _ ac(1) ok, of sample_inputs] ac(1) by (auto simp: seeded_inputs_def)
qed

text \<open>
  C25: Resuming after a node, when node ids have no slash and bindings name their source: the
  check that \<open>start_pipeline\<close> makes of the merged inputs passes if and only if every edge that crosses
  into the kept nodes reads a port that the latest derivation of its source, in the prior run, has
  among its outputs (an optional output left out makes the resume fail); and the input under the name
  of such a seed is then the artifact of that output, whatever the prior run's own inputs were.
\<close>

theorem resume_covers_cut:
  assumes "materialize_cut a (AfterNode n) = Inr ac"
    and "\<forall>node \<in> set (as_nodes a). CHR ''/'' \<notin> set (an_id node)"
    and "\<forall>b \<in> set (as_bindings a). bd_input b = [] \<longrightarrow> bd_from_node b \<in> an_id ` set (as_nodes a) \<and> bd_from_port b \<noteq> []"
    and "seeds_from_run now s rid (frontier_nodes ac n) ctx = Inr seeds"
  shows "(validate_seeds_present ac (resume_inputs inputs seeds) = Inr () \<longleftrightarrow>
      (\<forall>b \<in> set (as_bindings a). crossing (set (ac_kept_node_ids ac)) b \<longrightarrow>
         prior_output s rid (bd_from_node b) (bd_from_port b) \<noteq> None)) \<and>
    (\<forall>b \<in> set (as_bindings a). \<forall>v. crossing (set (ac_kept_node_ids ac)) b \<longrightarrow>
      prior_output s rid (bd_from_node b) (bd_from_port b) = Some v \<longrightarrow>
      na_artifact v \<noteq> None \<and>
      find (\<lambda>i. na_name i = seed_input_name (bd_from_node b) (bd_from_port b)) (resume_inputs inputs seeds) =
        Some \<lparr>na_name = seed_input_name (bd_from_node b) (bd_from_port b), na_artifact = na_artifact v\<rparr>)"
proof -
  let ?C = "{b \<in> set (as_bindings a). crossing (set (ac_kept_node_ids ac)) b}"
  let ?find = "\<lambda>b. find (\<lambda>i. na_name i = seed_input_name (bd_from_node b) (bd_from_port b)) (resume_inputs inputs seeds)"
  note req = required_crossing [OF assms(1)] and names = assms(2,3)
  have from_nodes: "\<forall>b \<in> set (as_bindings a). bd_input b = [] \<longrightarrow> bd_from_node b \<in> an_id ` set (as_nodes a)" using assms(3) by blast
  have noslash: "\<forall>x \<in> set (frontier_nodes ac n). CHR ''/'' \<notin> set x" using req(4) [OF from_nodes] assms(2) by auto
  have input: "?find b = map_option (\<lambda>v. \<lparr>na_name = seed_input_name (bd_from_node b) (bd_from_port b), na_artifact = na_artifact v\<rparr>)
        (prior_output s rid (bd_from_node b) (bd_from_port b)) \<and>
      (\<forall>v. prior_output s rid (bd_from_node b) (bd_from_port b) = Some v \<longrightarrow> na_artifact v \<noteq> None)" if "b \<in> ?C" for b
  proof -
    have p: "bd_from_port b \<noteq> []" "bd_from_node b \<in> set (frontier_nodes ac n)"
      using that assms(3) req(3) [OF from_nodes] by (auto simp: crossing_def)
    from resumed_input [OF assms(4) p(2,1) noslash] show ?thesis by blast
  qed
  have "validate_seeds_present ac (resume_inputs inputs seeds) = Inr () \<longleftrightarrow>
      (\<forall>sd \<in> set (ac_required_seeds ac). \<exists>v. find (\<lambda>i. na_name i = seed_input_name (ss_from_node sd) (ss_from_port sd))
         (resume_inputs inputs seeds) = Some v \<and> na_artifact v \<noteq> None)"
    unfolding validate_seeds_iff resume_inputs_def
    using req(1) [OF from_nodes] by (simp add: find_distinct_rev merge_inputs_lookup(2))
  also have "\<dots> \<longleftrightarrow> (\<forall>(m, p) \<in> (\<lambda>sd. (ss_from_node sd, ss_from_port sd)) ` set (ac_required_seeds ac).
      \<exists>v. find (\<lambda>i. na_name i = seed_input_name m p) (resume_inputs inputs seeds) = Some v \<and> na_artifact v \<noteq> None)" by simp
  also have "\<dots> \<longleftrightarrow> (\<forall>b \<in> ?C. \<exists>v. ?find b = Some v \<and> na_artifact v \<noteq> None)" unfolding req(2) [OF from_nodes] by simp
  also have "\<dots> \<longleftrightarrow> (\<forall>b \<in> ?C. prior_output s rid (bd_from_node b) (bd_from_port b) \<noteq> None)" using input by fastforce
  finally show ?thesis using input by auto
qed

theorem resume_covers_cut_witness:
  "\<exists>ac seeds v. materialize_cut chain_assembly (AfterNode ''n'') = Inr ac \<and>
     validate_seeds_present ac (resume_inputs sample_inputs seeds) = Inr () \<and>
     prior_output (sample_state 5) ''r'' ''n'' ''out'' = Some v \<and>
     find (\<lambda>i. na_name i = seed_input_name ''n'' ''out'') (resume_inputs sample_inputs seeds) =
       Some \<lparr>na_name = seed_input_name ''n'' ''out'', na_artifact = na_artifact v\<rparr>"
proof -
  obtain ac where ac: "materialize_cut chain_assembly (AfterNode ''n'') = Inr ac" "ac_kept_node_ids ac = [''q'']"
    "frontier_nodes ac ''n'' = [''n'']" by (rule chain_cut)
  obtain seeds where s: "seeds_from_run 1000 (sample_state 5) ''r'' (frontier_nodes ac ''n'') default_context = Inr seeds"
    using seeds_eval ac(3) by (auto split: sum.splits)
  obtain v where v: "prior_output (sample_state 5) ''r'' ''n'' ''out'' = Some v"
    using latest_eval by (auto simp: prior_output_def map_eq_Cons_conv split: option.splits)
  have "\<forall>node \<in> set (as_nodes chain_assembly). CHR ''/'' \<notin> set (an_id node)"
    "\<forall>b \<in> set (as_bindings chain_assembly). bd_input b = [] \<longrightarrow>
      bd_from_node b \<in> an_id ` set (as_nodes chain_assembly) \<and> bd_from_port b \<noteq> []"
    by (simp_all add: chain_assembly_def)
  from resume_covers_cut [OF ac(1) this s, of sample_inputs] v
  have "validate_seeds_present ac (resume_inputs sample_inputs seeds) = Inr () \<and>
      find (\<lambda>i. na_name i = seed_input_name ''n'' ''out'') (resume_inputs sample_inputs seeds) =
       Some \<lparr>na_name = seed_input_name ''n'' ''out'', na_artifact = na_artifact v\<rparr>"
    by (auto simp: chain_assembly_def ac(2) crossing_def)
  with ac(1) v show ?thesis by blast
qed


section \<open>Memo\<close>

text \<open>
  C24: For fields without a zero byte, equal memo keys mean the same module, version, digest,
  capability and input artifacts, or exhibit two byte strings with the same SHA-256.
\<close>

theorem memo_key_identifies:
  assumes "memo_clean m v d c ins" "memo_clean m' v' d' c' ins'"
    and "memo_key X m v d c ins = memo_key X m' v' d' c' ins'"
  shows "(m = m' \<and> v = v' \<and> d = d' \<and> c = c' \<and> ins = ins') \<or>
    sha_collision X (memo_preimage m v d c ins) (memo_preimage m' v' d' c' ins')"
proof (cases "memo_preimage m v d c ins = memo_preimage m' v' d' c' ins'")
  case True
  with memo_preimage_inj [OF assms(1,2)] show ?thesis by blast
next
  case False
  with assms(3) show ?thesis by (simp add: memo_key_eq sha_collision_def)
qed

text \<open>The sample hash keeps the last bytes, so a change of the first field of a long preimage is lost.\<close>

theorem memo_key_identifies_witness:
  "sha_collision sample_ext
     (memo_preimage ''a'' ''1'' ''d'' ''c'' [(''in'', replicate 32 (CHR ''x''))])
     (memo_preimage ''b'' ''1'' ''d'' ''c'' [(''in'', replicate 32 (CHR ''x''))])"
proof -
  have "memo_clean ''a'' ''1'' ''d'' ''c'' [(''in'', replicate 32 (CHR ''x''))]"
    "memo_clean ''b'' ''1'' ''d'' ''c'' [(''in'', replicate 32 (CHR ''x''))]"
    "memo_key sample_ext ''a'' ''1'' ''d'' ''c'' [(''in'', replicate 32 (CHR ''x''))] =
       memo_key sample_ext ''b'' ''1'' ''d'' ''c'' [(''in'', replicate 32 (CHR ''x''))]"
    by code_simp+
  from memo_key_identifies [OF this] show ?thesis by simp
qed

text \<open>
  C23: A memo hit is applied only when the run's plan allows the node and the module has a
  digest; the outputs committed are those recorded under the key of this very unit (module, version,
  digest, capability, inputs), and each of them is an artifact the kernel still stores.
\<close>

theorem memo_hit_valid:
  assumes "try_memo_hit V rid module work h = (Inr (Some (key, outputs, src)), h')"
  shows "memo_hit_for V h rid module work key outputs src"
  using assms by (rule memo_hit_sound)

theorem memo_hit_valid_witness:
  "\<exists>key outs. memo_hit_for sample_env memo_host ''p'' ''m'' sample_work key outs ''p'' \<and> set outs = set sample_outputs"
proof -
  obtain key outs h' where "try_memo_hit sample_env ''p'' ''m'' sample_work memo_host = (Inr (Some (key, outs, ''p'')), h')"
    "set outs = set sample_outputs"
    by (rule memo_hit_sample)
  with memo_hit_valid [OF this(1)] show ?thesis by blast
qed




section \<open>Storage\<close>

text \<open>
  C21: Upserting with a primary key keeps the rows of a table distinct by that key, and a
  lookup by key then finds the last row written for it, or the old row when none was written.
\<close>

theorem upsert_last_write_wins:
  assumes "partial_equivalence jeq" "pk \<noteq> []" "m table = Some t" "unique_keys jeq pk (mt_rows t)"
    and "write_rows jeq m table Upsert rows pk rid = Inr m'"
  shows "\<exists>new. m' table = Some (t\<lparr>mt_rows := new\<rparr>) \<and> unique_keys jeq pk new \<and>
    (\<forall>q. find (\<lambda>e. same_key jeq pk e q) new =
       (case find (\<lambda>e. same_key jeq pk e q) (rev rows) of
          Some r \<Rightarrow> Some r | None \<Rightarrow> find (\<lambda>e. same_key jeq pk e q) (mt_rows t)))"
proof -
  have "m' table = Some (t\<lparr>mt_rows := fold (upsert_row jeq pk) rows (mt_rows t)\<rparr>)"
    using assms(2,3,5) by (auto simp: write_rows_def)
  moreover have "unique_keys jeq pk (fold (upsert_row jeq pk) rows (mt_rows t))"
    by (rule upsert_rows_unique [OF assms(1,4)])
  ultimately show ?thesis using find_upsert_rows [OF assms(1)] by blast
qed

theorem upsert_last_write_wins_witness:
  "\<exists>m' new. write_rows (=) [''t'' \<mapsto> \<lparr>mt_schema = schema_new ''t'', mt_mode = Shared, mt_rows = [[(''k'', IntegerVal 1)]]\<rparr>]
       ''t'' Upsert [[(''k'', IntegerVal 1), (''v'', IntegerVal 2)]] [''k''] ''r'' = Inr m' \<and>
     map_option mt_rows (m' ''t'') = Some new \<and>
     find (\<lambda>e. same_key (=) [''k''] e [(''k'', IntegerVal 1)]) new = Some [(''k'', IntegerVal 1), (''v'', IntegerVal 2)]"
proof -
  let ?t = "\<lparr>mt_schema = schema_new ''t'', mt_mode = Shared, mt_rows = [[(''k'', IntegerVal 1)]]\<rparr>"
  let ?rows = "[[(''k'', IntegerVal 1), (''v'', IntegerVal 2)]]"
  obtain m' where m: "write_rows (=) [''t'' \<mapsto> ?t] ''t'' Upsert ?rows [''k''] ''r'' = Inr m'"
    by (simp add: write_rows_def)
  have p: "partial_equivalence (=)" by (auto simp: partial_equivalence_def)
  obtain new where new: "m' ''t'' = Some (?t\<lparr>mt_rows := new\<rparr>)" and
    f: "\<forall>q. find (\<lambda>e. same_key (=) [''k''] e q) new = (case find (\<lambda>e. same_key (=) [''k''] e q) (rev ?rows) of
          Some r \<Rightarrow> Some r | None \<Rightarrow> find (\<lambda>e. same_key (=) [''k''] e q) (mt_rows ?t))"
    using upsert_last_write_wins [OF p _ _ _ m, of ?t] by (auto simp: unique_keys_def)
  have "find (\<lambda>e. same_key (=) [''k''] e [(''k'', IntegerVal 1)]) new = Some [(''k'', IntegerVal 1), (''v'', IntegerVal 2)]"
    unfolding f [rule_format] by (simp add: same_key_def)
  with m new show ?thesis by auto
qed

text \<open>
  C22: Replacing rows in a table that runs share, when the rows given bring no \<open>_run_id\<close> of
  their own, removes the rows of the writing run only: every row of another run, and every row that
  belongs to no run, is left as it was, in its order. The rows of the writing run are then exactly
  those written, with the identity the host injects.
\<close>

theorem replace_keeps_other_runs:
  assumes "m table = Some t" "mt_mode t = Shared"
    and "\<forall>row \<in> set rows. map_of row ''_run_id'' = None"
    and "write_rows jeq m table Replace (map (inject_identity rid wid nid md) rows) pk rid = Inr m'"
  shows "\<exists>new. m' table = Some (t\<lparr>mt_rows := new\<rparr>) \<and>
    filter (\<lambda>r. \<not> owned_by rid r) new = filter (\<lambda>r. \<not> owned_by rid r) (mt_rows t) \<and>
    filter (owned_by rid) new = map (inject_identity rid wid nid md) rows \<and>
    (\<forall>other. other \<noteq> rid \<longrightarrow> filter (owned_by other) new = filter (owned_by other) (mt_rows t)) \<and>
    (\<forall>u. u \<noteq> table \<longrightarrow> m' u = m u)"
proof -
  let ?rows = "map (inject_identity rid wid nid md) rows"
  let ?new = "filter (\<lambda>r. \<not> owned_by rid r) (mt_rows t) @ ?rows"
  have own: "owned_by r row \<longleftrightarrow> r = rid" if "row \<in> set ?rows" for row r
    using that assms(3) by (auto simp: owned_by_def inject_identity_lookup)
  have "filter (\<lambda>r. \<not> owned_by rid r) ?rows = []" "filter (owned_by rid) ?rows = ?rows"
    using own by (auto intro!: filter_True filter_False)
  moreover have "filter (owned_by other) ?rows = []" if "other \<noteq> rid" for other
    using own that by (auto intro!: filter_False)
  moreover have "filter (owned_by rid) (filter (\<lambda>r. \<not> owned_by rid r) rs) = []" for rs by (induction rs) auto
  moreover have "filter (owned_by other) (filter (\<lambda>r. \<not> owned_by rid r) rs) = filter (owned_by other) rs"
    if "other \<noteq> rid" for other rs
    using that by (auto simp: owned_by_def intro!: filter_cong split: option.splits store_value.splits)
  moreover have "m' table = Some (t\<lparr>mt_rows := ?new\<rparr>)" "\<forall>u. u \<noteq> table \<longrightarrow> m' u = m u"
    using assms(1,2,4) by (auto simp: write_rows_def)
  ultimately show ?thesis by (intro exI [of _ ?new]) simp
qed

theorem replace_keeps_other_runs_witness:
  "\<exists>m' new. write_rows (=) [''t'' \<mapsto> \<lparr>mt_schema = schema_new ''t'', mt_mode = Shared,
       mt_rows = [[(''_run_id'', TextVal ''a'')], [(''k'', NullVal)], [(''_run_id'', TextVal ''b'')]]\<rparr>] ''t'' Replace
       (map (inject_identity ''a'' ''w'' ''n'' ''m'') [[(''v'', IntegerVal 2)]]) [] ''a'' = Inr m' \<and>
     map_option mt_rows (m' ''t'') = Some new \<and>
     filter (\<lambda>r. \<not> owned_by ''a'' r) new = [[(''k'', NullVal)], [(''_run_id'', TextVal ''b'')]]"
proof -
  let ?t = "\<lparr>mt_schema = schema_new ''t'', mt_mode = Shared,
       mt_rows = [[(''_run_id'', TextVal ''a'')], [(''k'', NullVal)], [(''_run_id'', TextVal ''b'')]]\<rparr>"
  obtain m' where m: "write_rows (=) [''t'' \<mapsto> ?t] ''t'' Replace
       (map (inject_identity ''a'' ''w'' ''n'' ''m'') [[(''v'', IntegerVal 2)]]) [] ''a'' = Inr m'"
    by (simp add: write_rows_def Let_def)
  with replace_keeps_other_runs [of "[''t'' \<mapsto> ?t]" "''t''" ?t "[[(''v'', IntegerVal 2)]]" "(=)" "''a''"
      "''w''" "''n''" "''m''" "[]" m']
  show ?thesis by (auto simp: owned_by_def)
qed

section \<open>Policies\<close>

text \<open>
  C26: A policy that fires all nodes one way, compiled into the run request, makes every node
  of the assembly fire that way, whatever its capability declares; and the in-flight limit it sets is
  positive and at most the concurrency asked for, so that a run under a policy is never unlimited.
\<close>

theorem policy_pins_firing:
  assumes "fp_firing p = AllFiring f" "f \<noteq> FiringUnspecified" "rr_assembly req = Some a" "node \<in> set (as_nodes a)"
    and "run_policy (rs_run slot) = rr_policy (apply_to_run_request p req)"
  shows "effective_firing slot node cap = f \<and>
    (\<exists>l. rr_limits (apply_to_run_request p req) = Some l \<and> lim_max_in_flight l \<noteq> 0 \<and>
       unat (lim_max_in_flight l) = unat (effective_concurrency p))"
proof -
  have "run_policy (rs_run slot) = Some (execution_policy_for p (Some a))"
    using assms(3,5) by (simp add: apply_to_run_request_def Let_def)
  from pinned_firing [OF this assms(1,2,4)] show ?thesis
    using concurrency_limit unat_widen by (simp add: apply_to_run_request_def Let_def)
qed

theorem policy_pins_firing_witness:
  "\<exists>slot. effective_firing slot (hd (as_nodes sample_assembly)) (hd (mm_provides sample_manifest)) = Always"
proof -
  let ?req = "apply_to_run_request stream sample_run"
  let ?slot = "new_slot sample_run (new_run ?req sample_assembly 1)"
  have "effective_firing ?slot (hd (as_nodes sample_assembly)) (hd (mm_provides sample_manifest)) = Always \<and>
    (\<exists>l. rr_limits (apply_to_run_request stream sample_run) = Some l \<and> lim_max_in_flight l \<noteq> 0 \<and>
       unat (lim_max_in_flight l) = unat (effective_concurrency stream))"
    by (rule policy_pins_firing [of stream Always sample_run sample_assembly])
      (simp_all add: stream_def policy_base_def sample_run_def sample_assembly_def new_slot_def new_run_def)
  then show ?thesis by blast
qed

end
