(* ===== verification/ClaimSpec.thy ===== *)
theory ClaimSpec
  imports Effects
begin

text \<open>
  What a claim should hand out, stated over the run as it was before the call and without the
  functions of the implementation: which nodes have an open unit of work, which of them a request
  asks for, and how many the limits leave room for. \<open>claim_ready\<close> is proved to do exactly this.
\<close>

text \<open>The lease of a claim has run out; a lease of zero never does.\<close>

definition lease_over :: "int \<Rightarrow> claimed_slot \<Rightarrow> bool" where
  "lease_over now c \<longleftrightarrow> 0 < cs_lease_until_ms c \<and> cs_lease_until_ms c \<le> now"

definition live_claims :: "int \<Rightarrow> run_slot \<Rightarrow> string set" where
  "live_claims now slot = {i. \<exists>c. map_of (rs_claimed slot) i = Some c \<and> \<not> lease_over now c}"

text \<open>The units that are done, held under a live lease, or given up after their last attempt.\<close>

definition taken :: "int \<Rightarrow> run_slot \<Rightarrow> string set" where
  "taken now slot = rs_done_units slot \<union>
     {cs_unit_key c |i c. map_of (rs_claimed slot) i = Some c \<and>
        (\<not> lease_over now c \<or> rs_max_attempts slot \<le> cs_attempt c)}"

text \<open>The artifact at the source of a binding: a run input, or an output of the latest derivation of a node.\<close>

definition delivers :: "run_slot \<Rightarrow> binding \<Rightarrow> artifact_ref \<Rightarrow> bool" where
  "delivers slot b r \<longleftrightarrow>
     (if bd_input b \<noteq> []
      then \<exists>v. find (\<lambda>i. na_name i = bd_input b) (run_inputs (rs_run slot)) = Some v \<and> na_artifact v = Some r
      else \<exists>d v. rs_latest slot (bd_from_node b) = Some d \<and>
        find (\<lambda>i. na_name i = bd_from_port b) (dv_outputs d) = Some v \<and> na_artifact v = Some r)"

definition feeds :: "run_slot \<Rightarrow> assembly \<Rightarrow> assembly_node \<Rightarrow> named_artifact list \<Rightarrow> bool" where
  "feeds slot a node ins \<longleftrightarrow>
     list_all2 (\<lambda>b v. na_name v = bd_to_port b \<and> (\<exists>r. na_artifact v = Some r \<and> delivers slot b r))
       (filter (\<lambda>b. bd_to_node b = an_id node) (as_bindings a)) ins"

text \<open>A unit of a node that may be handed out, with its inputs.\<close>

definition open_unit ::
  "ext \<Rightarrow> int \<Rightarrow> kstate \<Rightarrow> run_slot \<Rightarrow> assembly \<Rightarrow> assembly_node \<Rightarrow> named_artifact list \<Rightarrow> string \<Rightarrow> bool" where
  "open_unit X now s slot a node ins key \<longleftrightarrow> feeds slot a node ins \<and>
     (\<exists>cap. node_matches s node = [cap] \<and>
        work_unit_key X slot node cap (effective_firing slot node cap) ins = Some key) \<and>
     key \<notin> taken now slot"

definition asked_for :: "claim_request \<Rightarrow> assembly_node \<Rightarrow> bool" where
  "asked_for req node \<longleftrightarrow>
     (cr_module req = [] \<or> an_module node = cr_module req) \<and>
     (cr_modules req = [] \<or> an_module node \<in> set (cr_modules req)) \<and>
     (cr_node_ids req = [] \<or> an_id node \<in> set (cr_node_ids req))"

definition claim_room :: "int \<Rightarrow> run_slot \<Rightarrow> claim_request \<Rightarrow> nat" where
  "claim_room now slot req =
     (let asked = (if cr_max_items req = 0 then 1 else unat (cr_max_items req))
      in if rs_max_in_flight slot = 0 then asked
         else min asked (unat (rs_max_in_flight slot) - card (live_claims now slot)))"

definition claim_of :: "work_item \<Rightarrow> claimed_slot" where
  "claim_of w = \<lparr>cs_work = w, cs_unit_key = wi_unit_key w, cs_lease_until_ms = wi_lease_until_unix_ms w,
     cs_attempt = wi_attempt w\<rparr>"

section \<open>Reaping and readiness\<close>

lemma lease_over_eq: "lease_over now c = expired now c"
  by (simp add: lease_over_def expired_def)

lemma reap_slot_frame:
  obtains claims units where "reap_slot X now slot = slot\<lparr>rs_claimed := claims, rs_done_units := units\<rparr>"
proof -
  have "\<exists>claims units. fold reap_claim ics slot = slot\<lparr>rs_claimed := claims, rs_done_units := units\<rparr>" for ics
  proof (induction ics arbitrary: slot)
    case Nil
    show ?case by (intro exI [of _ "rs_claimed slot"] exI [of _ "rs_done_units slot"]) simp
  next
    case (Cons ic ics)
    have "reap_claim ic slot = slot\<lparr>rs_claimed := AList.delete (fst ic) (rs_claimed slot),
        rs_done_units := (if rs_max_attempts slot \<le> cs_attempt (snd ic) then insert (cs_unit_key (snd ic)) (rs_done_units slot)
          else rs_done_units slot)\<rparr>" by (simp add: reap_claim_def Let_def)
    then obtain cl un where "reap_claim ic slot = slot\<lparr>rs_claimed := cl, rs_done_units := un\<rparr>" by blast
    with Cons.IH [of "reap_claim ic slot"] show ?case by auto
  qed
  with that show thesis unfolding reap_slot_def by blast
qed

lemma reap_slot_fields:
  "rs_run (reap_slot X now slot) = rs_run slot" "rs_latest (reap_slot X now slot) = rs_latest slot"
  "rs_input_epochs (reap_slot X now slot) = rs_input_epochs slot"
  "rs_node_commits (reap_slot X now slot) = rs_node_commits slot"
  "rs_max_in_flight (reap_slot X now slot) = rs_max_in_flight slot"
  "rs_default_lease_ms (reap_slot X now slot) = rs_default_lease_ms slot"
  by (rule reap_slot_frame [of X now slot]; simp)+

lemma reap_slot_distinct:
  "distinct (map fst (rs_claimed slot)) \<Longrightarrow> distinct (map fst (rs_claimed (reap_slot X now slot)))"
proof -
  have "distinct (map fst (rs_claimed slot)) \<Longrightarrow> distinct (map fst (rs_claimed (fold reap_claim ics slot)))" for ics slot
    by (induction ics arbitrary: slot) (simp_all add: reap_claim_result(2))
  then show "distinct (map fst (rs_claimed slot)) \<Longrightarrow> ?thesis" by (simp add: reap_slot_def)
qed

lemma resolve_feeds:
  "run_assembly (rs_run slot) = Some a \<Longrightarrow> resolve_inputs slot node = Some ins \<longleftrightarrow> feeds slot a node ins"
proof -
  assume a: "run_assembly (rs_run slot) = Some a"
  have "bound_source slot b = Some r \<longleftrightarrow> delivers slot b r" for b r
    by (auto simp: bound_source_def delivers_def bind_eq_Some_conv)
  then have one: "map_option (\<lambda>r. \<lparr>na_name = bd_to_port b, na_artifact = Some r\<rparr>) (bound_source slot b) = Some v \<longleftrightarrow>
      na_name v = bd_to_port b \<and> (\<exists>r. na_artifact v = Some r \<and> delivers slot b r)" for b v
    by (cases v) auto
  have "map f bs = map Some vs \<longleftrightarrow> list_all2 (\<lambda>b v. f b = Some v) bs vs" for f :: "binding \<Rightarrow> named_artifact option" and bs vs
    by (induction bs arbitrary: vs) (auto simp: list_all2_Cons1 Cons_eq_map_conv split: list.splits)
  then show ?thesis unfolding resolve_inputs_def a feeds_def one [symmetric] by (simp add: those_Some)
qed

lemma asked_for_eq: "node_matches_claim_filter req node = asked_for req node"
  by (auto simp: node_matches_claim_filter_def asked_for_def list_ex_iff)

lemma ready_open:
  assumes "order_permutes X" "distinct (map fst (rs_claimed slot))" "run_assembly (rs_run slot) = Some a"
    and "ks_modules s1 = ks_modules s"
  shows "ready_unit X s1 (reap_slot X now slot) node = Some (ins, key) \<longleftrightarrow> open_unit X now s slot a node ins key"
proof -
  let ?r = "reap_slot X now slot"
  note rr = reap_slot_result [OF assms(1,2), of now] reap_slot_fields [of X now slot]
  have "distinct (map fst (rs_claimed ?r))" using reap_slot_distinct [OF assms(2)] .
  then have "unit_is_claimed ?r key \<longleftrightarrow> (\<exists>i c. map_of (rs_claimed slot) i = Some c \<and> \<not> lease_over now c \<and> cs_unit_key c = key)"
    by (auto simp: unit_is_claimed_iff rr(1) lease_over_eq)
  then have tk: "key \<in> rs_done_units ?r \<or> unit_is_claimed ?r key \<longleftrightarrow> key \<in> taken now slot"
    by (auto simp: rr(2) taken_def lease_over_eq)
  have "effective_firing ?r node cap = effective_firing slot node cap" for cap
    by (simp add: effective_firing_def rr)
  moreover have dr: "delivery_row ?r = delivery_row slot" by (intro ext) (simp only: delivery_row_def rr)
  have "work_unit_key X ?r node cap f i = work_unit_key X slot node cap f i" for cap f i
    unfolding work_unit_key_def delivery_fingerprint_def dr rr ..
  moreover have "resolve_inputs ?r node = Some i \<longleftrightarrow> feeds slot a node i" for i
  proof -
    have "feeds ?r a node i = feeds slot a node i" by (simp add: feeds_def delivers_def rr)
    then show ?thesis using resolve_feeds [of ?r a] assms(3) by (simp add: rr)
  qed
  moreover have "node_matches s1 node = node_matches s node" by (simp add: node_matches_def assms(4))
  moreover have "ready_unit X s1 ?r node = Some (ins, key) \<longleftrightarrow> resolve_inputs ?r node = Some ins \<and>
      (\<exists>cap. capability_for_node s1 node = Inr cap \<and> work_unit_key X ?r node cap (effective_firing ?r node cap) ins = Some key) \<and>
      \<not> (key \<in> rs_done_units ?r \<or> unit_is_claimed ?r key)"
    by (auto simp: ready_unit_def split: option.splits sum.splits if_splits)
  ultimately show ?thesis unfolding tk by (simp add: open_unit_def capability_for_node_iff)
qed

section \<open>What a claim hands out\<close>

lemma map_filter_fst:
  assumes "\<And>x y. f x = Some y \<Longrightarrow> g y = x"
  shows "map g (List.map_filter f xs) = filter (\<lambda>x. f x \<noteq> None) xs"
  using assms by (induction xs) (auto simp: List.map_filter_simps split: option.split)

lemma ready_nodes:
  assumes "order_permutes X" "distinct (map fst (rs_claimed slot))" "run_assembly (rs_run slot) = Some a"
    and "ks_modules s1 = ks_modules s"
  shows "map fst (ready_candidates X s1 (reap_slot X now slot) req a) =
      filter (\<lambda>node. asked_for req node \<and> (\<exists>ins key. open_unit X now s slot a node ins key)) (as_nodes a)"
    and "(node, ins, key) \<in> set (ready_candidates X s1 (reap_slot X now slot) req a) \<Longrightarrow>
      node \<in> set (as_nodes a) \<and> asked_for req node \<and> open_unit X now s slot a node ins key"
proof -
  note ro = ready_open [OF assms]
  have some: "ready_unit X s1 (reap_slot X now slot) node \<noteq> None \<longleftrightarrow> (\<exists>ins key. open_unit X now s slot a node ins key)" for node
    unfolding ro [symmetric] by auto
  show "map fst (ready_candidates X s1 (reap_slot X now slot) req a) =
      filter (\<lambda>node. asked_for req node \<and> (\<exists>ins key. open_unit X now s slot a node ins key)) (as_nodes a)"
    unfolding ready_candidates_def
    by (subst map_filter_fst) (auto simp: asked_for_eq some simp del: not_None_eq not_Some_eq intro!: filter_cong)
  show "node \<in> set (as_nodes a) \<and> asked_for req node \<and> open_unit X now s slot a node ins key"
    if "(node, ins, key) \<in> set (ready_candidates X s1 (reap_slot X now slot) req a)"
    using that ro by (auto simp: ready_candidates_set asked_for_eq)
qed

lemma card_claims: "distinct (map fst al) \<Longrightarrow> card (dom (map_of al)) = length al"
  using distinct_card [of "map fst al"] by (simp add: dom_map_of_conv_image_fst)

lemma live_card:
  assumes "order_permutes X" "distinct (map fst (rs_claimed slot))"
  shows "length (rs_claimed (reap_slot X now slot)) = card (live_claims now slot)"
proof -
  have "dom (map_of (rs_claimed (reap_slot X now slot))) = live_claims now slot"
    by (auto simp: live_claims_def lease_over_eq dom_def reap_slot_result(1) [OF assms])
  with card_claims [OF reap_slot_distinct [OF assms(2)], of X now] show ?thesis by simp
qed

lemma want_room:
  assumes "order_permutes X" "distinct (map fst (rs_claimed slot))" "slot_inv A rid (reap_slot X now slot)"
  shows "claim_want (reap_slot X now slot) req = claim_room now slot req"
proof -
  let ?r = "reap_slot X now slot" and ?m = "rs_max_in_flight slot"
  have l: "?m \<noteq> 0 \<Longrightarrow> length (rs_claimed ?r) \<le> unat ?m"
    using slot_invD(5) [OF assms(3)] by (simp add: has_room_for_def reap_slot_fields)
  have "unat (cr_max_items req) < 2 ^ LENGTH(32)" by (rule unsigned_less)
  then have asked: "min (if cr_max_items req = 0 then 1 else unat (cr_max_items req)) (2 ^ 64 - 1) =
      (if cr_max_items req = 0 then 1 else unat (cr_max_items req))" by simp
  have "unat (u64_saturating_sub ?m (of_nat (length (rs_claimed ?r)))) = unat ?m - length (rs_claimed ?r)" if "?m \<noteq> 0"
  proof -
    have "unat ?m < 2 ^ LENGTH(64)" by (rule unsigned_less)
    with l [OF that] have u: "unat (of_nat (length (rs_claimed ?r)) :: u64) = length (rs_claimed ?r)" by (simp add: unat_of_nat)
    with l [OF that] have "(of_nat (length (rs_claimed ?r)) :: u64) \<le> ?m" by (simp add: word_le_nat_alt)
    with u show ?thesis by (simp add: u64_saturating_sub_def unat_sub)
  qed
  then show ?thesis
    using asked live_card [OF assms(1,2), of now]
    by (simp add: claim_want_def claim_room_def in_flight_capacity_def reap_slot_fields Let_def)
qed

text \<open>The claims after handing out, when no two of the units share a work id.\<close>

lemma claim_units_claims:
  assumes "distinct (map (\<lambda>(n, ins, k). work_id_of rid (an_id n) k) cands)"
  shows "map_of (rs_claimed (snd (claim_units now rid slot cands))) i = Some c \<longleftrightarrow>
    (\<exists>w \<in> set (fst (claim_units now rid slot cands)). wi_id w = i \<and> c = claim_of w) \<or>
    i \<notin> (\<lambda>(n, ins, k). work_id_of rid (an_id n) k) ` set cands \<and> map_of (rs_claimed slot) i = Some c"
  using assms
proof (induction cands arbitrary: slot)
  case (Cons cand cands)
  obtain node ins key where cand: "cand = (node, ins, key)" by (metis prod_cases3)
  let ?s = "snd (claim_one now rid slot (node, ins, key))" and ?w = "fst (claim_one now rid slot (node, ins, key))"
  let ?ids = "\<lambda>cs. (\<lambda>(n, ins, k). work_id_of rid (an_id n) k) ` set cs" and ?i = "work_id_of rid (an_id node) key"
  have w: "wi_id ?w = ?i" "new_claim now rid slot node ins key = claim_of ?w"
    by (simp_all add: claim_one_def Let_def new_claim_def claim_of_def)
  have m: "map_of (rs_claimed ?s) = (map_of (rs_claimed slot))(?i \<mapsto> claim_of ?w)"
    by (simp add: claim_one_slot update_conv' w(2))
  have fresh: "?i \<notin> ?ids cands" using Cons.prems by (simp add: cand)
  have ih: "map_of (rs_claimed (snd (claim_units now rid ?s cands))) i = Some c \<longleftrightarrow>
    (\<exists>w \<in> set (fst (claim_units now rid ?s cands)). wi_id w = i \<and> c = claim_of w) \<or>
    i \<notin> ?ids cands \<and> map_of (rs_claimed ?s) i = Some c"
    using Cons.prems by (intro Cons.IH) (simp add: cand)
  show ?case using ih fresh w(1) unfolding m by (auto simp: cand split_beta Let_def)
qed simp

lemma distinct_map_via:
  "distinct (map k xs) \<Longrightarrow> (\<And>x y. x \<in> set xs \<Longrightarrow> y \<in> set xs \<Longrightarrow> g x = g y \<Longrightarrow> k x = k y) \<Longrightarrow> distinct (map g xs)"
  unfolding distinct_map inj_on_def by blast

text \<open>The unit of a candidate as a work item.\<close>

definition handed_out :: "int \<Rightarrow> string \<Rightarrow> run_slot \<Rightarrow> assembly_node \<Rightarrow> named_artifact list \<Rightarrow> string \<Rightarrow> work_item" where
  "handed_out now rid slot node ins key =
     \<lparr>wi_id = work_id_of rid (an_id node) key, wi_run_id = rid, wi_node_id = an_id node, wi_module = an_module node,
      wi_module_version = an_module_version node, wi_capability = an_capability node, wi_inputs = ins,
      wi_unit_key = key,
      wi_attempt = (case rs_claim_attempts slot key of None \<Rightarrow> 1 | Some n \<Rightarrow> n + 1),
      wi_lease_until_unix_ms = i64_saturating_add now (u64_as_i64 (rs_default_lease_ms slot))\<rparr>"

lemma claim_one_handed:
  assumes "rs_claim_attempts slot' = rs_claim_attempts slot" "rs_default_lease_ms slot' = rs_default_lease_ms slot"
  shows "fst (claim_one now rid slot' (node, ins, key)) = handed_out now rid slot node ins key"
  unfolding claim_one_def handed_out_def Let_def assms prod.case fst_conv
  by (cases "rs_claim_attempts slot key") simp_all

lemma claim_spec:
  assumes X: "documented X" and r: "reachable X pol s" and ok: "claim_ready X now s req = (Inr items, s')"
  obtains slot a where "ks_runs s (cr_run_id req) = Some slot" "running slot" "run_assembly (rs_run slot) = Some a"
    "map wi_node_id items = map an_id (take (claim_room now slot req)
       (filter (\<lambda>node. asked_for req node \<and> (\<exists>ins key. open_unit X now s slot a node ins key)) (as_nodes a)))"
    "\<forall>w \<in> set items. \<exists>node ins key. node \<in> set (as_nodes a) \<and> open_unit X now s slot a node ins key \<and>
       w = handed_out now (cr_run_id req) slot node ins key"
    "plain_nodes slot \<longrightarrow> (\<exists>slot'. ks_runs s' (cr_run_id req) = Some slot' \<and> (\<forall>i c. map_of (rs_claimed slot') i = Some c \<longleftrightarrow>
       (\<exists>w \<in> set items. wi_id w = i \<and> c = claim_of w) \<or> map_of (rs_claimed slot) i = Some c \<and> \<not> lease_over now c))"
proof -
  let ?rid = "cr_run_id req"
  have inv: "runs_inv s" using kernel_invD(5) [OF reachable_inv [OF X r]] .
  have P: "order_permutes X" "digest_32 X" using X by (simp_all add: documented_def)
  let ?s1 = "reap_expired_locked X now s ?rid"
  obtain slot a where slot: "ks_runs s ?rid = Some slot" "running slot" "run_assembly (rs_run slot) = Some a"
    and items: "items = map (\<lambda>cand. fst (claim_one now ?rid (reap_slot X now slot) cand))
       (take (claim_want (reap_slot X now slot) req) (ready_candidates X ?s1 (reap_slot X now slot) req a))"
    by (rule claim_result [OF X inv ok])
  let ?r = "reap_slot X now slot"
  let ?c = "take (claim_want ?r req) (ready_candidates X ?s1 ?r req a)"
  note reaped = reaped_state [OF P(1) inv slot(1,2), of now]
  have d: "distinct (map fst (rs_claimed slot))" using inv slot(1) slot_invD(2) unfolding runs_inv_def by blast
  have mods: "ks_modules ?s1 = ks_modules s" using run_frame_fields(1) reaped(1) unfolding run_op_def by blast
  have cands: "cands_ok (stored s) ?r ?c"
    by (intro cands_ok_take ready_candidates_ok [OF P(2) reaped(3)]) (simp add: slot(3) reap_slot_fields)
  note ready = ready_nodes [OF P(1) d slot(3) mods] and room = want_room [OF P(1) d reaped(3)]
  have same: "rs_claim_attempts ?r = rs_claim_attempts slot" "rs_default_lease_ms ?r = rs_default_lease_ms slot"
    using reap_slot_result(3) [OF P(1) d] reap_slot_fields by simp_all
  note one = claim_one_handed [OF same]
  have "map wi_node_id items = map an_id (map fst ?c)"
    unfolding items by (auto simp: one handed_out_def)
  also have "\<dots> = map an_id (take (claim_room now slot req)
       (filter (\<lambda>node. asked_for req node \<and> (\<exists>ins key. open_unit X now s slot a node ins key)) (as_nodes a)))"
    by (simp only: take_map [symmetric] ready(1) room)
  finally have nodes: "map wi_node_id items = \<dots>" .
  have each: "\<exists>node ins key. node \<in> set (as_nodes a) \<and> open_unit X now s slot a node ins key \<and>
       w = handed_out now ?rid slot node ins key" if w: "w \<in> set items" for w
  proof -
    from w obtain node ins key where c: "(node, ins, key) \<in> set ?c" "w = handed_out now ?rid slot node ins key"
      unfolding items by (auto simp: one)
    then have "(node, ins, key) \<in> set (ready_candidates X ?s1 ?r req a)" by (meson in_set_takeD)
    with ready(2) c(2) show ?thesis by blast
  qed
  have state: "\<exists>slot'. ks_runs s' ?rid = Some slot' \<and> (\<forall>i c. map_of (rs_claimed slot') i = Some c \<longleftrightarrow>
       (\<exists>w \<in> set items. wi_id w = i \<and> c = claim_of w) \<or> map_of (rs_claimed slot) i = Some c \<and> \<not> lease_over now c)"
    if plain: "plain_nodes slot"
  proof -
    let ?wid = "\<lambda>(n, ins, k). work_id_of ?rid (an_id n) k"
    have nodes_eq: "slot_nodes ?r = slot_nodes slot" by (rule slot_nodes_cong) (simp add: reap_slot_fields)
    have cu: "claim_items X now ?s1 ?r req = claim_units now ?rid ?r ?c"
      by (simp add: claim_items_def Let_def slot(3) reap_slot_fields)
    have fst_items: "fst (claim_units now ?rid ?r ?c) = items"
      using ok slot reaped(2) cu by (auto simp: claim_ready_def running_def Let_def split_beta split: if_splits)
    obtain slot' where slot': "ks_runs s' ?rid = Some slot'" "rs_claimed slot' = rs_claimed (snd (claim_units now ?rid ?r ?c))"
    proof -
      let ?s2 = "snd (claim_units now ?rid ?r ?c)"
      have "ks_runs s' ?rid = Some ?s2 \<or> ks_runs s' ?rid = Some (stall_slot ?s2)"
        using ok slot reaped(2) cu
        by (auto simp: claim_ready_def running_def Let_def split_beta stall_run_def frame set_slot_def split: if_splits)
      with that show thesis by auto
    qed
    have key_eq: "k = l" if "?wid (n, i, k) = ?wid (m, j, l)" "n \<in> slot_nodes slot" "m \<in> slot_nodes slot"
      "unit_key_for (an_id n) k" "unit_key_for (an_id m) l" for n m i j k l
      using that plain work_id_of_unit [of "an_id n" k "an_id m" l ?rid] unfolding plain_nodes_def by auto
    have dw: "distinct (map ?wid ?c)"
    proof (rule distinct_map_via)
      show "distinct (map (\<lambda>(n, ins, k). k) ?c)" using cands unfolding cands_ok_def by blast
      fix x y assume xy: "x \<in> set ?c" "y \<in> set ?c" "?wid x = ?wid y"
      obtain n i k m j l where p: "x = (n, i, k)" "y = (m, j, l)" by (metis prod_cases3)
      have "n \<in> slot_nodes slot \<and> unit_key_for (an_id n) k" "m \<in> slot_nodes slot \<and> unit_key_for (an_id m) l"
        using cands xy(1,2) unfolding cands_ok_def p nodes_eq by blast+
      then have "k = l" using key_eq [of n i k m j l] xy(3) unfolding p by blast
      then show "(\<lambda>(n, ins, k). k) x = (\<lambda>(n, ins, k). k) y" unfolding p by simp
    qed
    have apart: "i \<notin> ?wid ` set ?c" if i: "map_of (rs_claimed ?r) i = Some c" for i c
    proof
      assume "i \<in> ?wid ` set ?c"
      then obtain n j k where x: "(n, j, k) \<in> set ?c" "i = work_id_of ?rid (an_id n) k" by auto
      have k: "n \<in> slot_nodes slot" "unit_key_for (an_id n) k" "\<not> unit_is_claimed ?r k"
        using cands x(1) unfolding cands_ok_def nodes_eq by blast+
      from slot_invD(3) [OF reaped(3) i] obtain m where m: "m \<in> slot_nodes slot" "unit_key_for (an_id m) (cs_unit_key c)"
          "i = work_id_of ?rid (an_id m) (cs_unit_key c)"
        unfolding claim_inv_def nodes_eq by blast
      from key_eq [of n j k m j "cs_unit_key c"] x(2) k m have "k = cs_unit_key c" by simp
      with claimed_unit [OF i] k(3) show False by simp
    qed
    have "map_of (rs_claimed slot') i = Some c \<longleftrightarrow>
       (\<exists>w \<in> set items. wi_id w = i \<and> c = claim_of w) \<or> map_of (rs_claimed slot) i = Some c \<and> \<not> lease_over now c" for i c
      using claim_units_claims [OF dw, of now ?r i c] apart [of i c]
      unfolding slot'(2) fst_items lease_over_eq reap_slot_result(1) [OF P(1) d, symmetric] by blast
    with slot'(1) show ?thesis by blast
  qed
  show thesis by (rule that [OF slot nodes]) (use each state in blast)+
qed

end
