(* ===== verification/RegistryEffects.thy ===== *)
theory RegistryEffects
  imports Kernel
begin

text \<open>
  What \<open>put_contract\<close> and \<open>transition\<close> answer and do, on every branch, stated over the contracts and
  modules before and after the call.
\<close>

section \<open>Contracts\<close>

lemma sort_empty [simp]: "sort xs = [] \<longleftrightarrow> xs = []"
  by (metis length_0_conv length_sort)

lemma placeholder_digest:
  "is_contract_placeholder b \<Longrightarrow> is_contract_placeholder c \<Longrightarrow> contract_digest_of X b = contract_digest_of X c"
  by (simp add: is_contract_placeholder_def contract_digest_of_def)

text \<open>The contract as it is stored.\<close>

definition stored_contract :: "ext \<Rightarrow> contract \<Rightarrow> contract" where
  "stored_contract X c =
     \<lparr>ct_ref = ct_ref c, ct_schema = ct_schema c, ct_media_type = ct_media_type c, ct_version = ct_version c,
      ct_digest = contract_digest_of X c, ct_compatible_with = sort (ct_compatible_with c)\<rparr>"

definition contract_claim_ok :: "ext \<Rightarrow> contract \<Rightarrow> bool" where
  "contract_claim_ok X c \<longleftrightarrow> ct_ref c \<noteq> [] \<and> (ct_digest c = [] \<or> ct_digest c = contract_digest_of X c)"

definition contract_accepted :: "ext \<Rightarrow> kstate \<Rightarrow> contract \<Rightarrow> bool" where
  "contract_accepted X s c \<longleftrightarrow> contract_claim_ok X c \<and>
     (\<forall>b. map_of (ks_contracts s) (ct_ref c) = Some b \<and> \<not> is_contract_placeholder b \<longrightarrow> ct_digest b = contract_digest_of X c)"

lemma put_contract_invalid:
  "\<not> contract_claim_ok X c \<Longrightarrow> \<exists>e. put_contract X s c = (Inl e, s) \<and> code e = CodeInvalid"
  by (auto simp: put_contract_def contract_claim_ok_def contract_digest_of_def Let_def)

lemma put_contract_valid:
  assumes "contract_claim_ok X c"
  shows "put_contract X s c =
    (case map_of (ks_contracts s) (ct_ref c) of
       Some b \<Rightarrow>
         if ct_digest b = contract_digest_of X c then (Inr b, s)
         else if is_contract_placeholder b \<and> \<not> is_contract_placeholder (stored_contract X c)
         then (Inr (stored_contract X c), log_entry X
           (s\<lparr>ks_contracts := AList.update (ct_ref c) (stored_contract X c) (ks_contracts s)\<rparr>)
           ''contract.registered'' (ct_ref c) (enc_contract X (stored_contract X c)))
         else (Inl (Conflict (''contract '' @ ct_ref c @ '' already registered with different content'')), s)
     | None \<Rightarrow> (Inr (stored_contract X c), log_entry X
           (s\<lparr>ks_contracts := AList.update (ct_ref c) (stored_contract X c) (ks_contracts s)\<rparr>)
           ''contract.registered'' (ct_ref c) (enc_contract X (stored_contract X c))))"
proof -
  have eq: "stored_contract X c = c\<lparr>ct_compatible_with := sort (ct_compatible_with c), ct_digest := contract_digest_of X c\<rparr>"
    by (simp add: stored_contract_def)
  have dg: "contract_digest X (ct_media_type c) (ct_schema c) (ct_version c) (sort (ct_compatible_with c)) = contract_digest_of X c"
    by (simp add: contract_digest_of_def)
  from assms have "ct_ref c \<noteq> []" "\<not> (ct_digest c \<noteq> [] \<and> ct_digest c \<noteq> contract_digest_of X c)"
    by (auto simp: contract_claim_ok_def)
  then show ?thesis
    unfolding put_contract_def eq by (cases "ct_digest c = []") (simp_all add: Let_def dg split: option.split)
qed

text \<open>One new contract, one new ledger entry, nothing else.\<close>

definition contract_added :: "ext \<Rightarrow> kstate \<Rightarrow> kstate \<Rightarrow> contract \<Rightarrow> bool" where
  "contract_added X s s' d \<longleftrightarrow>
     (\<exists>cs en. s' = s\<lparr>ks_contracts := cs, ks_ledger := ks_ledger s @ [en]\<rparr> \<and>
        map_of cs = (map_of (ks_contracts s))(ct_ref d \<mapsto> d) \<and>
        le_kind en = ''contract.registered'' \<and> le_subject en = ct_ref d \<and> le_detail en = enc_contract X d)"

lemma contract_logged:
  assumes "ct_ref d = r"
  shows "contract_added X s (log_entry X (s\<lparr>ks_contracts := AList.update r d (ks_contracts s)\<rparr>)
    ''contract.registered'' r (enc_contract X d)) d"
  unfolding contract_added_def using assms
  by (intro exI [of _ "AList.update r d (ks_contracts s)"]
      exI [of _ "next_entry X (ks_ledger s) ''contract.registered'' r (enc_contract X d)"])
    (simp add: append_locked_def update_conv' next_entry_def Let_def)

lemma put_contract_exact:
  assumes "contracts_ok X s" "put_contract X s c = (res, s')"
  shows "case res of
      Inl e \<Rightarrow> \<not> contract_accepted X s c \<and> s' = s \<and> code e = (if contract_claim_ok X c then CodeConflict else CodeInvalid)
    | Inr d \<Rightarrow> contract_accepted X s c \<and>
        (case map_of (ks_contracts s) (ct_ref c) of
           None \<Rightarrow> d = stored_contract X c \<and> contract_added X s s' d
         | Some b \<Rightarrow> if ct_digest b = contract_digest_of X c then d = b \<and> s' = s
             else d = stored_contract X c \<and> contract_added X s s' d)"
proof (cases "contract_claim_ok X c")
  case False
  then obtain e where "put_contract X s c = (Inl e, s)" "code e = CodeInvalid" using put_contract_invalid by blast
  with False assms(2) show ?thesis by (auto simp: contract_accepted_def)
next
  case True
  have ref: "ct_ref (stored_contract X c) = ct_ref c" by (simp add: stored_contract_def)
  note added = contract_logged [OF ref, of X s]
  show ?thesis
  proof (cases "map_of (ks_contracts s) (ct_ref c)")
    case None
    then show ?thesis
      using put_contract_valid [OF True, of s] assms(2) True added by (auto simp: contract_accepted_def)
  next
    case (Some b)
    have b: "ct_digest b = contract_digest_of X b" using contracts_ok_lookup [OF assms(1) Some] by (simp add: contract_ok_def)
    have p: "is_contract_placeholder (stored_contract X c) \<longleftrightarrow> is_contract_placeholder c"
      by (simp add: is_contract_placeholder_def stored_contract_def)
    have "\<not> is_contract_placeholder c" if "is_contract_placeholder b" "ct_digest b \<noteq> contract_digest_of X c"
      using that placeholder_digest [of b c X] b by auto
    then show ?thesis
      using put_contract_valid [OF True, of s] assms(2) True added Some p
      by (auto simp: contract_accepted_def split: if_splits)
  qed
qed

section \<open>Lifecycle\<close>

text \<open>The verb that the ledger records for the state a module has entered.\<close>

definition entered_verb :: "int \<Rightarrow> string" where
  "entered_verb i = (if i = 1 then ''registered'' else if i = 2 then ''loaded'' else if i = 3 then ''activated'' else ''deactivated'')"

text \<open>Module \<open>i\<close> has moved to \<open>to\<close>, one ledger entry says so, and nothing else has changed.\<close>

definition module_moved :: "kstate \<Rightarrow> kstate \<Rightarrow> nat \<Rightarrow> string \<Rightarrow> int \<Rightarrow> bool" where
  "module_moved s s' i name to \<longleftrightarrow>
     (\<exists>ms en. s' = s\<lparr>ks_modules := ms, ks_ledger := ks_ledger s @ [en]\<rparr> \<and> length ms = length (ks_modules s) \<and>
        (\<forall>j < length ms. ms_manifest (ms ! j) = ms_manifest (ks_modules s ! j) \<and>
           lifecycle_i32 (ms_lifecycle (ms ! j)) = (if j = i then to else lifecycle_i32 (ms_lifecycle (ks_modules s ! j)))) \<and>
        le_kind en = ''module.'' @ entered_verb to \<and> le_subject en = name \<and> le_detail en = [])"

lemma update_first_at:
  assumes "i < length xs" "p (xs ! i)" "\<forall>j < i. \<not> p (xs ! j)"
  shows "update_first p f xs = xs[i := f (xs ! i)]" "find p xs = Some (xs ! i)"
proof -
  show "update_first p f xs = xs[i := f (xs ! i)]"
    using assms
  proof (induction xs arbitrary: i)
    case (Cons x xs)
    show ?case
    proof (cases i)
      case (Suc k)
      with Cons.prems have "\<not> p x" by auto
      moreover have "update_first p f xs = xs[k := f (xs ! k)]" using Cons.prems Suc by (intro Cons.IH) auto
      ultimately show ?thesis using Suc by simp
    qed (use Cons.prems in simp)
  qed simp
  show "find p xs = Some (xs ! i)" using assms by (auto simp: find_Some_iff)
qed

lemma verb_of: "0 < lifecycle_i32 l \<Longrightarrow> lifecycle_verb l = entered_verb (lifecycle_i32 l)"
  by (cases l) (simp_all add: entered_verb_def)

lemma lifecycle_nonneg: "0 \<le> lifecycle_i32 l"
  by (cases l) simp_all

lemma target_state:
  assumes "0 \<le> l"
  shows "lifecycle_i32 (case lifecycle_try_from t of None \<Rightarrow> LifecycleUnspecified | Some l \<Rightarrow> l) = l + 1 \<longleftrightarrow>
    t = l + 1 \<and> t \<le> 4"
  using assms by (auto simp: lifecycle_try_from_def)

lemma transition_exact:
  assumes "check_deadline now ctx = Inr ()" "transition_req X now s req ctx = (res, s')"
    and "i < length (ks_modules s)" "mm_name (ms_manifest (ks_modules s ! i)) = tq_module req"
    and "\<forall>j < i. mm_name (ms_manifest (ks_modules s ! j)) \<noteq> tq_module req"
  shows "let l = lifecycle_i32 (ms_lifecycle (ks_modules s ! i)) in
    if tq_to req = l + 1 \<and> tq_to req \<le> 4 then res = Inr (tq_to req) \<and> module_moved s s' i (tq_module req) (tq_to req)
    else res = Inr l \<and> s' = s"
proof -
  let ?p = "named_module (tq_module req)" and ?m = "ks_modules s ! i"
  let ?l = "lifecycle_i32 (ms_lifecycle ?m)"
  define to where "to = (case lifecycle_try_from (tq_to req) of None \<Rightarrow> LifecycleUnspecified | Some l \<Rightarrow> l)"
  let ?f = "\<lambda>m. m\<lparr>ms_lifecycle := to\<rparr>"
  have at: "i < length (ks_modules s)" "?p ?m" "\<forall>j < i. \<not> ?p (ks_modules s ! j)" using assms(3-5) by (simp_all add: named_module_def)
  note found = update_first_at(2) [OF at] and upd = update_first_at(1) [OF at, of ?f]
  have p': "?p (?f ?m)" using at(2) by (simp add: named_module_def)
  then have found': "find ?p (update_first ?p ?f (ks_modules s)) = Some (?f ?m)" using find_update_first [OF found] by simp
  have iff: "lifecycle_i32 to = ?l + 1 \<longleftrightarrow> tq_to req = ?l + 1 \<and> tq_to req \<le> 4"
    unfolding to_def by (rule target_state [OF lifecycle_nonneg])
  have tr: "transition_req X now s req ctx =
      (let s = (if lifecycle_i32 to = ?l + 1
          then log_entry X (s\<lparr>ks_modules := update_first ?p ?f (ks_modules s)\<rparr>) (''module.'' @ lifecycle_verb to) (tq_module req) []
          else s)
       in case find ?p (ks_modules s) of None \<Rightarrow> (Inl (NotFound (tq_module req)), s)
          | Some m \<Rightarrow> (Inr (lifecycle_i32 (ms_lifecycle m)), s))"
    by (simp add: transition_req_def assms(1) found to_def [symmetric])
  show ?thesis
  proof (cases "lifecycle_i32 to = ?l + 1")
    case True
    with iff have t: "tq_to req = ?l + 1" "tq_to req \<le> 4" by simp_all
    with True have eq: "lifecycle_i32 to = tq_to req" by simp
    have "0 < lifecycle_i32 to" using True lifecycle_nonneg [of "ms_lifecycle ?m"] by simp
    from verb_of [OF this] have verb: "lifecycle_verb to = entered_verb (tq_to req)" unfolding eq .
    let ?ms = "(ks_modules s)[i := ?f ?m]"
    let ?en = "next_entry X (ks_ledger s) (''module.'' @ lifecycle_verb to) (tq_module req) []"
    have r: "res = Inr (lifecycle_i32 to)" "s' = s\<lparr>ks_modules := ?ms, ks_ledger := ks_ledger s @ [?en]\<rparr>"
      using assms(2) found' unfolding tr by (simp_all add: True append_locked_def upd Let_def)
    have "module_moved s s' i (tq_module req) (tq_to req)"
      unfolding module_moved_def
      by (intro exI [of _ ?ms] exI [of _ ?en])
        (simp add: r(2) eq nth_list_update next_entry_def Let_def verb)
    with r(1) eq t show ?thesis by (simp add: Let_def)
  next
    case False
    with found have "transition_req X now s req ctx = (Inr ?l, s)" unfolding tr by (simp add: Let_def)
    with assms(2) have "res = Inr ?l" "s' = s" by (metis prod.inject)+
    with False iff show ?thesis by (simp add: Let_def)
  qed
qed

lemma transition_unknown:
  assumes "check_deadline now ctx = Inr ()" "transition_req X now s req ctx = (res, s')"
    and "\<forall>m \<in> set (ks_modules s). mm_name (ms_manifest m) \<noteq> tq_module req"
  shows "res = Inl (NotFound (tq_module req)) \<and> s' = s"
proof -
  have "find (named_module (tq_module req)) (ks_modules s) = None" using assms(3) by (auto simp: find_None_iff named_module_def)
  with assms(1,2) show ?thesis by (simp add: transition_req_def)
qed

end
