(* ===== verification/Spec2Isabelle.thy ===== *)
theory Spec2Isabelle
  imports FrameworkClaims ClaimSpec RegistryEffects
begin

text \<open>
  A verification development for the Rust realisation of srcport-substrate: the in-memory kernel
  (\<open>kernel/sdk/rust/src/lib.rs\<close>) and the framework host over it (\<open>framework/sdk/rust/src\<close>).

  \<^bold>\<open>The program.\<close> The kernel keeps one locked state: registered modules and contracts, a store of
  artifacts addressed by their content, a store of blobs, a hash-chained ledger, an event bus, runs
  of assemblies, derivations, and a cache of answered requests. A run hands out its ready units of
  work under leases, takes commits and failures, and ends completed, stalled or cancelled. The
  framework host owns a kernel and drives runs: it registers plugins, cuts an assembly to the nodes a
  policy keeps, starts the run, claims work in waves, executes it or reuses memoised outputs,
  commits, writes rows to tables and forgets the run when it ends.

  \<^bold>\<open>The theories, in the order they import each other.\<close>

  \<^item> \<open>Prelude\<close>: bytes, widths, saturating arithmetic, hexadecimal and decimal text, the early-return
    loop, sorted association lists (\<open>BTreeMap\<close>). \<open>Proto\<close>: the messages and enumerations of
    \<open>substrate.proto\<close> and the record \<open>ext\<close> of the code outside the repository. \<open>Errors\<close>: \<open>KernelError\<close>.
  \<^item> \<open>Addressing\<close>: store policy, canonical bytes and addresses of trait bags, projection and merge.
    \<open>Ledger\<close>: the chain. \<open>State\<close>: the struct \<open>State\<close>, the deadline check, the idempotency cache.
  \<^item> \<open>Registry\<close>, \<open>Store\<close>, \<open>Bus\<close>, \<open>Assembly\<close>, \<open>Units\<close>, \<open>Runs\<close>: one theory per group of operations of
    \<open>impl KernelApi for MemoryKernel\<close>, each operation a definition from the state (and the time) to a
    result and the new state. \<open>RunSteps\<close>: the abstract machine of a run and the proof that every
    operation on runs is a sequence of its steps.
  \<^item> \<open>Kernel\<close>: the dispatch \<open>kernel_call\<close> of one request, the machine \<open>kernel_step\<close> whose steps are calls
    with any arguments at any time, \<open>reachable\<close>, and the invariant of every reachable state.
    \<open>Effects\<close>: what claims, commits, heartbeats and failures do exactly. \<open>ClaimSpec\<close>: what a claim should
    hand out, stated without the functions of the implementation, and the proof that it does.
    \<open>RegistryEffects\<close>: \<open>put_contract\<close> and \<open>transition\<close> against their contracts. \<open>Replay\<close>: the cache and
    the deadlines.
  \<^item> \<open>FwBase\<close>, \<open>Storage\<close>, \<open>Memo\<close>, \<open>Policy\<close>, \<open>Cut\<close>, \<open>Presentation\<close>: \<open>storage.rs\<close>, \<open>memo.rs\<close>, \<open>policy.rs\<close>,
    \<open>cut.rs\<close>, \<open>presentation.rs\<close>. \<open>Host\<close>, \<open>Drive\<close>: \<open>lib.rs\<close> of the framework, the host state and every
    operation on it. \<open>HostFacts\<close>, \<open>Pipelines\<close>, \<open>HostMachine\<close>: what they do to the kernel and to the
    host, and the host as a machine \<open>host_step\<close>. \<open>HostAgree\<close>: what the host believes of its kernel, as an
    invariant of that machine.
  \<^item> \<open>Sample\<close>, \<open>HostSample\<close>: a concrete kernel session and a concrete host on which the properties are
    applied. \<open>FrameworkClaims\<close>: the properties of the framework; this theory: those of the kernel.

  \<^bold>\<open>State and operations.\<close> The kernel's \<open>Mutex<State>\<close> is the record \<open>kstate\<close>; an operation holds the
  lock for its whole body, so a call is one atomic step. Slots of runs are \<open>run_slot\<close> records with
  their \<open>claimed_slot\<close>s in an association list; lookups go through maps. \<open>Result<T, KernelError>\<close> is a
  sum, every \<open>?\<close> and early return a branch. The host is the record \<open>host\<close>; its operations return the
  error or the value together with the host, so an error keeps what was done before it. Integers are
  words where the source has \<open>u32\<close> or \<open>u64\<close>; an \<open>i64\<close> is an \<open>int\<close> with its saturation written out. A
  \<open>String\<close> is its list of bytes.

  \<^bold>\<open>Code outside the repository\<close> is a parameter: SHA-256, the protobuf encodings and the iteration
  order of a \<open>HashMap\<close> in \<open>ext\<close>; the clock, the equality and encodings of \<open>serde_json\<close> in \<open>host_env\<close>. The
  predicate \<open>documented\<close> says what is relied on: a digest has 32 bytes and an iteration visits every
  key once. No theorem assumes that SHA-256 is injective: where it matters the conclusion is equality
  or an exhibited collision. A plugin is a record of functions that also take the number of the call,
  so that a plugin may answer differently each time. Subscriptions use \<open>std::sync::mpsc\<close>, modelled by a
  bounded queue per channel.

  \<^bold>\<open>What the lemmas show.\<close> The locales state the contracts between components and are interpreted on
  the definitions of the code: \<open>chained_log\<close> (ledger), \<open>first_write_store\<close> (artifacts and blobs), \<open>machine\<close>
  (kernel invariant, attempts, bus, typed cache), \<open>memo_store\<close>, \<open>storage_backend\<close> (the in-memory ones)
  and \<open>host_closed\<close> (what is kept by every small move of the host is kept by all of its work). The
  kernel properties: the ledger verifies, is append-only and tamper-evident; stored things are
  immutable and resolve; the validator of assemblies equals its specification; runs refine an
  abstract machine, are exclusive and bounded in claims, attempts and steps, and freeze when they
  end; claims, commits, registered contracts and lifecycle moves are characterised exactly, on the
  error branches too; so are replays and deadlines, with the calls that check their content before the
  cache or ignore their context. The framework properties: plugins, policies and tables of a host agree
  with its kernel after any of its operations; driving returns, leaves nothing to claim, and drops the
  tables it should and no others; pipelines start under the limits of their policy and leave no table
  behind; cuts keep exactly the closure they name and stay valid, and a resume passes exactly when the
  prior run has output all that the cut reads; the memo replays what was stored and nothing else;
  tables behave as documented. Properties that a request key, a shape of identifier, a separator byte or
  a column of a row can break say so in their text and in their hypotheses.

  \<^bold>\<open>Bounds and loops.\<close> The loops of the source over lists are structural recursions. The graph searches
  of \<open>Assembly\<close> and \<open>Cut\<close> are functions with a termination proof. \<open>drive_until_idle\<close> may run for ever in
  the source, so it is a partial function into an option; it is proved to return, the measure being
  the steps that the run has left, when the host's context carries no request key (with one, a replayed
  commit takes no step). No definition uses fuel.

  \<^bold>\<open>Not modelled.\<close> The protobuf codec and the generated code, the SHA-256 and \<open>serde_json\<close> crates,
  \<open>build.rs\<close>, the Go and Python ports, the test modules. A panic of a plugin and a poisoned lock end the
  process or the call and have no state to describe. Another \<open>StorageBackend\<close>, \<open>MemoStore\<close> or \<open>KernelApi\<close>
  than those of the repository is described by the laws of the locales only. The threads of a
  parallel wave see nothing but their own step, so they are run in the order of their outcomes. The
  read-only accessors of the host are the fields of its record. Three places are coarser than the
  source: \<open>put_artifact_with_blob\<close> takes the lock twice there (\<open>lib.rs:867\<close>) and is one step here; the
  attempt counter \<open>+ 1\<close> (\<open>lib.rs:1236\<close>) wraps as in a release build, where a debug build panics (no
  count gets there while no node id looks like a unit key, as attempts then stay within \<open>max_attempts\<close>); the \<open>Debug\<close> text of a string in an error
  message escapes ASCII only, where Rust also escapes some other characters.
\<close>

section \<open>The ledger\<close>

text \<open>
  C1: After any sequence of calls the ledger verifies: every entry's number is its position, its
  \<open>prev_hash\<close> is its predecessor's hash and its hash is recomputed from its fields.
\<close>

theorem ledger_verifies:
  assumes "documented X" "reachable X pol s"
  shows "verify_ledger X s"
  using kernel_invD(1) [OF reachable_inv [OF assms]] by (simp add: verify_ledger_def)

theorem ledger_verifies_witness: "verify_ledger sample_ext (sample_state 5)"
  by (rule ledger_verifies [OF sample_documented reachable_sample])

text \<open>
  C27: The ledger is append-only: whatever calls come after a state, the ledger of that state is a
  prefix of the ledger then, and the longer ledger still verifies.
\<close>

theorem ledger_append_only:
  assumes "documented X" "reachable X pol s" "(kernel_step X pol)\<^sup>*\<^sup>* s t"
  shows "\<exists>new. ledger t = ledger s @ new \<and> verify_chain X (ledger s @ new)"
proof -
  have g: "ledger_grows X (ks_ledger s) (ks_ledger t)" using reachable_le [OF assms] by (simp add: kernel_le_def)
  moreover have "verify_chain X (ks_ledger s)" using kernel_invD(1) [OF reachable_inv [OF assms(1,2)]] .
  ultimately show ?thesis using ledger_grows_prefix ledger_grows_verify unfolding ledger_def by metis
qed

theorem ledger_append_only_witness:
  "\<exists>new. ledger (sample_state 4) = ledger (sample_state 3) @ new \<and> verify_chain sample_ext (ledger (sample_state 3) @ new)"
  using ledger_append_only [OF sample_documented reachable_sample sample_later, of 3] by simp

section \<open>Units of work\<close>

text \<open>
  C2: At most one claim is in flight for a unit of work, and none for a unit that is done: two
  entries of \<open>claimed\<close> with the same unit key are the same entry, and its key is not in
  \<open>done_units\<close>. Each entry sits under its work id, for this run, with the unit key, attempt and
  lease of its work item.
\<close>

theorem claims_exclusive:
  assumes "documented X" "reachable X pol s" "ks_runs s rid = Some slot"
    and "map_of (rs_claimed slot) i = Some c" "map_of (rs_claimed slot) j = Some d"
  shows "(cs_unit_key c = cs_unit_key d \<longleftrightarrow> i = j) \<and> cs_unit_key c \<notin> rs_done_units slot \<and>
    wi_id (cs_work c) = i \<and> wi_run_id (cs_work c) = rid \<and> wi_unit_key (cs_work c) = cs_unit_key c \<and>
    wi_attempt (cs_work c) = cs_attempt c \<and> wi_lease_until_unix_ms (cs_work c) = cs_lease_until_ms c"
proof -
  have inv: "slot_inv (stored s) rid slot" using assms(1-3) by (rule reachable_slot)
  note claim = claim_invD [OF slot_invD(3) [OF inv assms(4)]]
  show ?thesis using slot_invD(4) [OF inv assms(4,5)] assms(4,5) claim by auto
qed

theorem claims_exclusive_witness:
  "\<exists>slot c. ks_runs (sample_state 4) ''r'' = Some slot \<and> map_of (rs_claimed slot) ''work:r/n'' = Some c \<and>
     wi_run_id (cs_work c) = ''r''"
proof -
  obtain slot c where "ks_runs (sample_state 4) ''r'' = Some slot" "map_of (rs_claimed slot) ''work:r/n'' = Some c"
    by (rule sample_claim_slot)
  with claims_exclusive [OF sample_documented reachable_sample, of 4 "''r''" slot "''work:r/n''" c]
  show ?thesis by auto
qed

text \<open>
  C17: A run with a \<open>max_in_flight\<close> never has more claims in flight than that.
\<close>

theorem in_flight_bounded:
  assumes "documented X" "reachable X pol s" "ks_runs s rid = Some slot" "rs_max_in_flight slot \<noteq> 0"
  shows "length (rs_claimed slot) \<le> unat (rs_max_in_flight slot)"
  using slot_invD(5) [OF reachable_slot [OF assms(1-3)]] assms(4) by (simp add: has_room_for_def)

theorem in_flight_bounded_witness:
  "\<exists>slot. ks_runs (sample_state 4) ''r'' = Some slot \<and> length (rs_claimed slot) \<le> 1"
proof -
  obtain slot c where s: "ks_runs (sample_state 4) ''r'' = Some slot" "rs_max_in_flight slot = 1"
    by (rule sample_claim_slot)
  with in_flight_bounded [OF sample_documented reachable_sample, of 4 "''r''" slot]
  show ?thesis by auto
qed

text \<open>
  C16: When no node id looks like the key of another unit (\<open>plain_nodes\<close>), no unit is ever claimed
  more often than \<open>max_attempts\<close>: neither the attempt counter of a unit nor the attempt of a claim
  in flight exceeds it.
\<close>

theorem attempts_bounded:
  assumes "documented X" "reachable X pol s" "ks_runs s rid = Some slot" "plain_nodes slot"
    and "rs_claim_attempts slot key = Some n"
  shows "n \<le> rs_max_attempts slot \<and>
    (\<forall>i c. map_of (rs_claimed slot) i = Some c \<and> cs_unit_key c = key \<longrightarrow> cs_attempt c = n)"
proof -
  have "attempts_inv slot" using reachable_attempts [OF assms(1,2)] assms(3,4) by (simp add: attempts_ok_def)
  then have n: "n \<le> rs_max_attempts slot"
    and c: "\<And>i c. map_of (rs_claimed slot) i = Some c \<Longrightarrow> rs_claim_attempts slot (cs_unit_key c) = Some (cs_attempt c)"
    using assms(5) unfolding attempts_inv_def by blast+
  have "cs_attempt c = n" if "map_of (rs_claimed slot) i = Some c" "cs_unit_key c = key" for i c
    using c [OF that(1)] that(2) assms(5) by simp
  with n show ?thesis by blast
qed

theorem attempts_bounded_witness:
  "\<exists>slot. ks_runs (sample_state 4) ''r'' = Some slot \<and> rs_claim_attempts slot ''once:n'' = Some 1 \<and>
     1 \<le> rs_max_attempts slot"
proof -
  obtain slot c where s: "ks_runs (sample_state 4) ''r'' = Some slot" "plain_nodes slot"
    "rs_claim_attempts slot ''once:n'' = Some 1" by (rule sample_claim_slot)
  with attempts_bounded [OF sample_documented reachable_sample, of 4 "''r''" slot "''once:n''" 1]
  show ?thesis by auto
qed

section \<open>Runs\<close>

text \<open>
  C6: Every call moves every run by steps of the abstract machine \<open>slot_step\<close> only: a run that exists
  goes on existing and its slot after the call is reached by claiming, renewing, releasing,
  finishing, committing, stalling, cancelling or injecting, each under the guards of that machine.
\<close>

theorem runs_simulate:
  assumes "documented X" "reachable X pol s" "ks_runs s rid = Some slot"
  shows "\<exists>slot'. ks_runs (snd (kernel_call X pol now s opn)) rid = Some slot' \<and> slot_steps (stored s) rid slot slot'"
  using kernel_call_runs_rel [OF assms(1) reachable_inv [OF assms(1,2)], unfolded runs_rel_def, rule_format,
      of now opn rid] assms(3)
  by auto

theorem runs_simulate_witness:
  "\<exists>slot slot'. ks_runs (sample_state 4) ''r'' = Some slot \<and> ks_runs (sample_state 5) ''r'' = Some slot' \<and>
     slot_steps (stored (sample_state 4)) ''r'' slot slot'"
proof -
  obtain slot c where s: "ks_runs (sample_state 4) ''r'' = Some slot" by (rule sample_claim_slot)
  with runs_simulate [OF sample_documented reachable_sample, of 4 "''r''" slot 1000
      "OpCommit sample_derivation default_context"] sample_state_5
  show ?thesis by auto
qed

text \<open>
  C18: A closed run is frozen: once a run is completed, stalled, failed or cancelled, nothing about it
  ever changes, whatever calls follow.
\<close>

theorem closed_run_frozen:
  assumes "documented X" "reachable X pol s" "(kernel_step X pol)\<^sup>*\<^sup>* s t"
    and "ks_runs s rid = Some slot" "run_state (rs_run slot) \<noteq> Running"
  shows "ks_runs t rid = Some slot"
proof -
  have "runs_le s t" using reachable_le [OF assms(1-3)] by (simp add: kernel_le_def)
  with assms(4) obtain slot' where "ks_runs t rid = Some slot'" "slot_le slot slot'" unfolding runs_le_def by blast
  with assms(5) show ?thesis by (simp add: slot_le_def running_def)
qed

theorem closed_run_frozen_witness:
  "\<exists>slot. run_state (rs_run slot) = Completed \<and> ks_runs (sample_state 5) ''r'' = Some slot \<and>
     ks_runs (snd (kernel_call sample_ext sample_policy 2000 (sample_state 5) (OpCancelRun ''r'' default_context))) ''r'' = Some slot"
proof -
  obtain slot where s: "ks_runs (sample_state 5) ''r'' = Some slot" "run_state (rs_run slot) = Completed"
    by (rule sample_commit_slot)
  let ?t = "snd (kernel_call sample_ext sample_policy 2000 (sample_state 5) (OpCancelRun ''r'' default_context))"
  have "(kernel_step sample_ext sample_policy)\<^sup>*\<^sup>* (sample_state 5) ?t"
    by (rule r_into_rtranclp) (unfold kernel_step_def, intro exI, rule refl)
  from closed_run_frozen [OF sample_documented reachable_sample this, of "''r''" slot] s
  have "ks_runs ?t ''r'' = Some slot" by simp
  with s show ?thesis by blast
qed

text \<open>
  C34: What a run keeps while it goes on: its id, its assembly, its policy and its limits (steps, in
  flight, attempts and default lease) are those it was started with, its step count never falls, and a unit that is done stays done.
\<close>

theorem runs_only_progress:
  assumes "documented X" "reachable X pol s" "(kernel_step X pol)\<^sup>*\<^sup>* s t" "ks_runs s rid = Some slot"
  shows "\<exists>slot'. ks_runs t rid = Some slot' \<and>
    run_id (rs_run slot') = rid \<and> run_assembly (rs_run slot') = run_assembly (rs_run slot) \<and>
    run_policy (rs_run slot') = run_policy (rs_run slot) \<and>
    run_max_steps (rs_run slot') = run_max_steps (rs_run slot) \<and>
    rs_max_in_flight slot' = rs_max_in_flight slot \<and> rs_max_attempts slot' = rs_max_attempts slot \<and>
    rs_default_lease_ms slot' = rs_default_lease_ms slot \<and>
    run_steps (rs_run slot) \<le> run_steps (rs_run slot') \<and> rs_done_units slot \<subseteq> rs_done_units slot'"
proof -
  have "run_id (rs_run slot) = rid" using slot_invD(1) [OF reachable_slot [OF assms(1,2,4)]] .
  moreover have "runs_le s t" using reachable_le [OF assms(1-3)] by (simp add: kernel_le_def)
  with assms(4) obtain slot' where "ks_runs t rid = Some slot'" "slot_le slot slot'" unfolding runs_le_def by blast
  ultimately show ?thesis unfolding slot_le_def by auto
qed

theorem runs_only_progress_witness:
  "\<exists>slot slot'. ks_runs (sample_state 4) ''r'' = Some slot \<and> ks_runs (sample_state 5) ''r'' = Some slot' \<and>
     run_assembly (rs_run slot') = run_assembly (rs_run slot) \<and> rs_default_lease_ms slot' = rs_default_lease_ms slot"
proof -
  obtain slot c where s: "ks_runs (sample_state 4) ''r'' = Some slot" by (rule sample_claim_slot)
  with runs_only_progress [OF sample_documented reachable_sample sample_later, of 4 "''r''" slot]
  show ?thesis by auto
qed

text \<open>
  C20: The step count of a run is the number of derivations committed for it. It never exceeds
  \<open>max_steps\<close>, and a run that is still running has a step left, so the check of \<open>commit\<close> for an
  exhausted budget never fails for a running run.
\<close>

theorem steps_counted:
  assumes "documented X" "reachable X pol s" "ks_runs s rid = Some slot"
  shows "unat (run_steps (rs_run slot)) = length (filter (\<lambda>d. dv_run_id d = rid) (derivations s)) \<and>
    run_steps (rs_run slot) \<le> run_max_steps (rs_run slot) \<and>
    (run_state (rs_run slot) = Running \<longrightarrow> run_steps (rs_run slot) < run_max_steps (rs_run slot))"
proof -
  have "derivations_ok s" using kernel_invD(6) [OF reachable_inv [OF assms(1,2)]] .
  then have "length (filter (\<lambda>d. dv_run_id d = rid) (ks_derivations s)) = unat (run_steps (rs_run slot))"
    using assms(3) by (simp add: derivations_ok_def steps_of_def)
  moreover note slot_invD(6,7) [OF reachable_slot [OF assms]]
  ultimately show ?thesis by (simp add: derivations_def running_def)
qed

theorem steps_counted_witness:
  "length (filter (\<lambda>d. dv_run_id d = ''r'') (derivations (sample_state 5))) = 1"
proof -
  obtain slot where s: "ks_runs (sample_state 5) ''r'' = Some slot" "run_steps (rs_run slot) = 1"
    by (rule sample_commit_slot)
  with steps_counted [OF sample_documented reachable_sample, of 5 "''r''" slot]
  show ?thesis by simp
qed

text \<open>
  C19: No reference dangles: every artifact that a run or a derivation refers to is in the store, the
  run's inputs, the inputs of work in flight, the outputs of the latest derivation of each node, the
  answer, and the inputs and outputs of every derivation.
\<close>

theorem references_resolve:
  assumes "documented X" "reachable X pol s"
  shows "(ks_runs s rid = Some slot \<longrightarrow>
      (\<forall>v \<in> set (run_inputs (rs_run slot)). ref_in (dom (ks_artifacts s)) v) \<and>
      (\<forall>i c v. map_of (rs_claimed slot) i = Some c \<and> v \<in> set (wi_inputs (cs_work c)) \<longrightarrow> ref_in (dom (ks_artifacts s)) v) \<and>
      (\<forall>n d v. rs_latest slot n = Some d \<and> v \<in> set (dv_outputs d) \<longrightarrow> ref_in (dom (ks_artifacts s)) v) \<and>
      (\<forall>r. run_answer (rs_run slot) = Some r \<longrightarrow> aref_id r \<in> dom (ks_artifacts s))) \<and>
    (\<forall>d \<in> set (derivations s). \<forall>v \<in> set (dv_inputs d @ dv_outputs d). ref_in (dom (ks_artifacts s)) v)"
proof -
  have "derivations_ok s" using kernel_invD(6) [OF reachable_inv [OF assms]] .
  moreover have "slot_refs (stored s) slot" if "ks_runs s rid = Some slot"
    using slot_invD(12) [OF reachable_slot [OF assms that]] .
  ultimately show ?thesis unfolding derivations_ok_def slot_refs_def derivations_def by blast
qed

theorem references_resolve_witness: "aref_id sample_ref \<in> dom (ks_artifacts (sample_state 5))"
proof -
  obtain slot where s: "ks_runs (sample_state 5) ''r'' = Some slot" "run_answer (rs_run slot) = Some sample_ref"
    by (rule sample_commit_slot)
  with references_resolve [OF sample_documented reachable_sample, of 5 "''r''" slot]
  show ?thesis by simp
qed

text \<open>
  C29: A completed run has an answer, and \<open>get_artifact\<close> on it succeeds with the artifact of that
  address. A stalled run has no claim in flight.
\<close>

theorem completed_has_answer:
  assumes "documented X" "reachable X pol s" "ks_runs s rid = Some slot"
  shows "(run_state (rs_run slot) = Completed \<longrightarrow>
      (\<exists>r a. run_answer (rs_run slot) = Some r \<and> get_artifact s r = Inr a \<and> artifact_id_of X a = aref_id r)) \<and>
    (run_state (rs_run slot) = Stalled \<longrightarrow> rs_claimed slot = [])"
proof -
  have inv: "slot_inv (stored s) rid slot" using assms by (rule reachable_slot)
  have arts: "artifacts_ok X pol s" using kernel_invD(3) [OF reachable_inv [OF assms(1,2)]] .
  have "\<exists>r a. run_answer (rs_run slot) = Some r \<and> get_artifact s r = Inr a \<and> artifact_id_of X a = aref_id r"
    if comp: "run_state (rs_run slot) = Completed"
  proof -
    obtain r where r: "run_answer (rs_run slot) = Some r" using slot_invD(8) [OF inv comp] by auto
    with slot_invD(12) [OF inv] obtain a where a: "ks_artifacts s (aref_id r) = Some a" by (auto simp: slot_refs_def)
    with arts have "artifact_id_of X a = aref_id r" by (simp add: artifacts_ok_def artifact_ok_def)
    with r a show ?thesis by (auto simp: get_artifact_def)
  qed
  with slot_invD(9) [OF inv] show ?thesis by blast
qed

theorem completed_has_answer_witness: "\<exists>a. get_artifact (sample_state 5) sample_ref = Inr a"
proof -
  obtain slot where s: "ks_runs (sample_state 5) ''r'' = Some slot" "run_answer (rs_run slot) = Some sample_ref"
    "run_state (rs_run slot) = Completed" by (rule sample_commit_slot)
  with completed_has_answer [OF sample_documented reachable_sample, of 5 "''r''" slot]
  show ?thesis by auto
qed

section \<open>The artifact and blob stores\<close>

text \<open>
  C12: A stored artifact is immutable and sits under its own content address: no later call changes
  or removes it, its id is the key it is stored under, that key is recomputed from its trait bag, and
  it satisfies the store policy.
\<close>

theorem artifacts_immutable:
  assumes "documented X" "reachable X pol s" "(kernel_step X pol)\<^sup>*\<^sup>* s t" "ks_artifacts s k = Some a"
  shows "ks_artifacts t k = Some a \<and> art_id a = k \<and> artifact_id_of X a = k \<and>
    validate_artifact_content a pol = Inr ()"
proof -
  have "keeps (ks_artifacts s) (ks_artifacts t)" using reachable_le [OF assms(1-3)] by (simp add: kernel_le_def)
  moreover have "artifact_ok X pol s k a"
    using kernel_invD(3) [OF reachable_inv [OF assms(1,2)]] assms(4) by (simp add: artifacts_ok_def)
  ultimately show ?thesis using assms(4) by (simp add: keeps_def artifact_ok_def)
qed

theorem artifacts_immutable_witness:
  "\<exists>a. ks_artifacts (sample_state 4) (aref_id sample_ref) = Some a \<and> ks_artifacts (sample_state 5) (aref_id sample_ref) = Some a"
proof -
  obtain a where "ks_artifacts (sample_state 4) (aref_id sample_ref) = Some a" using sample_stored by blast
  with artifacts_immutable [OF sample_documented reachable_sample sample_later, of 4 "aref_id sample_ref" a]
  show ?thesis by auto
qed

text \<open>
  C32: Every external reference of a stored artifact resolves: \<open>get_blob\<close> with its namespace and
  digest returns bytes whose SHA-256 address is the digest and whose length is the byte count.
\<close>

theorem external_refs_resolve:
  assumes "documented X" "reachable X pol s" "ks_artifacts s k = Some a"
    and "(c, tr) \<in> set (art_traits a)" "tr_object tr = Some obj" "oref_digest obj \<noteq> []"
  shows "\<exists>blob. get_blob X s \<lparr>gbr_digest = oref_digest obj, gbr_namespace = oref_namespace obj\<rparr> = Inr blob \<and>
    blob_id X (bd_data blob) = oref_digest obj \<and> len64 (bd_data blob) = oref_byte_count obj"
proof -
  note inv = reachable_inv [OF assms(1,2)]
  have "artifact_ok X pol s k a" using kernel_invD(3) [OF inv] assms(3) by (simp add: artifacts_ok_def)
  with assms(4-6) have "ref_resolves X s obj" by (auto simp: artifact_ok_def trait_has_external_eq)
  then obtain b where b: "ks_blobs s (oref_namespace obj, oref_digest obj) = Some b"
    "blob_id X (bs_data b) = oref_digest obj" "len64 (bs_data b) = oref_byte_count obj" by (auto simp: ref_resolves_def)
  have "blob_ok X (oref_namespace obj, oref_digest obj) b"
    using kernel_invD(2) [OF inv] b(1) by (simp add: blobs_ok_def)
  with b show ?thesis by (auto simp: get_blob_def blob_ok_def)
qed

theorem external_refs_resolve_witness:
  "\<exists>blob. get_blob sample_ext external_state \<lparr>gbr_digest = oref_digest external_ref, gbr_namespace = ''ns''\<rparr> = Inr blob"
proof -
  obtain a c tr where "ks_artifacts external_state external_id = Some a" "(c, tr) \<in> set (art_traits a)"
    "tr_object tr = Some external_ref" by (rule external_stored)
  with external_refs_resolve [OF sample_documented reachable_external, of external_id a c tr external_ref]
  show ?thesis by (auto simp: external_ref_def)
qed



text \<open>
  C31: \<open>put_blob\<close> and \<open>get_blob\<close> round trip: a successful put returns the SHA-256 address and the
  size of the data, and a get of that address returns the data given, or other data with the same
  address: a collision of the hash. The integrity check of \<open>get_blob\<close> never fails.
\<close>

theorem put_then_get_blob:
  assumes "documented X" "reachable X pol s" "put_blob X pol s req = (Inr r, s')"
  shows "bref_digest r = blob_id X (pbr_data req) \<and> bref_byte_count r = len64 (pbr_data req) \<and>
    (\<exists>data. get_blob X s' \<lparr>gbr_digest = bref_digest r, gbr_namespace = pbr_namespace req\<rparr> =
        Inr \<lparr>bd_digest = bref_digest r, bd_byte_count = len64 data, bd_namespace = pbr_namespace req, bd_data = data\<rparr> \<and>
      (data = pbr_data req \<or> sha_collision X data (pbr_data req))) \<and>
    (\<forall>q msg. get_blob X s' q \<noteq> Inl (BlobIntegrity msg))"
proof (cases rule: put_blob_cases [of X pol s req])
  case (accepted r')
  note inv = reachable_inv [OF assms(1,2)]
  have rs: "r' = r" "s' = store_blob X \<lparr>bs_data = pbr_data req, bs_ref = r\<rparr> s" using accepted(2) assms(3) by auto
  have ns: "bref_namespace r = pbr_namespace req" using accepted(1) rs(1) by auto
  have ok: "blobs_ok X s'" using put_blob_ok [OF kernel_invD(2) [OF inv], of pol req] assms(3) by simp
  have "ks_blobs s' (pbr_namespace req, bref_digest r) \<noteq> None"
    using blbs.look_put [of X "\<lparr>bs_data = pbr_data req, bs_ref = r\<rparr>" s] by (simp add: blob_key_def ns rs(2))
  then obtain b where b: "ks_blobs s' (pbr_namespace req, bref_digest r) = Some b" by auto
  with ok have bo: "blob_ok X (pbr_namespace req, bref_digest r) b" by (simp add: blobs_ok_def)
  then have "blob_id X (bs_data b) = blob_id X (pbr_data req)" using accepted(1) rs(1) by (simp add: blob_ok_def blob_key_def)
  then have "bs_data b = pbr_data req \<or> sha_collision X (bs_data b) (pbr_data req)" by (simp add: blob_id_eq)
  moreover have "get_blob X s' \<lparr>gbr_digest = bref_digest r, gbr_namespace = pbr_namespace req\<rparr> =
      Inr \<lparr>bd_digest = bref_digest r, bd_byte_count = len64 (bs_data b), bd_namespace = pbr_namespace req, bd_data = bs_data b\<rparr>"
    using b bo by (auto simp: get_blob_def blob_ok_def blob_key_def)
  moreover have "get_blob X s' q \<noteq> Inl (BlobIntegrity msg)" for q msg
    using ok by (auto simp: get_blob_def blobs_ok_def blob_ok_def split: option.splits)
  ultimately show ?thesis using accepted(1) rs(1) by auto
qed (use assms in simp)

theorem put_then_get_blob_witness:
  "\<exists>r s'. put_blob sample_ext sample_policy init_state \<lparr>pbr_namespace = ''ns'', pbr_data = [1, 2]\<rparr> = (Inr r, s') \<and>
     bref_byte_count r = 2"
proof -
  obtain r s' where "put_blob sample_ext sample_policy init_state \<lparr>pbr_namespace = ''ns'', pbr_data = [1, 2]\<rparr> = (Inr r, s')"
    by (simp add: put_blob_def enforce_blob_size_def sample_policy_def Let_def)
  with put_then_get_blob [OF sample_documented reachable.init this] show ?thesis by (auto simp: len64_def)
qed

section \<open>Contracts and modules\<close>

text \<open>
  C35: A contract with content is immutable: whatever calls follow, the contract under its reference
  stays the same. Only a name-only placeholder can change, and only into a contract with content.
  Every stored contract carries the digest of its content, sits under its own reference and lists
  its compatible contracts sorted.
\<close>

theorem contracts_immutable:
  assumes "documented X" "reachable X pol s" "(kernel_step X pol)\<^sup>*\<^sup>* s t"
    and "map_of (ks_contracts s) r = Some c"
  shows "\<exists>d. map_of (ks_contracts t) r = Some d \<and>
    (d = c \<or> is_contract_placeholder c \<and> \<not> is_contract_placeholder d) \<and>
    ct_ref d = r \<and> ct_digest d = contract_digest_of X d \<and> sorted (ct_compatible_with d)"
proof -
  have "contracts_grow s t" using reachable_le [OF assms(1-3)] by (simp add: kernel_le_def)
  then obtain d where d: "map_of (ks_contracts t) r = Some d" "contract_le c d"
    using assms(4) unfolding contracts_grow_def by blast
  have "kernel_inv X pol t" using km.inv_steps [OF assms(3)] reachable_inv [OF assms(1,2)] assms(1) by blast
  then have "contract_ok X r d" using d(1) by (intro contracts_ok_lookup) (simp_all add: kernel_inv_def)
  with d show ?thesis by (auto simp: contract_ok_def contract_le_def)
qed

theorem contracts_immutable_witness:
  "\<exists>d. map_of (ks_contracts (sample_state 2)) ''t'' = Some d \<and> ct_ref d = ''t''"
proof -
  obtain c where "map_of (ks_contracts (sample_state 1)) ''t'' = Some c" by (rule sample_contract)
  with contracts_immutable [OF sample_documented reachable_sample sample_later, of 1 "''t''" c]
  show ?thesis by (auto simp: numeral_2_eq_2)
qed

text \<open>
  C37: What \<open>put_contract\<close> does, on every branch. It accepts a contract exactly when its reference is
  not empty, the digest it claims, if any, is that of its content, and content already stored under
  the reference has that same digest. It then answers with what is already there under that digest,
  changing nothing, or stores the contract given, all its fields, with its digest and its
  compatibility list sorted, logs it once, and changes no other contract and nothing else. A contract
  that is not accepted changes nothing and is refused: \<open>Invalid\<close> for its own faults, \<open>Conflict\<close> for
  other content.
\<close>

theorem put_contract_result:
  assumes "documented X" "reachable X pol s" "put_contract X s c = (res, s')"
  shows "let digest = contract_digest_of X c;
      claim_ok = (ct_ref c \<noteq> [] \<and> (ct_digest c = [] \<or> ct_digest c = digest));
      accepted = (claim_ok \<and> (\<forall>b. map_of (ks_contracts s) (ct_ref c) = Some b \<and> \<not> is_contract_placeholder b \<longrightarrow>
        ct_digest b = digest))
    in case res of
      Inl e \<Rightarrow> \<not> accepted \<and> s' = s \<and> code e = (if claim_ok then CodeConflict else CodeInvalid)
    | Inr d \<Rightarrow> accepted \<and>
        (case map_of (ks_contracts s) (ct_ref c) of
           None \<Rightarrow> d = stored_contract X c \<and> contract_added X s s' d
         | Some b \<Rightarrow> if ct_digest b = digest then d = b \<and> s' = s
             else d = stored_contract X c \<and> contract_added X s s' d)"
proof -
  have "contracts_ok X s" using kernel_invD(4) [OF reachable_inv [OF assms(1,2)]] .
  from put_contract_exact [OF this assms(3)] show ?thesis
    unfolding contract_accepted_def contract_claim_ok_def Let_def .
qed

theorem put_contract_result_witness:
  "put_contract sample_ext init_state sample_contract_value = (Inr (stored_contract sample_ext sample_contract_value),
      snd (put_contract sample_ext init_state sample_contract_value)) \<and>
   contract_added sample_ext init_state (snd (put_contract sample_ext init_state sample_contract_value))
     (stored_contract sample_ext sample_contract_value)"
proof -
  have p: "put_contract sample_ext init_state sample_contract_value = (Inr (stored_contract sample_ext sample_contract_value),
      snd (put_contract sample_ext init_state sample_contract_value))"
    by (simp add: put_contract_def sample_contract_value_def init_state_def stored_contract_def contract_digest_of_def Let_def)
  with put_contract_result [OF sample_documented reachable.init p] show ?thesis
    by (simp add: sample_contract_value_def init_state_def Let_def)
qed

text \<open>
  C38: Module lifecycles only move forward: whatever calls follow, a registered module keeps its place
  and its manifest, and its lifecycle state never goes back.
\<close>

theorem lifecycle_forward:
  assumes "documented X" "reachable X pol s" "(kernel_step X pol)\<^sup>*\<^sup>* s t" "i < length (ks_modules s)"
  shows "i < length (ks_modules t) \<and> ms_manifest (ks_modules t ! i) = ms_manifest (ks_modules s ! i) \<and>
    ms_lifecycle (ks_modules s ! i) \<le> ms_lifecycle (ks_modules t ! i)"
  using reachable_le [OF assms(1-3)] assms(4) by (simp add: kernel_le_def modules_le_def)

theorem lifecycle_forward_witness:
  "ms_manifest (ks_modules (sample_state 2) ! 0) = sample_manifest"
  using lifecycle_forward [OF sample_documented reachable_sample sample_later, of 0 1] sample_module
  by (simp add: numeral_2_eq_2)

text \<open>
  C39: What a \<open>transition\<close> within its deadline does. It is about the first module of that name; without
  one it fails with \<open>NotFound\<close> and changes nothing. When the target is the state right after the
  module's current one, that module alone enters it, manifests stay, one ledger entry records the new
  state under the module's name, nothing else changes, and the answer is the target. Any other target,
  unknown values included, changes nothing and the answer is the current state.
\<close>

theorem transition_one_step:
  assumes "check_deadline now ctx = Inr ()" "transition_req X now s req ctx = (res, s')"
  shows "((\<forall>m \<in> set (ks_modules s). mm_name (ms_manifest m) \<noteq> tq_module req) \<longrightarrow>
      res = Inl (NotFound (tq_module req)) \<and> s' = s) \<and>
    (\<forall>i < length (ks_modules s). mm_name (ms_manifest (ks_modules s ! i)) = tq_module req \<longrightarrow>
      (\<forall>j < i. mm_name (ms_manifest (ks_modules s ! j)) \<noteq> tq_module req) \<longrightarrow>
      (let l = lifecycle_i32 (ms_lifecycle (ks_modules s ! i)) in
       if tq_to req = l + 1 \<and> tq_to req \<le> 4
       then res = Inr (tq_to req) \<and> module_moved s s' i (tq_module req) (tq_to req)
       else res = Inr l \<and> s' = s))"
  using transition_unknown [OF assms] transition_exact [OF assms] by blast

theorem transition_one_step_witness:
  "fst (transition_req sample_ext 5 (sample_state 1) \<lparr>tq_module = ''m'', tq_to = 2\<rparr> default_context) = Inr 2 \<and>
   module_moved (sample_state 1)
     (snd (transition_req sample_ext 5 (sample_state 1) \<lparr>tq_module = ''m'', tq_to = 2\<rparr> default_context)) 0 ''m'' 2"
proof -
  let ?t = "transition_req sample_ext 5 (sample_state 1) \<lparr>tq_module = ''m'', tq_to = 2\<rparr> default_context"
  have t: "?t = (fst ?t, snd ?t)" by simp
  have d: "check_deadline 5 default_context = Inr ()" by (simp add: check_deadline_def default_context_def)
  have m: "0 < length (ks_modules (sample_state 1))" "mm_name (ms_manifest (ks_modules (sample_state 1) ! 0)) = ''m''"
    "lifecycle_i32 (ms_lifecycle (ks_modules (sample_state 1) ! 0)) = 1"
    by code_simp+
  from transition_one_step [OF d t, THEN conjunct2, rule_format, OF m(1)] m(2,3) show ?thesis by (simp add: Let_def)
qed

section \<open>Addresses and tampering\<close>

text \<open>
  C28: The ledger is tamper evident as long as the kinds and subjects of its entries are without the
  separator byte and it has fewer than \<open>2 ^ 64\<close> entries: two such chains that verify and end in the
  same hash are the same chain, or two of their entries exhibit a collision of SHA-256.
\<close>

theorem tamper_evident:
  assumes "verify_chain X es" "verify_chain X fs"
    and "list_all clean_entry es" "list_all clean_entry fs"
    and "length es < 2 ^ 64" "length fs < 2 ^ 64"
    and "es \<noteq> []" "fs \<noteq> []" "le_hash (last es) = le_hash (last fs)"
  shows "es = fs \<or> (\<exists>e \<in> set es. \<exists>f \<in> set fs. sha_collision X (entry_preimage e) (entry_preimage f))"
  using assms by (rule chains_equal_or_collide)

text \<open>The sample hash keeps the last bytes, so chains that differ in the kind of a long entry end in one hash.\<close>

theorem tamper_evident_witness:
  "let e = next_entry sample_ext [] ''a'' ''s'' (replicate 32 7); f = next_entry sample_ext [] ''b'' ''s'' (replicate 32 7)
   in e \<noteq> f \<and> sha_collision sample_ext (entry_preimage e) (entry_preimage f)"
proof -
  let ?e = "next_entry sample_ext [] ''a'' ''s'' (replicate 32 7)" and ?f = "next_entry sample_ext [] ''b'' ''s'' (replicate 32 7)"
  have "verify_chain sample_ext [?e]" "verify_chain sample_ext [?f]" "list_all clean_entry [?e]" "list_all clean_entry [?f]"
    "le_hash (last [?e]) = le_hash (last [?f])"
    by code_simp+
  moreover have "?e \<noteq> ?f" by (simp add: next_entry_def Let_def)
  ultimately show ?thesis using tamper_evident [of sample_ext "[?e]" "[?f]"] by (simp add: Let_def)
qed

text \<open>
  C40: The limit of tamper evidence: when the kind of an entry contains the separator byte, as any
  caller of \<open>append\<close> may choose, its end can be moved into the subject and the chain still verifies,
  with every hash unchanged.
\<close>

theorem boundary_shift_undetected:
  assumes "verify_chain X es" "i < length es" "le_kind (es ! i) = k1 @ [CHR 0x00] @ k2"
  shows "verify_chain X (es[i := shift_boundary k1 k2 (es ! i)]) \<and>
    le_kind (shift_boundary k1 k2 (es ! i)) \<noteq> le_kind (es ! i) \<and>
    map le_hash (es[i := shift_boundary k1 k2 (es ! i)]) = map le_hash es"
proof -
  have h: "le_hash (shift_boundary k1 k2 (es ! i)) = le_hash (es ! i)" by (simp add: shift_boundary_def)
  have "verify_chain X (es[i := shift_boundary k1 k2 (es ! i)])"
    using assms by (intro verify_chain_update) (simp_all add: h shift_boundary_ok)
  moreover have "map le_hash (es[i := shift_boundary k1 k2 (es ! i)]) = map le_hash es"
    using assms(2) h by (simp add: map_update list_update_same_conv)
  ultimately show ?thesis using assms(3) by (simp add: shift_boundary_def)
qed

theorem boundary_shift_undetected_witness:
  "let e = next_entry sample_ext [] (''a'' @ [CHR 0x00] @ ''b'') ''s'' []
   in verify_chain sample_ext [shift_boundary ''a'' ''b'' e] \<and> le_kind (shift_boundary ''a'' ''b'' e) = ''a''"
proof -
  let ?e = "next_entry sample_ext [] (''a'' @ [CHR 0x00] @ ''b'') ''s'' []"
  have "verify_chain sample_ext [?e]" by code_simp
  moreover have "le_kind ?e = ''a'' @ [CHR 0x00] @ ''b''" by (simp add: next_entry_def Let_def)
  ultimately show ?thesis
    using boundary_shift_undetected [of sample_ext "[?e]" 0 "''a''" "''b''"]
    by (simp add: shift_boundary_def Let_def)
qed

text \<open>
  C33: Content addresses identify trait bags: two artifacts with clean bags and the same address
  have the same traits with the same values, or exhibit a collision of SHA-256. Conversely the
  address depends on nothing but the bag: not on the metadata, the producer, the entity or what is
  superseded.
\<close>

theorem address_identifies_bag:
  assumes "clean_bag a" "clean_bag b"
  shows "(artifact_id_of X a = artifact_id_of X b \<longrightarrow>
      (\<forall>k. map_option trait_value (get_trait a k) = map_option trait_value (get_trait b k)) \<or>
      sha_collision X (artifact_canonical_bytes a) (artifact_canonical_bytes b)) \<and>
    (art_traits a = art_traits b \<longrightarrow> artifact_id_of X a = artifact_id_of X b)"
proof -
  have "artifact_id_of X a = artifact_id_of X b" if "art_traits a = art_traits b"
    using that by (simp add: artifact_id_of_eq artifact_canonical_bytes_def)
  moreover have "map_option trait_value (get_trait a k) = map_option trait_value (get_trait b k)"
    if "artifact_canonical_bytes a = artifact_canonical_bytes b" for k
    using canonical_bytes_inj [OF assms that] by (simp add: get_trait_def)
  ultimately show ?thesis by (auto simp: artifact_id_of_eq)
qed

theorem address_identifies_bag_witness:
  "artifact_id_of sample_ext (sample_artifact\<lparr>art_entity_id := ''e''\<rparr>) = artifact_id_of sample_ext sample_artifact"
proof -
  have "clean_bag (sample_artifact\<lparr>art_entity_id := ''e''\<rparr>)" "clean_bag sample_artifact" by code_simp+
  from address_identifies_bag [OF this, of sample_ext] show ?thesis by simp
qed

section \<open>Assemblies\<close>

text \<open>
  C4: \<open>validate_assembly\<close> accepts an assembly with its run inputs if and only if they
  are well formed, whatever the order in which the hash map hands out the nodes: every node has a
  unique id and exactly one capability with well-typed ports, the terminal is a scalar output, the
  inputs name stored artifacts, every binding has one source whose traits cover the target port,
  every port has a permitted number of bindings, and the upstream bindings form no cycle.
\<close>

theorem validate_assembly_correct:
  assumes "order_permutes X"
  shows "validate_assembly X s a inputs = Inr () \<longleftrightarrow> well_formed_assembly s a inputs"
  using assms by (rule validate_assembly_iff)

theorem validate_assembly_correct_witness: "well_formed_assembly (sample_state 2) sample_assembly sample_inputs"
proof -
  have "validate_assembly sample_ext (sample_state 2) sample_assembly sample_inputs = Inr ()" by code_simp
  with validate_assembly_correct [of sample_ext "sample_state 2" sample_assembly sample_inputs] show ?thesis
    using sample_documented by (simp add: documented_def)
qed

section \<open>Claiming, committing, replaying\<close>

text \<open>
  C8: A claim hands out exactly the first open units of the nodes the request asks for, in the
  order of the assembly, as many as the request wants and the live claims leave room for; none is
  passed over. A unit is open when every binding of its node has its artifact, the node has exactly one
  capability, and the unit is not done, not held under a live lease, and not given up: a unit whose
  lease has run out with attempts left is open again. Each item carries the node, the inputs, the key,
  the next attempt and a full lease; and, when node ids do not look like unit keys (\<open>plain_nodes\<close>), the
  claims afterwards are the live ones from before and the items.
\<close>

theorem claim_exact:
  assumes "documented X" "reachable X pol s" "claim_ready X now s req = (Inr items, s')"
  shows "\<exists>slot a. ks_runs s (cr_run_id req) = Some slot \<and> run_state (rs_run slot) = Running \<and>
    run_assembly (rs_run slot) = Some a \<and>
    map wi_node_id items = map an_id (take (claim_room now slot req)
      (filter (\<lambda>node. asked_for req node \<and> (\<exists>ins key. open_unit X now s slot a node ins key)) (as_nodes a))) \<and>
    (\<forall>w \<in> set items. \<exists>node ins key. node \<in> set (as_nodes a) \<and> open_unit X now s slot a node ins key \<and>
      w = handed_out now (cr_run_id req) slot node ins key) \<and>
    (plain_nodes slot \<longrightarrow> (\<exists>slot'. ks_runs s' (cr_run_id req) = Some slot' \<and>
      (\<forall>i c. map_of (rs_claimed slot') i = Some c \<longleftrightarrow>
        (\<exists>w \<in> set items. wi_id w = i \<and> c = claim_of w) \<or>
        map_of (rs_claimed slot) i = Some c \<and> \<not> lease_over now c)))"
  by (rule claim_spec [OF assms]) (auto simp: running_def)

lemma claim_eval:
  "(case fst (claim_ready sample_ext 1000 (sample_state 3) sample_claim) of Inl _ \<Rightarrow> False
    | Inr items \<Rightarrow> map wi_id items = [''work:r/n''] \<and> map wi_node_id items = [''n''])"
  by code_simp

theorem claim_exact_witness:
  "\<exists>slot a node ins key. ks_runs (sample_state 3) ''r'' = Some slot \<and> node \<in> set (as_nodes a) \<and> an_id node = ''n'' \<and>
     open_unit sample_ext 1000 (sample_state 3) slot a node ins key \<and>
     fst (claim_ready sample_ext 1000 (sample_state 3) sample_claim) = Inr [handed_out 1000 ''r'' slot node ins key]"
proof -
  obtain w s' where c: "claim_ready sample_ext 1000 (sample_state 3) sample_claim = (Inr [w], s')" "wi_node_id w = ''n''"
    using claim_eval by (cases "claim_ready sample_ext 1000 (sample_state 3) sample_claim")
      (auto split: sum.splits simp: map_eq_Cons_conv)
  have rid: "cr_run_id sample_claim = ''r''" by (simp add: sample_claim_def)
  from claim_exact [OF sample_documented reachable_sample c(1), unfolded rid] obtain slot a node ins key where
    u: "ks_runs (sample_state 3) ''r'' = Some slot" "node \<in> set (as_nodes a)"
      "open_unit sample_ext 1000 (sample_state 3) slot a node ins key" "w = handed_out 1000 ''r'' slot node ins key"
    by auto
  then have "an_id node = ''n''" using c(2) by (simp add: handed_out_def)
  with u c(1) show ?thesis by auto
qed

text \<open>
  C7: An accepted commit that is not a replay is of a claim whose lease has not
  expired, names the node of that claim or none, and has outputs that its capability declares; it
  appends one derivation, made from the claim and not from what the caller said of module, inputs or
  run, takes exactly one step of the run, changes no other run and no artifact, and answers with the
  run as it is then.
\<close>

theorem commit_exact:
  assumes "documented X" "reachable X pol s" "commit_ctx X now s d ctx = (Inr r, s')"
    and "idempotent_get s ''commit'' ctx = None"
  shows "\<exists>slot c cap. ks_runs s (dv_run_id d) = Some slot \<and> map_of (rs_claimed slot) (dv_work_id d) = Some c \<and>
    \<not> expired now c \<and> (dv_node_id d = [] \<or> dv_node_id d = wi_node_id (cs_work c)) \<and>
    capability_for_work (reap_expired_locked X now s (dv_run_id d)) (cs_work c) = Inr cap \<and>
    validate_outputs (reap_expired_locked X now s (dv_run_id d)) cap (dv_outputs d) = Inr () \<and>
    ks_derivations s' = ks_derivations s @ [make_derivation X (cs_work c) (dv_outputs d)] \<and>
    (\<exists>slot'. ks_runs s' = (ks_runs s)(dv_run_id d \<mapsto> slot') \<and> r = rs_run slot') \<and>
    unat (run_steps r) = unat (run_steps (rs_run slot)) + 1 \<and> ks_artifacts s' = ks_artifacts s"
proof -
  have X: "order_permutes X" using assms(1) by (simp add: documented_def)
  have inv: "runs_inv s" using kernel_invD(5) [OF reachable_inv [OF assms(1,2)]] .
  show ?thesis
  proof (rule commit_result [OF X inv assms(3,4)], goal_cases)
    case (1 slot c cap)
    from 1(10,11) have "\<exists>slot'. ks_runs s' = (ks_runs s)(dv_run_id d \<mapsto> slot') \<and> r = rs_run slot'" by auto
    with 1 show ?case by blast
  qed
qed

lemma commit_eval:
  "(case fst (commit_ctx sample_ext 1000 (sample_state 4) sample_derivation default_context) of
      Inl _ \<Rightarrow> False | Inr r \<Rightarrow> run_state r = Completed)"
  by code_simp

theorem commit_exact_witness:
  "\<exists>c. ks_derivations (snd (commit_ctx sample_ext 1000 (sample_state 4) sample_derivation default_context)) =
     ks_derivations (sample_state 4) @ [make_derivation sample_ext c (dv_outputs sample_derivation)]"
proof -
  let ?c = "commit_ctx sample_ext 1000 (sample_state 4) sample_derivation default_context"
  obtain r s' where c: "?c = (Inr r, s')" using commit_eval by (cases ?c) (auto split: sum.splits)
  have "idempotent_get (sample_state 4) ''commit'' default_context = None"
    by (simp add: idempotent_get_def idempotency_key_def default_context_def)
  from commit_exact [OF sample_documented reachable_sample c this] c show ?thesis by auto
qed

text \<open>
  C15: The first successful answer of \<open>put_artifact\<close>, \<open>start_run\<close> or \<open>commit\<close> under a caller and a
  request key is the answer of every later call of the same operation under the same caller and key,
  whatever its other arguments and whatever happened in between, and such a call changes nothing. Only
  what is checked before the cache can still refuse it: a deadline that has passed, and for an artifact
  content that is not well formed; the refusal changes nothing either.
\<close>

theorem first_success_replayed:
  assumes "reachable X pol s" "replayed_op opn = Some (name, ctx)" "cx_request_key ctx \<noteq> []"
    and "kernel_call X pol now s opn = (resp, s1)" "\<forall>e. resp \<noteq> RError e" "(kernel_step X pol)\<^sup>*\<^sup>* s1 s2"
    and "replayed_op opn' = Some (name, ctx')" "cx_caller ctx' = cx_caller ctx"
    and "cx_request_key ctx' = cx_request_key ctx"
  shows "kernel_call X pol now' s2 opn' =
    (case check_deadline now' ctx' of
       Inl e \<Rightarrow> (RError e, s2)
     | Inr _ \<Rightarrow>
         (case (case opn' of OpPutArtifact a _ \<Rightarrow> validate_artifact_content a pol | _ \<Rightarrow> Inr ()) of
            Inl e \<Rightarrow> (RError e, s2)
          | Inr _ \<Rightarrow> (resp, s2)))"
  using later_answer [OF assms, of now'] by (simp add: checked_first_def split: sum.split)

lemma keyed_eval:
  "(case fst (kernel_call sample_ext sample_policy 1000 (sample_state 1) (OpPutArtifact sample_artifact keyed_context)) of
      RArtifactRef r \<Rightarrow> r = sample_ref | _ \<Rightarrow> False)"
  by code_simp

lemma other_valid: "validate_artifact_content other_artifact sample_policy = Inr ()"
proof -
  have "(case validate_artifact_content other_artifact sample_policy of Inl _ \<Rightarrow> False | Inr _ \<Rightarrow> True)" by code_simp
  then show ?thesis by (auto split: sum.splits)
qed

theorem first_success_replayed_witness:
  "fst (kernel_call sample_ext sample_policy 2000
     (snd (kernel_call sample_ext sample_policy 1000 (sample_state 1) (OpPutArtifact sample_artifact keyed_context)))
     (OpPutArtifact other_artifact keyed_context)) = RArtifactRef sample_ref"
proof -
  let ?call = "kernel_call sample_ext sample_policy 1000 (sample_state 1) (OpPutArtifact sample_artifact keyed_context)"
  have first: "?call = (RArtifactRef sample_ref, snd ?call)"
    using keyed_eval by (cases ?call) (auto split: response.splits)
  have "kernel_call sample_ext sample_policy 2000 (snd ?call) (OpPutArtifact other_artifact keyed_context) =
      (RArtifactRef sample_ref, snd ?call)"
    by (subst first_success_replayed [OF reachable_sample [of 1], of _ "''put_artifact''" keyed_context, OF _ _ first,
          of _ _ keyed_context])
      (simp_all add: replayed_op_def keyed_context_def default_context_def check_deadline_def other_valid)
  then show ?thesis by simp
qed

text \<open>
  C36: Of the calls of the kernel's interface that take a context, those that return a \<open>Result\<close>,
  except \<open>put_blob\<close>, are refused with the documented error and change nothing when their deadline has
  passed. \<open>put_blob\<close> is not, against the specification, which says so of every such call; it and the
  calls that return no \<open>Result\<close> do not look at their context at all.
\<close>

theorem deadline_refused:
  assumes "op_context opn = Some ctx" "0 < cx_deadline_unix_ms ctx" "cx_deadline_unix_ms ctx < now"
  shows "if returns_result opn \<and> \<not> is_put_blob opn
    then kernel_call X pol now s opn = (RError (FailedPrecondition ''deadline exceeded''), s)
    else \<forall>ctx'. kernel_call X pol now s (with_context ctx' opn) = kernel_call X pol now s opn"
  using deadline_answer [OF assms] deadline_ignored [of opn X pol now s] by simp

theorem deadline_refused_witness:
  "kernel_call sample_ext sample_policy 1000 (sample_state 4)
     (OpCommit sample_derivation (default_context\<lparr>cx_deadline_unix_ms := 999\<rparr>)) =
   (RError (FailedPrecondition ''deadline exceeded''), sample_state 4) \<and>
   kernel_call sample_ext sample_policy 1000 (sample_state 4)
     (OpPutBlob \<lparr>pbr_namespace = [], pbr_data = [1]\<rparr> (default_context\<lparr>cx_deadline_unix_ms := 999\<rparr>)) =
   kernel_call sample_ext sample_policy 1000 (sample_state 4) (OpPutBlob \<lparr>pbr_namespace = [], pbr_data = [1]\<rparr> default_context)"
  using deadline_refused [of "OpCommit sample_derivation (default_context\<lparr>cx_deadline_unix_ms := 999\<rparr>)"
      "default_context\<lparr>cx_deadline_unix_ms := 999\<rparr>" 1000 sample_ext sample_policy "sample_state 4"]
    deadline_refused [of "OpPutBlob \<lparr>pbr_namespace = [], pbr_data = [1]\<rparr> (default_context\<lparr>cx_deadline_unix_ms := 999\<rparr>)"
      "default_context\<lparr>cx_deadline_unix_ms := 999\<rparr>" 1000 sample_ext sample_policy "sample_state 4"]
  by (simp add: op_context_def default_context_def returns_result_def is_put_blob_def with_context_def)

end
